(* ===== verification/Ofs_Prelude.thy ===== *)
theory Ofs_Prelude imports "HOL-Library.Word" "HOL-Library.Monad_Syntax"
begin

text \<open>
  Shared vocabulary of the development: the fixed-width integers of
  \<^verbatim>\<open>public/os_types.h\<close>, the error codes of
  \<^verbatim>\<open>include/ofs_globals.h\<close> and \<^verbatim>\<open>include/ofs_block.h\<close>,
  the little-endian byte image of an integer (the code reads and writes integers through
  \<^verbatim>\<open>uint8_t *\<close> pointers, and its comments fix little endian), and the generic
  lemmas on lists that several components use.

  Conventions. A C function that returns an \<^verbatim>\<open>int32_t\<close> status returns an
  \<^typ>\<open>int\<close> here; errors are negative, as in the code. A function of type
  \<open>'a option\<close> returns \<^term>\<open>None\<close> where the C code has undefined behaviour
  (a read or a write outside an object) or does not return; so a theorem that the result is
  \<open>Some x\<close> also says that the call is memory safe and terminates.
\<close>

section \<open>Integers\<close>

type_synonym u8 = "8 word"
type_synonym u16 = "16 word"
type_synonym u32 = "32 word"
type_synonym u64 = "64 word"

text \<open>Facts about the byte image of integers.\<close>

named_theorems le_simps

section \<open>Error codes\<close>

text \<open>
  The two enumerations (\<^verbatim>\<open>error_code_t\<close> and
  \<^verbatim>\<open>enum ofs_block_error_code\<close>), in the order of the source. They are
  abbreviations of numerals, so that status values compute.
\<close>

abbreviation (input) INDEX_ERR_START :: int where "INDEX_ERR_START \<equiv> 400000"
abbreviation (input) INDEX_ERR_SEEK :: int where "INDEX_ERR_SEEK \<equiv> 400001"
abbreviation (input) INDEX_ERR_READ :: int where "INDEX_ERR_READ \<equiv> 400002"
abbreviation (input) FILE_INDEX_TREE_NOT_FOUND :: int where "FILE_INDEX_TREE_NOT_FOUND \<equiv> 400003"
abbreviation (input) INDEX_ERR_OBJ_EXIST :: int where "INDEX_ERR_OBJ_EXIST \<equiv> 400004"
abbreviation (input) FILE_INDEX_TREE_NO_SPACE :: int where "FILE_INDEX_TREE_NO_SPACE \<equiv> 400005"
abbreviation (input) INDEX_ERR_OBJECT_NAME_SIZE :: int where "INDEX_ERR_OBJECT_NAME_SIZE \<equiv> 400006"
abbreviation (input) INDEX_ERR_WRITE :: int where "INDEX_ERR_WRITE \<equiv> 400007"
abbreviation (input) INDEX_ERR_0BIT_NOT_FOUND :: int where "INDEX_ERR_0BIT_NOT_FOUND \<equiv> 400008"
abbreviation (input) INDEX_ERR_EXCEPTION :: int where "INDEX_ERR_EXCEPTION \<equiv> 400009"
abbreviation (input) INDEX_ERR_PARAMETER :: int where "INDEX_ERR_PARAMETER \<equiv> 400010"
abbreviation (input) INDEX_ERR_ATTR_RESIDENT :: int where "INDEX_ERR_ATTR_RESIDENT \<equiv> 400011"
abbreviation (input) INDEX_ERR_ALLOCATE_MEMORY :: int where "INDEX_ERR_ALLOCATE_MEMORY \<equiv> 400012"
abbreviation (input) INDEX_ERR_MANY_TIMES_PUT :: int where "INDEX_ERR_MANY_TIMES_PUT \<equiv> 400013"
abbreviation (input) INDEX_ERR_BLOCK_MAGIC :: int where "INDEX_ERR_BLOCK_MAGIC \<equiv> 400014"
abbreviation (input) INDEX_ERR_NO_CONTENT :: int where "INDEX_ERR_NO_CONTENT \<equiv> 400015"
abbreviation (input) INDEX_ERR_NO_FREE_BLOCKS :: int where "INDEX_ERR_NO_FREE_BLOCKS \<equiv> 400016"
abbreviation (input) INDEX_ERR_UPDATE :: int where "INDEX_ERR_UPDATE \<equiv> 400017"
abbreviation (input) INDEX_ERR_FLUSH :: int where "INDEX_ERR_FLUSH \<equiv> 400018"
abbreviation (input) INDEX_ERR_MAX_DEPTH :: int where "INDEX_ERR_MAX_DEPTH \<equiv> 400019"
abbreviation (input) INDEX_ERR_ROOT :: int where "INDEX_ERR_ROOT \<equiv> 400020"
abbreviation (input) INDEX_ERR_OPEN :: int where "INDEX_ERR_OPEN \<equiv> 400021"
abbreviation (input) INDEX_ERR_ATTR_NOT_FOUND :: int where "INDEX_ERR_ATTR_NOT_FOUND \<equiv> 400022"
abbreviation (input) INDEX_ERR_BOOT_RECORD :: int where "INDEX_ERR_BOOT_RECORD \<equiv> 400023"
abbreviation (input) INDEX_ERR_RESET :: int where "INDEX_ERR_RESET \<equiv> 400024"
abbreviation (input) INDEX_ERR_END_ENTRY :: int where "INDEX_ERR_END_ENTRY \<equiv> 400025"
abbreviation (input) INDEX_ERR_NEXT_ENTRY :: int where "INDEX_ERR_NEXT_ENTRY \<equiv> 400026"
abbreviation (input) INDEX_ERR_PREV_ENTRY :: int where "INDEX_ERR_PREV_ENTRY \<equiv> 400027"
abbreviation (input) INDEX_ERR_CHILD_NODE :: int where "INDEX_ERR_CHILD_NODE \<equiv> 400028"
abbreviation (input) INDEX_ERR_PARENT_NODE :: int where "INDEX_ERR_PARENT_NODE \<equiv> 400029"
abbreviation (input) INDEX_ERR_COLLATE :: int where "INDEX_ERR_COLLATE \<equiv> 400030"
abbreviation (input) INDEX_ERR_KEY_NOT_FOUND :: int where "INDEX_ERR_KEY_NOT_FOUND \<equiv> 400031"
abbreviation (input) INDEX_ERR_KEY_EXIST :: int where "INDEX_ERR_KEY_EXIST \<equiv> 400032"
abbreviation (input) INDEX_ERR_INSERT_ENTRY :: int where "INDEX_ERR_INSERT_ENTRY \<equiv> 400033"
abbreviation (input) INDEX_ERR_REMOVE_ENTRY :: int where "INDEX_ERR_REMOVE_ENTRY \<equiv> 400034"
abbreviation (input) INDEX_ERR_ADD_VBN :: int where "INDEX_ERR_ADD_VBN \<equiv> 400035"
abbreviation (input) INDEX_ERR_DEL_VBN :: int where "INDEX_ERR_DEL_VBN \<equiv> 400036"
abbreviation (input) INDEX_ERR_CHAOS :: int where "INDEX_ERR_CHAOS \<equiv> 400037"
abbreviation (input) INDEX_ERR_GET_ENTRY :: int where "INDEX_ERR_GET_ENTRY \<equiv> 400038"
abbreviation (input) INDEX_ERR_WALK_ENTRY :: int where "INDEX_ERR_WALK_ENTRY \<equiv> 400039"
abbreviation (input) INDEX_ERR_REPARENT :: int where "INDEX_ERR_REPARENT \<equiv> 400040"
abbreviation (input) INDEX_ERR_DELETE_BLOCK :: int where "INDEX_ERR_DELETE_BLOCK \<equiv> 400041"
abbreviation (input) INDEX_ERR_REAL_SIZE :: int where "INDEX_ERR_REAL_SIZE \<equiv> 400042"
abbreviation (input) INDEX_ERR_NODE_TYPE :: int where "INDEX_ERR_NODE_TYPE \<equiv> 400043"
abbreviation (input) INDEX_ERR_BLOCK_CHECK :: int where "INDEX_ERR_BLOCK_CHECK \<equiv> 400044"
abbreviation (input) INDEX_ERR_BLOCK_UNUSED :: int where "INDEX_ERR_BLOCK_UNUSED \<equiv> 400045"
abbreviation (input) INDEX_ERR_FORMAT :: int where "INDEX_ERR_FORMAT \<equiv> 400046"
abbreviation (input) INDEX_ERR_IS_OPENED :: int where "INDEX_ERR_IS_OPENED \<equiv> 400047"
abbreviation (input) INDEX_ERR_NOT_OPENED :: int where "INDEX_ERR_NOT_OPENED \<equiv> 400048"
abbreviation (input) INDEX_ERR_OBJ_ID_INVALID :: int where "INDEX_ERR_OBJ_ID_INVALID \<equiv> 400049"

abbreviation (input) BLOCK_ERR_START :: int where "BLOCK_ERR_START \<equiv> 300000"
abbreviation (input) BLOCK_ERR_WRITE :: int where "BLOCK_ERR_WRITE \<equiv> 300001"
abbreviation (input) BLOCK_ERR_PARAMETER :: int where "BLOCK_ERR_PARAMETER \<equiv> 300002"
abbreviation (input) BLOCK_ERR_ALLOCATE_MEMORY :: int where "BLOCK_ERR_ALLOCATE_MEMORY \<equiv> 300003"
abbreviation (input) BLOCK_ERR_FORMAT :: int where "BLOCK_ERR_FORMAT \<equiv> 300004"
abbreviation (input) FILE_BLOCK_ERR_INVALID_OBJECT :: int where "FILE_BLOCK_ERR_INVALID_OBJECT \<equiv> 300005"

section \<open>Little-endian byte images\<close>

fun le_nat :: "u8 list \<Rightarrow> nat" where
  "le_nat [] = 0"
| "le_nat (b # bs) = unat b + 256 * le_nat bs"

fun nat_le :: "nat \<Rightarrow> nat \<Rightarrow> u8 list" where
  "nat_le 0 x = []"
| "nat_le (Suc n) x = word_of_nat (x mod 256) # nat_le n (x div 256)"

lemma length_nat_le [simp]: "length (nat_le n x) = n"
  by (induction n arbitrary: x) simp_all

lemma unat_u8_mod [simp]: "unat (word_of_nat (x mod 256) :: u8) = x mod 256"
  by (simp add: unat_of_nat)

lemma unat_u8_lt: "unat (b :: u8) < 256"
proof -
  have "unat b < 2 ^ LENGTH(8)" by (rule unsigned_less)
  then show ?thesis by simp
qed

lemma le_nat_lt: "le_nat bs < 256 ^ length bs"
proof (induction bs)
  case (Cons b bs)
  have "unat b + 256 * le_nat bs < 256 * (le_nat bs + 1)"
    using unat_u8_lt [of b] by simp
  also have "\<dots> \<le> 256 * 256 ^ length bs"
    using Cons.IH by (intro mult_le_mono) auto
  finally show ?case by simp
qed simp

lemma le_nat_append [le_simps]: "le_nat (xs @ ys) = le_nat xs + 256 ^ length xs * le_nat ys"
  by (induction xs) (simp_all add: algebra_simps)

lemma le_nat_replicate0 [simp]: "le_nat (replicate n 0) = 0"
  by (induction n) simp_all

lemma le_nat_nat_le [le_simps]: "le_nat (nat_le n x) = x mod 256 ^ n"
proof (induction n arbitrary: x)
  case (Suc n)
  have "x mod (256 * 256 ^ n) = 256 * (x div 256 mod 256 ^ n) + x mod 256"
    by (rule mod_mult2_eq)
  then show ?case using Suc.IH [of "x div 256"] by simp
qed simp

lemma nat_le_le_nat [le_simps]: "length bs = n \<Longrightarrow> nat_le n (le_nat bs) = bs"
proof (induction bs arbitrary: n)
  case (Cons b bs)
  have m: "(unat b + 256 * le_nat bs) mod 256 = unat b"
    using unat_u8_lt [of b] by simp
  have d: "(unat b + 256 * le_nat bs) div 256 = le_nat bs"
    using unat_u8_lt [of b] by simp
  from Cons.prems obtain m' where "n = Suc m'" "length bs = m'" by auto
  then show ?case using Cons.IH [of m'] unat_u8_lt [of b] by (simp add: m d)
qed simp

lemma take_nat_le: "k \<le> n \<Longrightarrow> take k (nat_le n x) = nat_le k x"
proof (induction k arbitrary: n x)
  case (Suc k)
  then obtain n' where "n = Suc n'" by (cases n) auto
  with Suc show ?case by simp
qed simp

lemma drop_nat_le: "k \<le> n \<Longrightarrow> drop k (nat_le n x) = nat_le (n - k) (x div 256 ^ k)"
proof (induction k arbitrary: n x)
  case (Suc k)
  then obtain n' where "n = Suc n'" by (cases n) auto
  with Suc show ?case by (simp add: div_mult2_eq)
qed simp

lemma nth_nat_le: "i < n \<Longrightarrow> nat_le n x ! i = word_of_nat (x div 256 ^ i mod 256)"
proof (induction n arbitrary: i x)
  case (Suc n)
  then show ?case by (cases i) (simp_all add: div_mult2_eq)
qed simp

text \<open>The memory image of a \<^verbatim>\<open>uint64_t\<close>, and of the shorter integers.\<close>

definition u64_bytes :: "u64 \<Rightarrow> u8 list" where
  "u64_bytes w = nat_le 8 (unat w)"

definition u64_of_bytes :: "u8 list \<Rightarrow> u64" where
  "u64_of_bytes bs = word_of_nat (le_nat bs)"

lemma length_u64_bytes [simp]: "length (u64_bytes w) = 8"
  by (simp add: u64_bytes_def)

lemma unat_u64_lt: "unat (w :: u64) < 256 ^ 8"
proof -
  have "unat w < 2 ^ LENGTH(64)" by (rule unsigned_less)
  then show ?thesis by simp
qed

lemma u64_of_bytes_bytes [simp]: "u64_of_bytes (u64_bytes w) = w"
proof -
  have "unat w mod 256 ^ 8 = unat w" by (rule mod_less) (rule unat_u64_lt)
  then show ?thesis by (simp add: u64_of_bytes_def u64_bytes_def le_nat_nat_le)
qed

lemma unat_u64_of_bytes: "length bs \<le> 8 \<Longrightarrow> unat (u64_of_bytes bs) = le_nat bs"
proof -
  assume "length bs \<le> 8"
  then have "(256::nat) ^ length bs \<le> 256 ^ 8" by (intro power_increasing) auto
  with le_nat_lt [of bs] have "le_nat bs < 2 ^ 64" by simp
  then show ?thesis by (simp add: u64_of_bytes_def unat_of_nat)
qed

section \<open>Lists\<close>

lemma sorted_map_append:
  "sorted (map f (xs @ ys)) \<longleftrightarrow>
     sorted (map f xs) \<and> sorted (map f ys) \<and> (\<forall>x\<in>set xs. \<forall>y\<in>set ys. f x \<le> f y)"
  by (auto simp: sorted_append)

lemma append_eq_take_drop: "length xs = n \<Longrightarrow> take n (xs @ ys) = xs \<and> drop n (xs @ ys) = ys"
  by simp

text \<open>The value a C function returns when it returns an unsigned number as \<^verbatim>\<open>int32_t\<close>.\<close>

definition int32 :: "nat \<Rightarrow> int" where
  "int32 n = sint (word_of_nat n :: 32 word)"

lemma int32_small: "n < 2 ^ 31 \<Longrightarrow> int32 n = int n"
proof -
  assume n: "n < 2 ^ 31"
  then have "sint (word_of_nat n :: 32 word) = signed_take_bit 31 (int n)"
    by (simp add: signed_of_nat)
  also have "\<dots> = int n" using n by (intro signed_take_bit_int_eq_self) auto
  finally show ?thesis by (simp add: int32_def)
qed

lemma sint_small64: "n < 2 ^ 63 \<Longrightarrow> sint (word_of_nat n :: u64) = int n"
proof -
  assume n: "n < 2 ^ 63"
  then have "sint (word_of_nat n :: u64) = signed_take_bit 63 (int n)"
    by (simp add: signed_of_nat)
  also have "\<dots> = int n" using n by (intro signed_take_bit_int_eq_self) auto
  finally show ?thesis .
qed

section \<open>Bytes in memory\<close>

text \<open>Reading and writing \<open>n\<close> bytes of an object at an offset.\<close>

definition rd :: "u8 list \<Rightarrow> nat \<Rightarrow> nat \<Rightarrow> u8 list" where
  "rd m off n = take n (drop off m)"

definition wr :: "u8 list \<Rightarrow> nat \<Rightarrow> u8 list \<Rightarrow> u8 list" where
  "wr m off bs = take off m @ bs @ drop (off + length bs) m"

lemma length_wr [simp]: "off + length bs \<le> length m \<Longrightarrow> length (wr m off bs) = length m"
  by (simp add: wr_def)

lemma length_rd [simp]: "off + n \<le> length m \<Longrightarrow> length (rd m off n) = n"
  by (simp add: rd_def)

lemma nth_wr:
  "off + length bs \<le> length m \<Longrightarrow> i < length m \<Longrightarrow>
   wr m off bs ! i = (if off \<le> i \<and> i < off + length bs then bs ! (i - off) else m ! i)"
  by (auto simp: wr_def nth_append min_def)

lemma nth_rd: "off + n \<le> length m \<Longrightarrow> i < n \<Longrightarrow> rd m off n ! i = m ! (off + i)"
  by (simp add: rd_def)

lemma rd_wr_same: "off + length bs \<le> length m \<Longrightarrow> n = length bs \<Longrightarrow> rd (wr m off bs) off n = bs"
  by (rule nth_equalityI) (simp_all add: nth_rd nth_wr)

lemma rd_wr_other:
  "p + length bs \<le> length m \<Longrightarrow> off + n \<le> length m \<Longrightarrow> off + n \<le> p \<or> p + length bs \<le> off \<Longrightarrow>
   rd (wr m p bs) off n = rd m off n"
  by (rule nth_equalityI) (auto simp: nth_rd nth_wr)

lemma rd_wr_inside:
  "p + length bs \<le> length m \<Longrightarrow> p \<le> off \<Longrightarrow> off + n \<le> p + length bs \<Longrightarrow>
   rd (wr m p bs) off n = rd bs (off - p) n"
  by (rule nth_equalityI) (auto simp: nth_rd nth_wr)

lemma rd_rd: "a + n \<le> k \<Longrightarrow> rd (rd m off k) a n = rd m (off + a) n"
  by (simp add: rd_def drop_take add.commute min_def)

lemma rd_all [simp]: "rd m 0 (length m) = m"
  by (simp add: rd_def)

lemma wr_rd: "off + n \<le> length m \<Longrightarrow> wr m off (rd m off n) = m"
  by (rule nth_equalityI) (auto simp: nth_rd nth_wr)

lemma wr_wr_same: "off + length bs \<le> length m \<Longrightarrow> length cs = length bs \<Longrightarrow>
    wr (wr m off bs) off cs = wr m off cs"
  by (rule nth_equalityI) (auto simp: nth_wr)

lemma wr_wr_swap:
  "a + length bs \<le> length m \<Longrightarrow> b + length cs \<le> length m \<Longrightarrow> a + length bs \<le> b \<or> b + length cs \<le> a \<Longrightarrow>
   wr (wr m a bs) b cs = wr (wr m b cs) a bs"
  by (rule nth_equalityI) (auto simp: nth_wr)

text \<open>The 16- and 32-bit fields.\<close>

definition get16 :: "u8 list \<Rightarrow> nat \<Rightarrow> u16" where
  "get16 m off = word_of_nat (le_nat (rd m off 2))"

definition get32 :: "u8 list \<Rightarrow> nat \<Rightarrow> u32" where
  "get32 m off = word_of_nat (le_nat (rd m off 4))"

definition put16 :: "u8 list \<Rightarrow> nat \<Rightarrow> u16 \<Rightarrow> u8 list" where
  "put16 m off w = wr m off (nat_le 2 (unat w))"

lemma get16_bytes: "off + 2 \<le> length m \<Longrightarrow> nat_le 2 (unat (get16 m off)) = rd m off 2"
proof -
  assume l: "off + 2 \<le> length m"
  then have "le_nat (rd m off 2) < 2 ^ 16" using le_nat_lt [of "rd m off 2"] by simp
  then show ?thesis using l by (simp add: get16_def unat_of_nat nat_le_le_nat)
qed

lemma get16_inj:
  "a + 2 \<le> length m \<Longrightarrow> b + 2 \<le> length m' \<Longrightarrow> get16 m a = get16 m' b \<longleftrightarrow> rd m a 2 = rd m' b 2"
  using get16_bytes [of a m] get16_bytes [of b m'] by (metis get16_def)

lemma length_put16 [simp]: "off + 2 \<le> length m \<Longrightarrow> length (put16 m off w) = length m"
  by (simp add: put16_def)

lemma get16_put16_same [simp]: "off + 2 \<le> length m \<Longrightarrow> get16 (put16 m off w) off = w"
proof -
  assume l: "off + 2 \<le> length m"
  have "unat w < 2 ^ LENGTH(16)" by (rule unsigned_less)
  then show ?thesis using l by (simp add: get16_def put16_def rd_wr_same le_nat_nat_le)
qed

lemma get16_put16_other:
  "off + 2 \<le> length m \<Longrightarrow> p + 2 \<le> length m \<Longrightarrow> off + 2 \<le> p \<or> p + 2 \<le> off \<Longrightarrow>
   get16 (put16 m p w) off = get16 m off"
  by (simp add: get16_def put16_def rd_wr_other)

lemma get32_put16_other:
  "off + 4 \<le> length m \<Longrightarrow> p + 2 \<le> length m \<Longrightarrow> off + 4 \<le> p \<or> p + 2 \<le> off \<Longrightarrow>
   get32 (put16 m p w) off = get32 m off"
  by (simp add: get32_def put16_def rd_wr_other)

lemma put16_get16: "off + 2 \<le> length m \<Longrightarrow> put16 m off (get16 m off) = m"
  by (simp add: put16_def get16_bytes wr_rd)

lemma put16_put16_same: "off + 2 \<le> length m \<Longrightarrow> put16 (put16 m off v) off w = put16 m off w"
  by (simp add: put16_def wr_wr_same)

lemma put16_swap:
  "a + 2 \<le> length m \<Longrightarrow> b + 2 \<le> length m \<Longrightarrow> a + 2 \<le> b \<or> b + 2 \<le> a \<Longrightarrow>
   put16 (put16 m a v) b w = put16 (put16 m b w) a v"
  unfolding put16_def by (rule wr_wr_swap) simp_all

section \<open>Walking with a callback\<close>

text \<open>What a walk over \<open>xs\<close> does when it calls \<open>f\<close> on each and stops at the first
  result that is not 0.\<close>

fun walk_list :: "('a \<Rightarrow> 's \<Rightarrow> int \<times> 's) \<Rightarrow> int \<Rightarrow> 'a list \<Rightarrow> 's \<Rightarrow> int \<times> 's" where
  "walk_list f r [] s = (r, s)"
| "walk_list f r (x # xs) s = (let (ret, s') = f x s in if ret \<noteq> 0 then (ret, s') else walk_list f ret xs s')"

end
