(* ===== verification/Ofs_Layout.thy ===== *)
theory Ofs_Layout imports Ofs_Prelude
begin

unbundle bit_operations_syntax

text \<open>
  The on-disk structures of \<^verbatim>\<open>include/ofs_layout.h\<close> that the index code
  works on, and the constants of that file and of \<^verbatim>\<open>include/ofs_tree.h\<close>.

  An \<^verbatim>\<open>index_entry_t\<close> is a packed header of nine bytes followed by the key, the
  value and, for an entry that has a child, the eight bytes of the child's block number. The
  record keeps the header fields the code computes with (\<open>ie_len\<close>, \<open>ie_prev_len\<close>,
  \<open>ie_flags\<close>); \<^verbatim>\<open>key_len\<close> and \<^verbatim>\<open>value_len\<close> are the lengths of
  the two byte lists. \<open>ie_vbn\<close> is what \<^verbatim>\<open>GET_IE_VBN\<close> reads and
  \<^verbatim>\<open>SET_IE_VBN\<close> writes; it has a meaning only for an entry whose flags have
  \<open>INDEX_ENTRY_NODE\<close>.
\<close>

section \<open>Constants\<close>

abbreviation (input) INDEX_ENTRY_LEAF :: u8 where "INDEX_ENTRY_LEAF \<equiv> 0"
abbreviation (input) INDEX_ENTRY_NODE :: u8 where "INDEX_ENTRY_NODE \<equiv> 1"
abbreviation (input) INDEX_ENTRY_END :: u8 where "INDEX_ENTRY_END \<equiv> 2"
abbreviation (input) INDEX_ENTRY_BEGIN :: u8 where "INDEX_ENTRY_BEGIN \<equiv> 4"

abbreviation (input) INDEX_BLOCK_SMALL :: u8 where "INDEX_BLOCK_SMALL \<equiv> 0"
abbreviation (input) INDEX_BLOCK_LARGE :: u8 where "INDEX_BLOCK_LARGE \<equiv> 1"

abbreviation (input) INODE_MAGIC :: nat where "INODE_MAGIC \<equiv> 1162494543"
abbreviation (input) INDEX_MAGIC :: nat where "INDEX_MAGIC \<equiv> 1480871497"
abbreviation (input) SUPER_BLOCK_ID :: nat where "SUPER_BLOCK_ID \<equiv> 1263288915"

abbreviation (input) TREE_MAX_DEPTH :: nat where "TREE_MAX_DEPTH \<equiv> 16"
abbreviation (input) KEY_MAX_SIZE :: nat where "KEY_MAX_SIZE \<equiv> 256"
abbreviation (input) VALUE_MAX_SIZE :: nat where "VALUE_MAX_SIZE \<equiv> 1024"

abbreviation (input) VBN_SIZE :: nat where "VBN_SIZE \<equiv> 8"
abbreviation (input) ENTRY_END_SIZE :: nat where "ENTRY_END_SIZE \<equiv> 9"
abbreviation (input) ENTRY_BEGIN_SIZE :: nat where "ENTRY_BEGIN_SIZE \<equiv> 9"

text \<open>
  \<^verbatim>\<open>sizeof(block_head_t)\<close>, the offset of \<^verbatim>\<open>begin_entry\<close> and
  \<^verbatim>\<open>sizeof(index_block_t)\<close> under \<^verbatim>\<open>#pragma pack(1)\<close>.
\<close>

abbreviation (input) BLOCK_HEAD_SIZE :: nat where "BLOCK_HEAD_SIZE \<equiv> 16"
abbreviation (input) BEGIN_ENTRY_OFF :: nat where "BEGIN_ENTRY_OFF \<equiv> 24"
abbreviation (input) INDEX_BLOCK_SIZE :: nat where "INDEX_BLOCK_SIZE \<equiv> 33"

section \<open>Entries and blocks\<close>

record index_entry =
  ie_len :: nat
  ie_prev_len :: nat
  ie_flags :: u8
  ie_key :: "u8 list"
  ie_value :: "u8 list"
  ie_vbn :: u64

definition has_flag :: "index_entry \<Rightarrow> u8 \<Rightarrow> bool" where
  "has_flag e f \<longleftrightarrow> ie_flags e AND f \<noteq> 0"

text \<open>
  An \<^verbatim>\<open>index_block_t\<close>: the header fields the index code uses and the entries,
  the first being \<^verbatim>\<open>begin_entry\<close> and the last the end entry. A pointer
  \<^verbatim>\<open>index_entry_t *\<close> into the block is the position of the entry in the list;
  \<open>ie_off\<close> gives its byte offset.
\<close>

record index_block =
  ib_alloc_size :: nat
  ib_real_size :: nat
  ib_first_entry_off :: nat
  ib_node_type :: u8
  ib_entries :: "index_entry list"

definition ie_off :: "index_entry list \<Rightarrow> nat \<Rightarrow> nat" where
  "ie_off es i = BEGIN_ENTRY_OFF + sum_list (map ie_len (take i es))"

text \<open>The position of the entry at a byte offset, if an entry starts there.\<close>

fun ie_at_from :: "nat \<Rightarrow> index_entry list \<Rightarrow> nat \<Rightarrow> nat option" where
  "ie_at_from o0 [] p = None"
| "ie_at_from o0 (e # es) p =
     (if p = o0 then Some 0 else map_option Suc (ie_at_from (o0 + ie_len e) es p))"

definition ie_at :: "index_entry list \<Rightarrow> nat \<Rightarrow> nat option" where
  "ie_at es p = ie_at_from BEGIN_ENTRY_OFF es p"

text \<open>What a pointer to an entry reads, and the block with another entry there.\<close>

definition ie_read :: "index_block \<Rightarrow> nat \<Rightarrow> index_entry option" where
  "ie_read ib off = map_option (\<lambda>i. ib_entries ib ! i) (ie_at (ib_entries ib) off)"

definition ie_write :: "index_block \<Rightarrow> nat \<Rightarrow> index_entry \<Rightarrow> index_block option" where
  "ie_write ib off e = map_option (\<lambda>i. ib\<lparr>ib_entries := (ib_entries ib)[i := e]\<rparr>) (ie_at (ib_entries ib) off)"

section \<open>Inodes and blocks\<close>

text \<open>
  The \<^verbatim>\<open>attr_record_t\<close> of an inode; the content of a table object is the root block of
  its index, that of a data stream is zero bytes (\<^term>\<open>None\<close>).
\<close>

record attr_record =
  ar_record_size :: u16
  ar_flags :: u16
  ar_attr_size :: u64
  ar_content :: "index_block option"

record inode_record =
  in_alloc_size :: nat
  in_real_size :: nat
  in_first_attr_off :: nat
  in_objid :: u64
  in_base_objid :: u64
  in_mode :: u64
  in_uid :: u32
  in_gid :: u32
  in_size :: u64
  in_links :: u64
  in_ctime :: u64
  in_atime :: u64
  in_mtime :: u64
  in_snapshot_no :: u64
  in_name_size :: u16
  in_name :: "u8 list"
  in_attr :: attr_record

text \<open>
  The buffer of a block: the null pointer, memory that holds no block yet, an index block, an
  inode, or a pointer into the attribute content of the inode that another buffer holds.
\<close>

datatype blk = NoBuf | Raw | Indx index_block | Obje inode_record | InodeOf nat

abbreviation (input) FLAG_SYSTEM :: u16 where "FLAG_SYSTEM \<equiv> 0x8000"
abbreviation (input) FLAG_TABLE :: u16 where "FLAG_TABLE \<equiv> 0x4000"

abbreviation (input) INODE_SIZE :: nat where "INODE_SIZE \<equiv> 4096"
abbreviation (input) INODE_HEAD_SIZE :: nat where "INODE_HEAD_SIZE \<equiv> 362"
abbreviation (input) INODE_RESERVED_SIZE :: nat where "INODE_RESERVED_SIZE \<equiv> 3734"
abbreviation (input) ATTR_RECORD_CONTENT_SIZE :: nat where "ATTR_RECORD_CONTENT_SIZE \<equiv> 3722"

end
