(* ===== verification/Ofs_Collate.thy ===== *)
theory Ofs_Collate imports Ofs_Layout
begin

text \<open>
  The collation rules of \<^verbatim>\<open>object_system/ofs_collate.c\<close>: how two keys of a
  table compare, and the variable-length byte forms of 64-bit numbers and extents. A byte
  range \<open>(b, b_size)\<close> of the code is the list of its bytes. The character maps are those
  of the source (its kernel build); the hosted build uses the C library's functions, which
  agree with them in the C locale.
\<close>

section \<open>Three-way comparison of keys\<close>

fun skip_zeros :: "u8 list \<Rightarrow> u8 list" where
  "skip_zeros [] = []"
| "skip_zeros (b # bs) = (if b = 0 then skip_zeros bs else b # bs)"

fun cmp_bytes :: "u8 list \<Rightarrow> u8 list \<Rightarrow> int" where
  "cmp_bytes (x # xs) (y # ys) = (if x > y then 1 else if x < y then - 1 else cmp_bytes xs ys)"
| "cmp_bytes xs ys = 0"

definition os_collate_binary :: "u8 list \<Rightarrow> u8 list \<Rightarrow> int" where
  "os_collate_binary b1 b2 =
     (let b1 = skip_zeros b1; b2 = skip_zeros b2 in
      if length b1 > length b2 then 1
      else if length b1 < length b2 then - 1
      else cmp_bytes b1 b2)"

definition os_to_upper :: "u8 \<Rightarrow> u8" where
  "os_to_upper c = (if sint c \<le> 122 \<and> sint c \<ge> 97 then c - (97 - 65) else c)"

definition os_to_wupper :: "u16 \<Rightarrow> u16" where
  "os_to_wupper c = (if c \<le> 122 \<and> c \<ge> 97 then c - (97 - 65) else c)"

text \<open>\<^verbatim>\<open>char\<close> is signed on the platforms of the code, so characters compare by
  \<open>sint\<close>.\<close>

fun os_collate_ansi_string :: "u8 list \<Rightarrow> u8 list \<Rightarrow> int" where
  "os_collate_ansi_string (x # xs) (y # ys) =
     (let c1 = sint (os_to_upper x); c2 = sint (os_to_upper y) in
      if c1 > c2 then 1 else if c1 < c2 then - 1 else os_collate_ansi_string xs ys)"
| "os_collate_ansi_string s1 s2 =
     (if length s1 > length s2 then 1 else if length s1 < length s2 then - 1 else 0)"

text \<open>
  The Unicode comparison takes the two character arrays and, separately, the number of
  characters to compare; it is \<^term>\<open>None\<close> when that runs past an array.
\<close>

fun os_collate_unicode_string :: "u16 list \<Rightarrow> nat \<Rightarrow> u16 list \<Rightarrow> nat \<Rightarrow> int option" where
  "os_collate_unicode_string s1 (Suc n1) s2 (Suc n2) =
     (case (s1, s2) of
        (x # xs, y # ys) \<Rightarrow>
          (let c1 = os_to_wupper x; c2 = os_to_wupper y in
           if c1 > c2 then Some 1 else if c1 < c2 then Some (- 1)
           else os_collate_unicode_string xs n1 ys n2)
      | _ \<Rightarrow> None)"
| "os_collate_unicode_string s1 n1 s2 n2 =
     Some (if n1 > n2 then 1 else if n1 < n2 then - 1 else 0)"

section \<open>Numbers and extents as byte strings\<close>

text \<open>
  \<open>os_bstr_to_u64\<close> stores the bytes one after the other into the eight bytes of a zeroed
  \<^verbatim>\<open>uint64_t\<close>; a ninth byte is stored outside it.
\<close>

fun bstr_copy :: "u8 list \<Rightarrow> nat \<Rightarrow> u8 list \<Rightarrow> u8 list option" where
  "bstr_copy uc i [] = Some uc"
| "bstr_copy uc i (b # bs) =
     (if i < length uc then bstr_copy (uc[i := b]) (Suc i) bs else None)"

definition os_bstr_to_u64 :: "u8 list \<Rightarrow> u64 option" where
  "os_bstr_to_u64 b = map_option u64_of_bytes (bstr_copy (replicate 8 0) 0 b)"

fun u64_size_loop :: "u8 list \<Rightarrow> nat \<Rightarrow> nat \<Rightarrow> nat" where
  "u64_size_loop uc 0 b_size = b_size"
| "u64_size_loop uc (Suc p) b_size =
     (if uc ! Suc p \<noteq> 0 then b_size else u64_size_loop uc p (b_size - 1))"

definition os_u64_size :: "u64 \<Rightarrow> nat" where
  "os_u64_size w =
     (let b_size = u64_size_loop (u64_bytes w) 7 8 in if b_size = 0 then 1 else b_size)"

definition os_u64_to_bstr :: "u64 \<Rightarrow> u8 list" where
  "os_u64_to_bstr w = take (os_u64_size w) (u64_bytes w)"

definition cmp_u64 :: "u64 \<Rightarrow> u64 \<Rightarrow> int" where
  "cmp_u64 a b = (if a > b then 1 else if a < b then - 1 else 0)"

definition os_collate_u64 :: "u8 list \<Rightarrow> u8 list \<Rightarrow> int option" where
  "os_collate_u64 b1 b2 =
     do { u1 \<leftarrow> os_bstr_to_u64 b1; u2 \<leftarrow> os_bstr_to_u64 b2; Some (cmp_u64 u1 u2) }"

record index_extent =
  ext_addr :: u64
  ext_len :: u64

definition os_extent_to_extent_pair2 :: "u64 \<Rightarrow> u64 \<Rightarrow> u8 list" where
  "os_extent_to_extent_pair2 addr len =
     (if len = 0 then []
      else let a = os_u64_to_bstr addr
           in word_of_nat (length a) # a @ os_u64_to_bstr len)"

definition os_extent_to_extent_pair :: "index_extent \<Rightarrow> u8 list" where
  "os_extent_to_extent_pair ext =
     (if ext_len ext = 0 then []
      else let a = os_u64_to_bstr (ext_addr ext)
           in word_of_nat (length a) # a @ os_u64_to_bstr (ext_len ext))"

text \<open>
  The result is the length and, unless the pair is rejected, the address; the code reads the
  first byte before it looks at the size.
\<close>

definition os_extent_pair_to_extent :: "u8 list \<Rightarrow> (u64 \<times> u64 option) option" where
  "os_extent_pair_to_extent pair =
     (case pair of [] \<Rightarrow> None
      | h # bs \<Rightarrow>
          let addr_size = unat h in
          if length pair \<le> addr_size + 1 then Some (0, None)
          else do { addr \<leftarrow> os_bstr_to_u64 (take addr_size bs);
                    len \<leftarrow> os_bstr_to_u64 (drop addr_size bs);
                    Some (len, Some addr) })"

definition os_collate_extent ::
  "u8 list \<Rightarrow> u8 list \<Rightarrow> u8 list \<Rightarrow> u8 list \<Rightarrow> int option" where
  "os_collate_extent k1 v1 k2 v2 =
     (if length v2 = 0 \<or> length v1 = 0 then os_collate_u64 k1 k2
      else do { addr1 \<leftarrow> os_bstr_to_u64 k1; addr2 \<leftarrow> os_bstr_to_u64 k2;
                len1 \<leftarrow> os_bstr_to_u64 v1; len2 \<leftarrow> os_bstr_to_u64 v2;
                if addr1 \<ge> addr2 + len2 then Some 1
                else if addr1 + len1 \<le> addr2 then Some (- 1)
                else Some 0 })"

section \<open>Dispatch on the collation rule\<close>

abbreviation (input) CR_BINARY :: nat where "CR_BINARY \<equiv> 0"
abbreviation (input) CR_ANSI_STRING :: nat where "CR_ANSI_STRING \<equiv> 1"
abbreviation (input) CR_UNICODE_STRING :: nat where "CR_UNICODE_STRING \<equiv> 2"
abbreviation (input) CR_U64 :: nat where "CR_U64 \<equiv> 3"
abbreviation (input) CR_EXTENT :: nat where "CR_EXTENT \<equiv> 4"

text \<open>The bytes of a key seen through a \<^verbatim>\<open>unicode_char_t *\<close>.\<close>

fun unicode_chars :: "u8 list \<Rightarrow> u16 list" where
  "unicode_chars (b0 # b1 # bs) = word_of_nat (le_nat [b0, b1]) # unicode_chars bs"
| "unicode_chars bs = []"

text \<open>
  \<open>collate_key\<close> passes the byte lengths of the two keys as the numbers of characters of
  the Unicode comparison, as the code does.
\<close>

definition collate_key :: "nat \<Rightarrow> index_entry \<Rightarrow> u8 list \<Rightarrow> u8 list \<Rightarrow> int option" where
  "collate_key cr ie key value =
     (if cr = CR_BINARY then Some (os_collate_binary (ie_key ie) key)
      else if cr = CR_ANSI_STRING then Some (os_collate_ansi_string (ie_key ie) key)
      else if cr = CR_UNICODE_STRING then
        os_collate_unicode_string (unicode_chars (ie_key ie)) (length (ie_key ie))
          (unicode_chars key) (length key)
      else if cr = CR_U64 then os_collate_u64 (ie_key ie) key
      else if cr = CR_EXTENT then os_collate_extent (ie_key ie) (ie_value ie) key value
      else Some (- INDEX_ERR_COLLATE))"

section \<open>Lemmas: byte strings of numbers\<close>


lemma bstr_copy_eq:
  "i + length bs \<le> length uc \<Longrightarrow>
   bstr_copy uc i bs = Some (take i uc @ bs @ drop (i + length bs) uc)"
proof (induction bs arbitrary: uc i)
  case (Cons b bs)
  then have "i < length uc" by simp
  then show ?case
    using Cons.IH [of "Suc i" "uc[i := b]"] Cons.prems
    by (simp add: take_Suc_conv_app_nth)
qed simp

lemma bstr_copy_None: "i \<le> length uc \<Longrightarrow> length uc < i + length bs \<Longrightarrow> bstr_copy uc i bs = None"
proof (induction bs arbitrary: uc i)
  case (Cons b bs)
  then show ?case by (cases "i < length uc") (simp_all add: Cons.IH)
qed simp

lemma os_bstr_to_u64_eq:
  "os_bstr_to_u64 b = (if length b \<le> 8 then Some (u64_of_bytes b) else None)"
proof (cases "length b \<le> 8")
  case True
  have "le_nat (b @ replicate (8 - length b) 0) = le_nat b"
    by (simp add: le_nat_append)
  then have "u64_of_bytes (b @ replicate (8 - length b) 0) = u64_of_bytes b"
    by (simp add: u64_of_bytes_def)
  with True show ?thesis
    by (simp add: os_bstr_to_u64_def bstr_copy_eq)
next
  case False
  then show ?thesis by (simp add: os_bstr_to_u64_def bstr_copy_None)
qed

lemma u64_byte_zero_iff:
  "i < 8 \<Longrightarrow> u64_bytes w ! i = 0 \<longleftrightarrow> unat w div 256 ^ i mod 256 = 0"
proof -
  assume "i < 8"
  then have "u64_bytes w ! i = word_of_nat (unat w div 256 ^ i mod 256)"
    by (simp add: u64_bytes_def nth_nat_le)
  then show ?thesis by (metis unat_u8_mod unsigned_0 unat_eq_zero)
qed

lemma u64_size_loop_spec:
  assumes "p \<le> 7" "unat w < 256 ^ Suc p"
  shows "1 \<le> u64_size_loop (u64_bytes w) p (Suc p) \<and>
         u64_size_loop (u64_bytes w) p (Suc p) \<le> Suc p \<and>
         unat w < 256 ^ u64_size_loop (u64_bytes w) p (Suc p) \<and>
         (1 < u64_size_loop (u64_bytes w) p (Suc p) \<longrightarrow>
            256 ^ (u64_size_loop (u64_bytes w) p (Suc p) - 1) \<le> unat w)"
  using assms
proof (induction p)
  case (Suc p)
  have lt: "unat w div 256 ^ Suc p < 256"
    using Suc.prems(2) by (simp add: less_mult_imp_div_less)
  show ?case
  proof (cases "u64_bytes w ! Suc p = 0")
    case True
    then have "unat w div 256 ^ Suc p = 0"
      using Suc.prems(1) lt by (simp add: u64_byte_zero_iff)
    then have "unat w < 256 ^ Suc p" by (simp add: div_eq_0_iff)
    with Suc True show ?thesis by simp
  next
    case False
    then have "unat w div 256 ^ Suc p \<noteq> 0"
      using Suc.prems(1) by (auto simp: u64_byte_zero_iff)
    then have "256 ^ Suc p \<le> unat w" by (simp add: div_eq_0_iff)
    with Suc.prems False show ?thesis by simp
  qed
qed simp

lemma os_u64_size_spec:
  "1 \<le> os_u64_size w" "os_u64_size w \<le> 8" "unat w < 256 ^ os_u64_size w"
  "1 < os_u64_size w \<Longrightarrow> 256 ^ (os_u64_size w - 1) \<le> unat w"
  using u64_size_loop_spec [of 7 w] unat_u64_lt [of w]
  by (auto simp: os_u64_size_def Let_def numeral_eq_Suc simp del: power_Suc)

lemma os_u64_to_bstr_nat_le: "os_u64_to_bstr w = nat_le (os_u64_size w) (unat w)"
  by (simp add: os_u64_to_bstr_def u64_bytes_def take_nat_le os_u64_size_spec(2))

lemma length_os_u64_to_bstr: "length (os_u64_to_bstr w) = os_u64_size w"
  by (simp add: os_u64_to_bstr_nat_le)

lemma u64_of_bytes_to_bstr [simp]: "u64_of_bytes (os_u64_to_bstr w) = w"
  by (simp add: u64_of_bytes_def os_u64_to_bstr_nat_le le_nat_nat_le os_u64_size_spec(3))

lemma roundtrip_u64: "os_bstr_to_u64 (os_u64_to_bstr w) = Some w"
  by (simp add: os_bstr_to_u64_eq length_os_u64_to_bstr os_u64_size_spec(2))

lemma os_collate_u64_eq:
  "length a \<le> 8 \<Longrightarrow> length b \<le> 8 \<Longrightarrow>
   os_collate_u64 a b = Some (cmp_u64 (u64_of_bytes a) (u64_of_bytes b))"
  by (simp add: os_collate_u64_def os_bstr_to_u64_eq)

lemma extent_pair2_roundtrip:
  assumes "len \<noteq> 0"
  shows "os_extent_pair_to_extent (os_extent_to_extent_pair2 addr len) = Some (len, Some addr)"
proof -
  let ?a = "os_u64_to_bstr addr" and ?l = "os_u64_to_bstr len"
  have la: "1 \<le> length ?a" "length ?a \<le> 8" "1 \<le> length ?l" "length ?l \<le> 8"
    using os_u64_size_spec by (simp_all add: length_os_u64_to_bstr)
  have u: "unat (word_of_nat (length ?a) :: u8) = length ?a"
    using la by (simp add: unat_of_nat)
  have "?l \<noteq> []" using la(3) by auto
  with assms la u show ?thesis
    by (simp add: os_extent_pair_to_extent_def os_extent_to_extent_pair2_def Let_def roundtrip_u64)
qed
section \<open>Lemmas: the binary rule reads big-endian numbers\<close>


fun be_nat :: "u8 list \<Rightarrow> nat" where
  "be_nat [] = 0"
| "be_nat (b # bs) = unat b * 256 ^ length bs + be_nat bs"

lemma be_nat_lt: "be_nat bs < 256 ^ length bs"
proof (induction bs)
  case (Cons b bs)
  have "unat b * 256 ^ length bs + be_nat bs < (unat b + 1) * 256 ^ length bs"
    using Cons.IH by simp
  also have "\<dots> \<le> 256 * 256 ^ length bs"
    using unat_u8_lt [of b] by (intro mult_le_mono1) simp
  finally show ?case by simp
qed simp

lemma be_nat_skip_zeros [simp]: "be_nat (skip_zeros bs) = be_nat bs"
  by (induction bs) simp_all

lemma skip_zeros_ge: "skip_zeros bs \<noteq> [] \<Longrightarrow> 256 ^ (length (skip_zeros bs) - 1) \<le> be_nat (skip_zeros bs)"
proof (induction bs)
  case (Cons b bs)
  show ?case
  proof (cases "b = 0")
    case True with Cons show ?thesis by simp
  next
    case False
    then have "1 \<le> unat b" by (simp add: Suc_le_eq unat_gt_0)
    then have "1 * 256 ^ length bs \<le> unat b * 256 ^ length bs" by (rule mult_le_mono1)
    then show ?thesis using False by (simp add: trans_le_add1)
  qed
qed simp

lemma shorter_be_nat:
  assumes "length (skip_zeros a) < length (skip_zeros b)"
  shows "be_nat a < be_nat b"
proof -
  have "be_nat a < 256 ^ length (skip_zeros a)"
    using be_nat_lt [of "skip_zeros a"] by simp
  also have "(256::nat) ^ length (skip_zeros a) \<le> 256 ^ (length (skip_zeros b) - 1)"
    using assms by (intro power_increasing) auto
  also have "\<dots> \<le> be_nat b"
    using skip_zeros_ge [of b] assms by (cases "skip_zeros b = []") simp_all
  finally show ?thesis .
qed

lemma be_nat_head_less:
  assumes "x < y" "length xs = length ys"
  shows "be_nat (x # xs) < be_nat (y # ys)"
proof -
  have "unat x + 1 \<le> unat y" using assms(1) by (simp add: word_less_nat_alt Suc_le_eq)
  then have "(unat x + 1) * 256 ^ length ys \<le> unat y * 256 ^ length ys" by (rule mult_le_mono1)
  with be_nat_lt [of xs] assms(2) show ?thesis by simp
qed

lemma cmp_bytes_be_nat:
  "length a = length b \<Longrightarrow> cmp_bytes a b = sgn (int (be_nat a) - int (be_nat b))"
proof (induction a b rule: cmp_bytes.induct)
  case (1 x xs y ys)
  then have l: "length xs = length ys" by simp
  consider "x < y" | "y < x" | "x = y" by (rule linorder_cases)
  then show ?case
  proof cases
    case 1
    with be_nat_head_less [OF 1 l] show ?thesis by (simp del: be_nat.simps)
  next
    case 2
    with be_nat_head_less [OF 2 l [symmetric]] show ?thesis by (simp del: be_nat.simps)
  next
    case 3
    with 1 l show ?thesis by simp
  qed
qed auto

lemma os_collate_binary_sgn:
  "os_collate_binary a b = sgn (int (be_nat a) - int (be_nat b))"
  using shorter_be_nat [of a b] shorter_be_nat [of b a] cmp_bytes_be_nat [of "skip_zeros a" "skip_zeros b"]
  by (auto simp: os_collate_binary_def Let_def)

section \<open>The contract of a collation rule\<close>

text \<open>
  What the search trees of this program (the B-tree of a table, the AVL trees of open objects
  and of cached blocks) need of a comparison: three values, antisymmetry, transitivity. A list
  of keys in strictly increasing order is then seen by every query as a run of smaller keys, at
  most one equal key, and a run of larger keys.
\<close>

locale key_collation =
  fixes cmp :: "'k \<Rightarrow> 'k \<Rightarrow> int"
  assumes cmp_range: "cmp a b \<in> {- 1, 0, 1}"
    and cmp_swap: "cmp b a = - cmp a b"
    and cmp_trans: "cmp a b \<le> 0 \<Longrightarrow> cmp b c \<le> 0 \<Longrightarrow> cmp a c \<le> 0"
begin

lemma cmp_refl: "cmp a a = 0"
  using cmp_swap [of a a] by simp

lemma cmp_le_less_trans: "cmp a b \<le> 0 \<Longrightarrow> cmp b c < 0 \<Longrightarrow> cmp a c < 0"
  using cmp_trans [of a b c] cmp_trans [of c a b] cmp_swap [of a c] cmp_swap [of b c]
  by (smt (verit) )

lemma cmp_less_le_trans: "cmp a b < 0 \<Longrightarrow> cmp b c \<le> 0 \<Longrightarrow> cmp a c < 0"
  using cmp_trans [of a b c] cmp_trans [of b c a] cmp_swap [of a c] cmp_swap [of a b]
  by (smt (verit) )

lemma cmp_mono: "cmp a b \<le> 0 \<Longrightarrow> cmp a q \<le> cmp b q"
  using cmp_range [of a q] cmp_range [of b q] cmp_trans [of a b q] cmp_le_less_trans [of a b q]
  by auto

lemma ordered_keys_monotone:
  "sorted_wrt (\<lambda>a b. cmp a b < 0) ks \<Longrightarrow> sorted (map (\<lambda>k. cmp k q) ks)"
  by (induction ks) (auto intro!: cmp_mono simp: order_less_imp_le)

lemma ordered_keys_unique:
  assumes "sorted_wrt (\<lambda>a b. cmp a b < 0) ks" "i < j" "j < length ks" "cmp (ks ! i) q = 0"
  shows "0 < cmp (ks ! j) q"
proof -
  have "cmp (ks ! i) (ks ! j) < 0" by (rule sorted_wrt_nth_less [OF assms(1-3)])
  then show ?thesis
    using cmp_less_le_trans [of "ks ! i" "ks ! j" q] assms(4) by fastforce
qed

end

lemma cmp_u64_sgn: "cmp_u64 a b = sgn (int (unat a) - int (unat b))"
  by (auto simp: cmp_u64_def word_less_def sgn_if)

interpretation vbn_order: key_collation cmp_u64
  by unfold_locales (auto simp: cmp_u64_sgn sgn_if split: if_splits)

interpretation binary_order: key_collation os_collate_binary
  by unfold_locales (auto simp: os_collate_binary_sgn sgn_if split: if_splits)

interpretation u64_order: key_collation "\<lambda>a b. cmp_u64 (u64_of_bytes a) (u64_of_bytes b)"
  by unfold_locales (auto simp: cmp_u64_sgn sgn_if split: if_splits)










lemma unat_add_no_wrap: "unat (a::u64) + unat b < 2 ^ 64 \<Longrightarrow> unat (a + b) = unat a + unat b"
  by (simp add: unat_word_ariths)

lemma os_collate_extent_eq:
  assumes "length k1 \<le> 8" "length k2 \<le> 8" "1 \<le> length v1" "length v1 \<le> 8" "1 \<le> length v2" "length v2 \<le> 8"
    and "le_nat k1 + le_nat v1 < 2 ^ 64" "le_nat k2 + le_nat v2 < 2 ^ 64"
  shows "os_collate_extent k1 v1 k2 v2 =
    Some (if le_nat k1 \<ge> le_nat k2 + le_nat v2 then 1
          else if le_nat k1 + le_nat v1 \<le> le_nat k2 then - 1 else 0)"
proof -
  have "length v1 \<noteq> 0" "length v2 \<noteq> 0" using assms by auto
  with assms show ?thesis
    by (simp add: os_collate_extent_def os_bstr_to_u64_eq word_le_nat_alt
        unat_add_no_wrap unat_u64_of_bytes)
qed

lemma os_collate_unicode_overread:
  assumes "map os_to_wupper s1 = map os_to_wupper s2" "length s1 < n1" "length s2 < n2"
  shows "os_collate_unicode_string s1 n1 s2 n2 = None"
  using assms
proof (induction s1 n1 s2 n2 rule: os_collate_unicode_string.induct)
  case (1 s1 n1 s2 n2)
  then show ?case by (cases s1; cases s2) (simp_all add: Let_def)
qed auto

lemma length_unicode_chars: "length (unicode_chars bs) = length bs div 2"
  by (induction bs rule: unicode_chars.induct) simp_all


section \<open>Properties\<close>


text \<open>C30. Writing a number as a byte string and reading it back is the identity; the string
  is never empty, never longer than a \<^verbatim>\<open>uint64_t\<close>, and has no byte to spare.\<close>

theorem u64_bstr_roundtrip:
  "os_bstr_to_u64 (os_u64_to_bstr w) = Some w \<and>
   length (os_u64_to_bstr w) = os_u64_size w \<and>
   1 \<le> os_u64_size w \<and> os_u64_size w \<le> 8 \<and> unat w < 256 ^ os_u64_size w \<and>
   (os_u64_size w = 1 \<or> 256 ^ (os_u64_size w - 1) \<le> unat w)"
proof -
  have "os_u64_size w = 1 \<or> 1 < os_u64_size w" using os_u64_size_spec(1) [of w] by linarith
  then show ?thesis
    using os_u64_size_spec [of w] by (auto simp: roundtrip_u64 length_os_u64_to_bstr)
qed

text \<open>C31. A non-empty extent survives the round trip through its packed pair, and the two
  encoders agree.\<close>

theorem extent_pair_roundtrip:
  assumes "ext_len ext \<noteq> 0"
  shows "os_extent_pair_to_extent (os_extent_to_extent_pair ext) = Some (ext_len ext, Some (ext_addr ext)) \<and>
    os_extent_to_extent_pair ext = os_extent_to_extent_pair2 (ext_addr ext) (ext_len ext) \<and>
    length (os_extent_to_extent_pair ext) \<le> 17"
proof -
  have eq: "os_extent_to_extent_pair ext = os_extent_to_extent_pair2 (ext_addr ext) (ext_len ext)"
    by (simp add: os_extent_to_extent_pair_def os_extent_to_extent_pair2_def)
  have "length (os_extent_to_extent_pair ext) \<le> 17"
    using os_u64_size_spec(2) [of "ext_addr ext"] os_u64_size_spec(2) [of "ext_len ext"]
    by (simp add: os_extent_to_extent_pair_def Let_def length_os_u64_to_bstr)
  with eq extent_pair2_roundtrip [OF assms] show ?thesis by simp
qed

lemma extent_pair_roundtrip_witness:
  "os_extent_pair_to_extent (os_extent_to_extent_pair \<lparr>ext_addr = 300, ext_len = 7\<rparr>) = Some (7, Some 300)"
  using extent_pair_roundtrip [of "\<lparr>ext_addr = 300, ext_len = 7\<rparr>", THEN conjunct1] by simp

text \<open>C32. Two extents that do not run past the end of the address space compare as
  intervals: equal exactly when they share an address, and otherwise by position.\<close>

theorem collate_extent_overlap:
  assumes "unat a1 + unat n1 < 2 ^ 64" "unat a2 + unat n2 < 2 ^ 64"
  shows "os_collate_extent (os_u64_to_bstr a1) (os_u64_to_bstr n1) (os_u64_to_bstr a2) (os_u64_to_bstr n2) =
    Some (if unat a2 + unat n2 \<le> unat a1 then 1
          else if unat a1 + unat n1 \<le> unat a2 then - 1 else 0)"
proof -
  have l: "1 \<le> length (os_u64_to_bstr w) \<and> length (os_u64_to_bstr w) \<le> 8" for w
    using os_u64_size_spec [of w] by (simp add: length_os_u64_to_bstr)
  have v: "le_nat (os_u64_to_bstr w) = unat w" for w
    by (simp add: os_u64_to_bstr_nat_le le_nat_nat_le os_u64_size_spec(3))
  show ?thesis
    using assms l by (subst os_collate_extent_eq) (simp_all add: v)
qed

lemma collate_extent_overlap_witness:
  "os_collate_extent (os_u64_to_bstr 100) (os_u64_to_bstr 50) (os_u64_to_bstr 120) (os_u64_to_bstr 60) = Some 0"
  using collate_extent_overlap [of 100 50 120 60] by simp


text \<open>C34. Under the Unicode rule, comparing a key with an equal key reads past the end of both:
  \<open>collate_key\<close> passes the number of bytes where the number of characters is meant.\<close>

theorem collate_unicode_overread:
  assumes "ie_key ie = key" "key \<noteq> []"
  shows "collate_key CR_UNICODE_STRING ie key value = None"
proof -
  have "length key div 2 < length key" using assms(2) by (cases key) auto
  then show ?thesis
    using assms(1) by (simp add: collate_key_def os_collate_unicode_overread length_unicode_chars)
qed

lemma collate_unicode_overread_witness:
  "collate_key CR_UNICODE_STRING
     \<lparr>ie_len = 11, ie_prev_len = 9, ie_flags = 0, ie_key = [65, 0], ie_value = [], ie_vbn = 0\<rparr> [65, 0] [] = None"
  by (rule collate_unicode_overread) simp_all

end
