(* ===== verification/Os_Ring_Buffer.thy ===== *)
theory Os_Ring_Buffer imports Ofs_Prelude
begin

text \<open>
  The ring buffer of \<^verbatim>\<open>public/os_ring_buffer.h\<close>: a fixed array of
  \<^verbatim>\<open>uint64_t\<close>, the positions of the oldest member and of the next free place,
  and the number of members. The abstraction reads the members in order from the array; the
  contract is that of a bounded first-in first-out queue.
\<close>

section \<open>The code\<close>

abbreviation (input) ERR_QUEUE_FULL :: int where "ERR_QUEUE_FULL \<equiv> 102"
abbreviation (input) ERR_QUEUE_EMPTY :: int where "ERR_QUEUE_EMPTY \<equiv> 103"

record ring_buffer =
  rb_member :: "u64 list"
  rb_head :: nat
  rb_tail :: nat
  rb_num :: nat
  rb_max_num :: nat

text \<open>
  \<open>malloc\<close> says which requests the allocator grants, \<open>mem\<close> what the fresh array
  holds; \<^term>\<open>None\<close> is the null pointer.
\<close>

definition ring_buffer_create :: "(nat \<Rightarrow> bool) \<Rightarrow> (nat \<Rightarrow> u64) \<Rightarrow> int \<Rightarrow> ring_buffer option" where
  "ring_buffer_create malloc mem max_num =
     (if max_num \<le> 0 then None
      else if \<not> malloc 24 then None
      else if \<not> malloc (8 * nat max_num) then None
      else Some \<lparr>rb_member = map mem [0..<nat max_num], rb_head = 0, rb_tail = 0, rb_num = 0,
                 rb_max_num = nat max_num\<rparr>)"

definition ring_buffer_push :: "ring_buffer \<Rightarrow> u64 \<Rightarrow> (int \<times> ring_buffer) option" where
  "ring_buffer_push q member =
     (if rb_num q \<ge> rb_max_num q then Some (- ERR_QUEUE_FULL, q)
      else if rb_tail q \<ge> length (rb_member q) then None
      else
        let q = q\<lparr>rb_member := (rb_member q)[rb_tail q := member]\<rparr>;
            q = q\<lparr>rb_tail := rb_tail q + 1\<rparr>;
            q = (if rb_tail q \<ge> rb_max_num q then q\<lparr>rb_tail := 0\<rparr> else q)
        in Some (0, q\<lparr>rb_num := rb_num q + 1\<rparr>))"

definition ring_buffer_pop :: "ring_buffer \<Rightarrow> (int \<times> u64 option \<times> ring_buffer) option" where
  "ring_buffer_pop q =
     (if rb_num q = 0 then Some (- ERR_QUEUE_EMPTY, None, q)
      else if rb_head q \<ge> length (rb_member q) then None
      else
        let member = rb_member q ! rb_head q;
            q = q\<lparr>rb_head := rb_head q + 1\<rparr>;
            q = (if rb_head q \<ge> rb_max_num q then q\<lparr>rb_head := 0\<rparr> else q)
        in Some (0, Some member, q\<lparr>rb_num := rb_num q - 1\<rparr>))"

text \<open>The callback takes and returns the state behind its \<^verbatim>\<open>para\<close> pointer.\<close>

fun ring_buffer_walk_loop ::
  "ring_buffer \<Rightarrow> (u64 \<Rightarrow> 's \<Rightarrow> int \<times> 's) \<Rightarrow> nat \<Rightarrow> nat \<Rightarrow> int \<Rightarrow> 's \<Rightarrow> (int \<times> 's) option" where
  "ring_buffer_walk_loop q func head 0 ret s = Some (ret, s)"
| "ring_buffer_walk_loop q func head (Suc num) ret s =
     (if head \<ge> length (rb_member q) then None
      else case func (rb_member q ! head) s of
        (ret, s) \<Rightarrow>
          if ret \<noteq> 0 then Some (ret, s)
          else ring_buffer_walk_loop q func
                 (if head + 1 \<ge> rb_max_num q then 0 else head + 1) num ret s)"

definition ring_buffer_walk_all ::
  "ring_buffer \<Rightarrow> (u64 \<Rightarrow> 's \<Rightarrow> int \<times> 's) \<Rightarrow> 's \<Rightarrow> (int \<times> 's) option" where
  "ring_buffer_walk_all q func s =
     (if rb_num q = 0 then Some (- ERR_QUEUE_EMPTY, s)
      else ring_buffer_walk_loop q func (rb_head q) (rb_num q) 0 s)"

definition ring_buffer_get_size :: "ring_buffer \<Rightarrow> int" where
  "ring_buffer_get_size q = int (rb_num q)"

definition ring_buffer_get_max_size :: "ring_buffer \<Rightarrow> int" where
  "ring_buffer_get_max_size q = int (rb_max_num q)"

definition ring_buffer_reset :: "ring_buffer \<Rightarrow> ring_buffer" where
  "ring_buffer_reset q = q\<lparr>rb_head := 0, rb_tail := 0, rb_num := 0\<rparr>"

section \<open>Invariant and abstraction\<close>

definition rb_inv :: "ring_buffer \<Rightarrow> bool" where
  "rb_inv q \<longleftrightarrow> 0 < rb_max_num q \<and> length (rb_member q) = rb_max_num q \<and>
     rb_head q < rb_max_num q \<and> rb_num q \<le> rb_max_num q \<and>
     rb_tail q = (rb_head q + rb_num q) mod rb_max_num q"

definition rb_list :: "ring_buffer \<Rightarrow> u64 list" where
  "rb_list q = map (\<lambda>i. rb_member q ! ((rb_head q + i) mod rb_max_num q)) [0..<rb_num q]"

text \<open>The contract of a bounded queue, and what follows from it for any sequence of pushes
  and pops.\<close>

fun push_all :: "('q \<Rightarrow> 'a \<Rightarrow> (int \<times> 'q) option) \<Rightarrow> 'q \<Rightarrow> 'a list \<Rightarrow> 'q option" where
  "push_all push q [] = Some q"
| "push_all push q (x # xs) =
     (case push q x of Some (ret, q') \<Rightarrow> if ret = 0 then push_all push q' xs else None | None \<Rightarrow> None)"

fun pop_all :: "('q \<Rightarrow> (int \<times> 'a option \<times> 'q) option) \<Rightarrow> 'q \<Rightarrow> nat \<Rightarrow> ('a list \<times> 'q) option" where
  "pop_all pop q 0 = Some ([], q)"
| "pop_all pop q (Suc n) =
     (case pop q of
        Some (ret, Some x, q') \<Rightarrow>
          if ret = 0 then map_option (\<lambda>(xs, q''). (x # xs, q'')) (pop_all pop q' n) else None
      | _ \<Rightarrow> None)"

text \<open>A history of calls and what they return, on an implementation and on a list.\<close>

datatype 'a queue_call = Push 'a | Pop

fun run_queue :: "('q \<Rightarrow> 'a \<Rightarrow> (int \<times> 'q) option) \<Rightarrow> ('q \<Rightarrow> (int \<times> 'a option \<times> 'q) option) \<Rightarrow>
    'q \<Rightarrow> 'a queue_call list \<Rightarrow> (int \<times> 'a option) list option" where
  "run_queue push pop q [] = Some []"
| "run_queue push pop q (Push x # cs) =
     (case push q x of None \<Rightarrow> None
      | Some (ret, q) \<Rightarrow> map_option ((#) (ret, None)) (run_queue push pop q cs))"
| "run_queue push pop q (Pop # cs) =
     (case pop q of None \<Rightarrow> None
      | Some (ret, y, q) \<Rightarrow> map_option ((#) (ret, y)) (run_queue push pop q cs))"

fun run_list :: "nat \<Rightarrow> 'a list \<Rightarrow> 'a queue_call list \<Rightarrow> (int \<times> 'a option) list" where
  "run_list n xs [] = []"
| "run_list n xs (Push x # cs) =
     (if length xs < n then (0, None) # run_list n (xs @ [x]) cs
      else (- ERR_QUEUE_FULL, None) # run_list n xs cs)"
| "run_list n [] (Pop # cs) = (- ERR_QUEUE_EMPTY, None) # run_list n [] cs"
| "run_list n (x # xs) (Pop # cs) = (0, Some x) # run_list n xs cs"

locale bounded_queue =
  fixes push :: "'q \<Rightarrow> 'a \<Rightarrow> (int \<times> 'q) option"
    and pop :: "'q \<Rightarrow> (int \<times> 'a option \<times> 'q) option"
    and items :: "'q \<Rightarrow> 'a list"
    and cap :: "'q \<Rightarrow> nat"
    and inv :: "'q \<Rightarrow> bool"
  assumes push_ok: "inv q \<Longrightarrow> length (items q) < cap q \<Longrightarrow>
      \<exists>q'. push q x = Some (0, q') \<and> inv q' \<and> items q' = items q @ [x] \<and> cap q' = cap q"
    and pop_ok: "inv q \<Longrightarrow> items q = x # xs \<Longrightarrow>
      \<exists>q'. pop q = Some (0, Some x, q') \<and> inv q' \<and> items q' = xs \<and> cap q' = cap q"
    and push_full: "inv q \<Longrightarrow> \<not> length (items q) < cap q \<Longrightarrow> push q x = Some (- ERR_QUEUE_FULL, q)"
    and pop_empty: "inv q \<Longrightarrow> items q = [] \<Longrightarrow> pop q = Some (- ERR_QUEUE_EMPTY, None, q)"
begin

lemma run_refines: "inv q \<Longrightarrow> run_queue push pop q cs = Some (run_list (cap q) (items q) cs)"
proof (induction cs arbitrary: q)
  case (Cons c cs)
  show ?case
  proof (cases c)
    case (Push x)
    then show ?thesis
      using Cons push_full [of q x] push_ok [of q x] by (cases "length (items q) < cap q") auto
  next
    case Pop
    show ?thesis
    proof (cases "items q")
      case Nil
      with Pop Cons pop_empty [of q] show ?thesis by simp
    next
      case (Cons y ys)
      from pop_ok [OF \<open>inv q\<close> Cons] obtain q' where
        "pop q = Some (0, Some y, q')" "inv q'" "items q' = ys" "cap q' = cap q" by blast
      with Pop Cons Cons.IH [of q'] show ?thesis by simp
    qed
  qed
qed simp

lemma push_all_items:
  "inv q \<Longrightarrow> length (items q) + length xs \<le> cap q \<Longrightarrow>
   \<exists>q'. push_all push q xs = Some q' \<and> inv q' \<and> items q' = items q @ xs \<and> cap q' = cap q"
proof (induction xs arbitrary: q)
  case (Cons x xs)
  then obtain q1 where "push q x = Some (0, q1)" "inv q1" "items q1 = items q @ [x]" "cap q1 = cap q"
    using push_ok [of q x] by auto
  with Cons.IH [of q1] Cons.prems show ?case by auto
qed simp

lemma pop_all_items:
  "inv q \<Longrightarrow> items q = xs @ ys \<Longrightarrow>
   \<exists>q'. pop_all pop q (length xs) = Some (xs, q') \<and> inv q' \<and> items q' = ys \<and> cap q' = cap q"
proof (induction xs arbitrary: q)
  case (Cons x xs)
  then obtain q1 where "pop q = Some (0, Some x, q1)" "inv q1" "items q1 = xs @ ys" "cap q1 = cap q"
    using pop_ok [of q x "xs @ ys"] by auto
  with Cons.IH [of q1] show ?case by auto
qed simp

lemma fifo:
  assumes "inv q" "length (items q) + length xs \<le> cap q"
  shows "\<exists>q1 q2. push_all push q xs = Some q1 \<and>
     pop_all pop q1 (length (items q) + length xs) = Some (items q @ xs, q2) \<and> items q2 = [] \<and> inv q2"
proof -
  from push_all_items [OF assms] obtain q1
    where q1: "push_all push q xs = Some q1" "inv q1" "items q1 = items q @ xs" by blast
  from pop_all_items [of q1 "items q @ xs" "[]"] q1 show ?thesis by auto
qed

end

section \<open>The ring buffer meets the contract\<close>

lemma mod_cancel_less:
  fixes h i j m :: nat
  assumes "(h + i) mod m = (h + j) mod m" "i < m" "j < m"
  shows "i = j"
proof -
  from assms(1) have "int (h + i) mod int m = int (h + j) mod int m" by (metis zmod_int)
  then have "int m dvd int i - int j" by (simp add: mod_eq_dvd_iff)
  then show ?thesis
    using dvd_imp_le_int [of "int i - int j" "int m"] assms(2,3) by fastforce
qed

lemma wrap_mod:
  fixes p m :: nat
  assumes "p < m"
  obtains "p + 1 \<ge> m" "(p + 1) mod m = 0" | "\<not> p + 1 \<ge> m" "(p + 1) mod m = p + 1"
  using assms by (cases "p + 1 = m") auto

lemma length_rb_list [simp]: "length (rb_list q) = rb_num q"
  by (simp add: rb_list_def)

lemma push_refines:
  assumes "rb_inv q" "rb_num q < rb_max_num q"
  shows "\<exists>q'. ring_buffer_push q x = Some (0, q') \<and> rb_inv q' \<and>
     rb_list q' = rb_list q @ [x] \<and> rb_max_num q' = rb_max_num q"
proof -
  let ?m = "rb_max_num q" and ?t = "rb_tail q"
  have t: "?t < ?m" "?t = (rb_head q + rb_num q) mod ?m" "length (rb_member q) = ?m"
    using assms by (simp_all add: rb_inv_def)
  define q' where "q' = q\<lparr>rb_member := (rb_member q)[?t := x],
     rb_tail := (?t + 1) mod ?m, rb_num := rb_num q + 1\<rparr>"
  have "ring_buffer_push q x = Some (0, q')"
    using assms(2) t(1,3) by (cases rule: wrap_mod [OF t(1)]) (simp_all add: ring_buffer_push_def Let_def q'_def)
  moreover have "rb_inv q'"
    using assms by (simp add: rb_inv_def q'_def mod_simps)
  moreover have ne: "(rb_head q + i) mod ?m \<noteq> ?t" if "i < rb_num q" for i
    using mod_cancel_less [of "rb_head q" i ?m "rb_num q"] that assms t(2) by auto
  have "(rb_member q)[?t := x] ! ((rb_head q + i) mod ?m) = rb_member q ! ((rb_head q + i) mod ?m)"
    if "i < rb_num q" for i
    by (rule nth_list_update_neq) (use ne [OF that] in simp)
  then have "rb_list q' = rb_list q @ [x]"
    using t by (simp add: rb_list_def q'_def)
  ultimately show ?thesis by (auto simp: q'_def)
qed

lemma pop_refines:
  assumes "rb_inv q" "rb_list q = x # xs"
  shows "\<exists>q'. ring_buffer_pop q = Some (0, Some x, q') \<and> rb_inv q' \<and>
     rb_list q' = xs \<and> rb_max_num q' = rb_max_num q"
proof -
  let ?m = "rb_max_num q" and ?h = "rb_head q"
  from assms(2) have n: "rb_num q = Suc (length xs)" by (metis length_Cons length_rb_list)
  have h: "?h < ?m" "length (rb_member q) = ?m" using assms by (simp_all add: rb_inv_def)
  have l: "rb_list q = rb_member q ! ?h # map (\<lambda>i. rb_member q ! ((?h + Suc i) mod ?m)) [0..<length xs]"
    using n h by (simp add: rb_list_def upt_conv_Cons map_Suc_upt [symmetric] del: upt_Suc map_Suc_upt)
  define q' where "q' = q\<lparr>rb_head := (?h + 1) mod ?m, rb_num := rb_num q - 1\<rparr>"
  have "ring_buffer_pop q = Some (0, Some x, q')"
    using assms(2) l n h by (cases rule: wrap_mod [OF h(1)]) (simp_all add: ring_buffer_pop_def Let_def q'_def)
  moreover have "rb_inv q'"
    using assms n by (simp add: rb_inv_def q'_def mod_simps)
  moreover have "rb_list q' = xs"
    using assms l n by (simp add: rb_list_def q'_def mod_simps)
  ultimately show ?thesis by (auto simp: q'_def)
qed

interpretation ring_queue: bounded_queue ring_buffer_push ring_buffer_pop rb_list rb_max_num rb_inv
proof unfold_locales
  fix q x assume "rb_inv q" "\<not> length (rb_list q) < rb_max_num q"
  then show "ring_buffer_push q x = Some (- ERR_QUEUE_FULL, q)" by (simp add: ring_buffer_push_def)
next
  fix q assume "rb_inv q" "rb_list q = []"
  then have "rb_num q = 0" by (metis length_rb_list list.size(3))
  then show "ring_buffer_pop q = Some (- ERR_QUEUE_EMPTY, None, q)" by (simp add: ring_buffer_pop_def)
qed (auto dest: push_refines pop_refines)

lemma create_refines:
  assumes "ring_buffer_create malloc mem n = Some q"
  shows "rb_inv q \<and> rb_list q = [] \<and> rb_max_num q = nat n"
  using assms by (auto simp: ring_buffer_create_def rb_inv_def rb_list_def split: if_splits)

text \<open>Walking the members with a callback.\<close>

lemma walk_loop_list:
  assumes "h < rb_max_num q" "length (rb_member q) = rb_max_num q"
  shows "ring_buffer_walk_loop q f h n r s =
    Some (walk_list f r (map (\<lambda>i. rb_member q ! ((h + i) mod rb_max_num q)) [0..<n]) s)"
  using assms(1)
proof (induction n arbitrary: h r s)
  case (Suc n)
  let ?m = "rb_max_num q"
  have e: "map (\<lambda>i. rb_member q ! ((h + i) mod ?m)) [0..<Suc n] =
      rb_member q ! h # map (\<lambda>i. rb_member q ! ((Suc h mod ?m + i) mod ?m)) [0..<n]"
    using Suc.prems by (simp add: upt_conv_Cons map_Suc_upt [symmetric] mod_simps del: upt_Suc map_Suc_upt)
  have w: "(if h + 1 \<ge> ?m then 0 else h + 1) = Suc h mod ?m"
    using Suc.prems by (cases rule: wrap_mod [OF Suc.prems]) simp_all
  have "Suc h mod ?m < ?m" using Suc.prems by simp
  from Suc.IH [OF this] show ?case unfolding e
    using w Suc.prems assms(2) by (auto split: prod.splits)
qed simp

section \<open>Properties\<close>

text \<open>C25. Whatever the history of pushes and pops on a created ring buffer, wrap-around
  included, every call returns what a list of at most \<^verbatim>\<open>max_num\<close> members would: the
  oldest member, or the error for a full or an empty queue; no call leaves the array.\<close>

theorem ring_buffer_history:
  assumes "ring_buffer_create malloc mem n = Some q"
  shows "run_queue ring_buffer_push ring_buffer_pop q cs = Some (run_list (nat n) [] cs)"
  using ring_queue.run_refines [of q cs] create_refines [OF assms] by simp

lemma ring_buffer_history_witness:
  "run_queue ring_buffer_push ring_buffer_pop
     \<lparr>rb_member = [0, 0], rb_head = 0, rb_tail = 0, rb_num = 0, rb_max_num = 2\<rparr>
     [Push 5, Push 6, Push 7, Pop, Push 8, Pop, Pop, Pop] =
   Some [(0, None), (0, None), (-102, None), (0, Some 5), (0, None), (0, Some 6), (0, Some 8), (-103, None)]"
  by (subst ring_buffer_history [where malloc = "\<lambda>_. True" and mem = "\<lambda>_. 0" and n = 2])
    (simp_all add: ring_buffer_create_def numeral_2_eq_2)

text \<open>\<^verbatim>\<open>ring_buffer_walk_all\<close> calls the function on the members from the oldest to the
  newest, wherever they lie in the array, and stops at the first error, which it returns.\<close>

theorem ring_buffer_walk:
  assumes "rb_inv q"
  shows "ring_buffer_walk_all q f s =
    Some (if rb_list q = [] then (- ERR_QUEUE_EMPTY, s) else walk_list f 0 (rb_list q) s)"
proof (cases "rb_num q = 0")
  case True
  then show ?thesis by (simp add: ring_buffer_walk_all_def rb_list_def)
next
  case False
  then have "rb_list q \<noteq> []" by (metis length_rb_list list.size(3))
  with False walk_loop_list [of "rb_head q" q f "rb_num q" 0 s] assms show ?thesis
    by (simp add: ring_buffer_walk_all_def rb_inv_def rb_list_def)
qed

lemma ring_buffer_walk_witness:
  "ring_buffer_walk_all \<lparr>rb_member = [1, 2, 3], rb_head = 2, rb_tail = 1, rb_num = 2, rb_max_num = 3\<rparr>
     (\<lambda>x s. (0, s @ [x])) [] = Some (0, [3, 1])"
  by (subst ring_buffer_walk) (simp_all add: rb_inv_def rb_list_def upt_rec)

end
