(* ===== verification/Os_Dlist.thy ===== *)
theory Os_Dlist imports Ofs_Prelude
begin

text \<open>
  The circular doubly linked list of \<^verbatim>\<open>public/os_dlist.h\<close>, at the level of
  its pointers. The store gives each address its \<^verbatim>\<open>next\<close> and
  \<^verbatim>\<open>prev\<close> field, and each \<^verbatim>\<open>dlist_head_t\<close> its
  counter; the head and its embedded \<^verbatim>\<open>dlist_entry_t\<close> have the same
  address. The relation \<open>dlist st h xs\<close> says that the store holds the list
  \<open>xs\<close> under the head \<open>h\<close>; every operation is refined to one on \<open>xs\<close>.
\<close>

section \<open>The code\<close>

type_synonym dptr = nat

record dstore =
  dl_next :: "dptr \<Rightarrow> dptr"
  dl_prev :: "dptr \<Rightarrow> dptr"
  dl_num :: "dptr \<Rightarrow> u32"

definition dlist_init_entry :: "dptr \<Rightarrow> dstore \<Rightarrow> dstore" where
  "dlist_init_entry entry st =
     (let st = st\<lparr>dl_next := (dl_next st)(entry := entry)\<rparr>
      in st\<lparr>dl_prev := (dl_prev st)(entry := entry)\<rparr>)"

definition dlist_init_head :: "dptr \<Rightarrow> dstore \<Rightarrow> dstore" where
  "dlist_init_head head st =
     (let st = st\<lparr>dl_num := (dl_num st)(head := 0)\<rparr>
      in dlist_init_entry head st)"

definition add_entry :: "dptr \<Rightarrow> dptr \<Rightarrow> dptr \<Rightarrow> dstore \<Rightarrow> dstore" where
  "add_entry entry prev next st =
     (let st = st\<lparr>dl_prev := (dl_prev st)(next := entry)\<rparr>;
          st = st\<lparr>dl_next := (dl_next st)(entry := next)\<rparr>;
          st = st\<lparr>dl_prev := (dl_prev st)(entry := prev)\<rparr>
      in st\<lparr>dl_next := (dl_next st)(prev := entry)\<rparr>)"

definition remove_entry :: "dptr \<Rightarrow> dptr \<Rightarrow> dptr \<Rightarrow> dstore \<Rightarrow> dstore" where
  "remove_entry entry prev next st =
     (let st = st\<lparr>dl_prev := (dl_prev st)(next := prev)\<rparr>;
          st = st\<lparr>dl_next := (dl_next st)(prev := next)\<rparr>
      in dlist_init_entry entry st)"


definition dlist_add_tail :: "dptr \<Rightarrow> dptr \<Rightarrow> dstore \<Rightarrow> dstore" where
  "dlist_add_tail head entry st =
     (let st = add_entry entry (dl_prev st head) head st
      in st\<lparr>dl_num := (dl_num st)(head := dl_num st head + 1)\<rparr>)"

definition dlist_remove_entry :: "dptr \<Rightarrow> dptr \<Rightarrow> dstore \<Rightarrow> dstore" where
  "dlist_remove_entry head entry st =
     (if dl_prev st entry \<noteq> entry then
        let st = remove_entry entry (dl_prev st entry) (dl_next st entry) st
        in st\<lparr>dl_num := (dl_num st)(head := dl_num st head - 1)\<rparr>
      else st)"

text \<open>The loops end only when the links lead back to the head.\<close>

partial_function (option) get_entry_loop ::
  "dstore \<Rightarrow> dptr \<Rightarrow> u32 \<Rightarrow> u32 \<Rightarrow> dptr \<Rightarrow> dptr option option" where
  [code]: "get_entry_loop st head position cnt next =
     (if next = head then Some None
      else if position = cnt then Some (Some next)
      else get_entry_loop st head position (cnt + 1) (dl_next st next))"

definition dlist_get_entry :: "dptr \<Rightarrow> u32 \<Rightarrow> dstore \<Rightarrow> dptr option option" where
  "dlist_get_entry head position st = get_entry_loop st head position 0 (dl_next st head)"

definition dlist_remove_target_entry :: "dptr \<Rightarrow> u32 \<Rightarrow> dstore \<Rightarrow> (int \<times> dstore) option" where
  "dlist_remove_target_entry head position st =
     (case dlist_get_entry head position st of
        None \<Rightarrow> None
      | Some None \<Rightarrow> Some (-1, st)
      | Some (Some entry) \<Rightarrow> Some (0, dlist_remove_entry head entry st))"

text \<open>
  The callback gets the entry and may change the store and the state behind its
  \<^verbatim>\<open>para\<close> pointer.
\<close>

partial_function (option) walk_all_loop ::
  "dptr \<Rightarrow> (dptr \<Rightarrow> dstore \<times> 's \<Rightarrow> int \<times> dstore \<times> 's) \<Rightarrow> dptr \<Rightarrow> dptr \<Rightarrow> dstore \<times> 's
     \<Rightarrow> (int \<times> dstore \<times> 's) option" where
  [code]: "walk_all_loop head cb next next_next s =
     (if next = head then Some (0, s)
      else
        let (ret, s') = cb next s
        in if ret \<noteq> 0 then Some (ret, s')
           else walk_all_loop head cb next_next (dl_next (fst s') next_next) s')"

definition dlist_walk_all ::
  "dptr \<Rightarrow> (dptr \<Rightarrow> dstore \<times> 's \<Rightarrow> int \<times> dstore \<times> 's) \<Rightarrow> dstore \<times> 's
     \<Rightarrow> (int \<times> dstore \<times> 's) option" where
  "dlist_walk_all head cb s =
     (let next = dl_next (fst s) head;
          next_next = dl_next (fst s) next
      in walk_all_loop head cb next next_next s)"

definition dlist_count :: "dptr \<Rightarrow> dstore \<Rightarrow> int" where
  "dlist_count head st = sint (dl_num st head)"

definition dlist_is_empty :: "dptr \<Rightarrow> dstore \<Rightarrow> bool" where
  "dlist_is_empty head st \<longleftrightarrow> dl_next st head = head"

section \<open>Representation\<close>

fun linked :: "dstore \<Rightarrow> dptr list \<Rightarrow> bool" where
  "linked st (x # y # zs) \<longleftrightarrow> dl_next st x = y \<and> dl_prev st y = x \<and> linked st (y # zs)"
| "linked st _ \<longleftrightarrow> True"

definition dlist :: "dstore \<Rightarrow> dptr \<Rightarrow> dptr list \<Rightarrow> bool" where
  "dlist st h xs \<longleftrightarrow> linked st (h # xs @ [h]) \<and> distinct (h # xs) \<and>
     dl_num st h = word_of_nat (length xs)"

lemma linked_append: "linked st (xs @ y # zs) \<longleftrightarrow> linked st (xs @ [y]) \<and> linked st (y # zs)"
  by (induction st xs rule: linked.induct) auto

lemma linked_snoc: "linked st (x # xs @ [y]) \<longleftrightarrow>
    linked st (x # xs) \<and> dl_next st (last (x # xs)) = y \<and> dl_prev st y = last (x # xs)"
  by (induction xs arbitrary: x) auto

lemma linked_cong:
  assumes "\<And>x. x \<in> set (butlast ps) \<Longrightarrow> dl_next st' x = dl_next st x"
    and "\<And>x. x \<in> set (tl ps) \<Longrightarrow> dl_prev st' x = dl_prev st x"
  shows "linked st' ps \<longleftrightarrow> linked st ps"
  using assms by (induction st ps rule: linked.induct) (auto split: if_splits)

text \<open>A list with the entry \<open>e\<close> in front of \<open>ys\<close>, seen from both sides.\<close>

lemma dlist_split:
  "dlist st h (xs @ e # ys) \<longleftrightarrow>
     linked st (h # xs @ [e]) \<and> linked st (e # ys @ [h]) \<and> distinct (h # xs @ e # ys) \<and>
     dl_num st h = word_of_nat (length xs + length ys + 1)"
  using linked_append [of st "h # xs" e "ys @ [h]"] by (auto simp: dlist_def)

lemma linked_next: "linked st (e # ys @ [h]) \<Longrightarrow> dl_next st e = hd (ys @ [h])"
  by (cases ys) auto

lemma linked_prev: "linked st (h # xs @ [e]) \<Longrightarrow> dl_prev st e = last (h # xs)"
  by (simp add: linked_snoc del: last.simps)

section \<open>The operations on the representation\<close>

lemma dlist_init_head: "dlist (dlist_init_head h st) h []"
  by (simp add: dlist_def dlist_init_head_def dlist_init_entry_def)

lemma dlist_is_empty: "dlist st h xs \<Longrightarrow> dlist_is_empty h st \<longleftrightarrow> xs = []"
  by (cases xs) (auto simp: dlist_def dlist_is_empty_def)

text \<open>
  Linking an entry between \<open>p\<close> and \<open>n\<close>, and taking it out. In the circular list the
  head stands at both ends of the path, so \<open>n\<close> may be its first and \<open>p\<close> its last node.
\<close>

lemma linked_at: "linked st (as @ p # n # bs) \<longleftrightarrow>
    linked st (as @ [p]) \<and> dl_next st p = n \<and> dl_prev st n = p \<and> linked st (n # bs)"
  using linked_append [of st as p "n # bs"] by simp

lemma linked_ends:
  assumes "dl_next st' = (dl_next st)(p := x, e := y)" "dl_prev st' = (dl_prev st)(n := z, e := w)"
    and "distinct (as @ [p])" "distinct (n # bs)" "n \<notin> set (tl (as @ [p]))"
      "p \<notin> set (butlast (n # bs))" "e \<notin> set (as @ bs)" "e \<noteq> p" "e \<noteq> n"
  shows "linked st' (as @ [p]) = linked st (as @ [p]) \<and> linked st' (n # bs) = linked st (n # bs)"
proof
  have "set (tl (as @ [p])) \<subseteq> set (as @ [p])" by (cases as) auto
  then show "linked st' (as @ [p]) = linked st (as @ [p])"
    using assms by (intro linked_cong) auto
  have "set (butlast (n # bs)) \<subseteq> set (n # bs)" by (auto dest: in_set_butlastD)
  then show "linked st' (n # bs) = linked st (n # bs)"
    using assms by (intro linked_cong) auto
qed

lemma circle_ends:
  assumes "distinct (h # xs @ ys)" "h # xs = as @ [p]" "ys @ [h] = n # bs"
  shows "distinct (as @ [p])" "distinct (n # bs)" "n \<notin> set (tl (as @ [p]))"
    "p \<notin> set (butlast (n # bs))" "set (as @ p # n # bs) = set (h # xs @ ys)"
proof -
  have d: "distinct (h # xs)" "distinct (ys @ [h])" "set xs \<inter> set ys = {}"
    using assms(1) by auto
  then show "distinct (as @ [p])" "distinct (n # bs)" by (simp_all add: assms(2,3))
  have "tl (as @ [p]) = xs" by (simp add: assms(2) [symmetric])
  moreover have "n \<in> set (ys @ [h])" by (simp add: assms(3))
  ultimately show "n \<notin> set (tl (as @ [p]))" using d by auto
  have "butlast (n # bs) = ys" by (simp add: assms(3) [symmetric])
  moreover have "p \<in> set (h # xs)" by (simp add: assms(2))
  ultimately show "p \<notin> set (butlast (n # bs))" using d assms(1) by auto
  have "set (as @ p # n # bs) = set (as @ [p]) \<union> set (n # bs)" by auto
  then show "set (as @ p # n # bs) = set (h # xs @ ys)" by (auto simp: assms(2,3) [symmetric])
qed

lemma add_entry_dlist:
  assumes "linked st (h # xs @ ys @ [h])" "distinct (h # xs @ ys)" "e \<notin> set (h # xs @ ys)"
    and "p = last (h # xs)" "n = hd (ys @ [h])"
  shows "linked (add_entry e p n st) (h # xs @ e # ys @ [h])"
proof -
  obtain as where a: "h # xs = as @ [p]" using assms(4) by (metis append_butlast_last_id list.distinct(1))
  obtain bs where b: "ys @ [h] = n # bs" using assms(5) by (cases "ys @ [h]") auto
  let ?st = "add_entry e p n st"
  note c = circle_ends [OF assms(2) a b]
  have e: "e \<notin> set (as @ bs)" "e \<noteq> p" "e \<noteq> n" using assms(3) c(5) by auto
  have nx: "dl_next ?st = (dl_next st)(p := e, e := n)" "dl_prev ?st = (dl_prev st)(n := e, e := p)"
    using e by (simp_all add: add_entry_def Let_def fun_upd_twist)
  have "linked st (as @ p # n # bs)" using assms(1) a b by (metis append.assoc append_Cons append_Nil)
  then have "linked ?st (as @ p # e # n # bs)"
    using linked_ends [OF nx c(1-4) e] e unfolding linked_at
    by (simp add: nx)
  then show ?thesis using a b by (metis append.assoc append_Cons append_Nil)
qed

lemma remove_entry_dlist:
  assumes "linked st (h # xs @ e # ys @ [h])" "distinct (h # xs @ e # ys)"
  shows "linked (remove_entry e (dl_prev st e) (dl_next st e) st) (h # xs @ ys @ [h])"
    and "dl_prev st e \<noteq> e"
proof -
  obtain as p where a: "h # xs = as @ [p]" by (metis append_butlast_last_id list.distinct(1))
  obtain n bs where b: "ys @ [h] = n # bs" by (cases "ys @ [h]") auto
  have l: "linked st (as @ p # e # n # bs)" using assms(1) a b by (metis append.assoc append_Cons append_Nil)
  then have pn: "dl_prev st e = p" "dl_next st e = n" "dl_prev st n = e"
    using linked_at [of st as p e "n # bs"] by simp_all
  let ?st = "remove_entry e p n st"
  have d: "distinct (h # xs @ ys)" and e': "e \<notin> set (h # xs @ ys)" using assms(2) by auto
  note c = circle_ends [OF d a b]
  have e: "e \<notin> set (as @ bs)" "e \<noteq> p" "e \<noteq> n" using e' c(5) by auto
  show "dl_prev st e \<noteq> e" using pn e by simp
  have nx: "dl_next ?st = (dl_next st)(p := n, e := e)" "dl_prev ?st = (dl_prev st)(n := p, e := e)"
    by (simp_all add: remove_entry_def dlist_init_entry_def Let_def)
  have "linked st (as @ [p])" "linked st (n # bs)"
    using l linked_at [of st as p e "n # bs"] by simp_all
  then have "linked ?st (as @ p # n # bs)"
    using linked_ends [OF nx c(1-4) e] e unfolding linked_at
    by (simp add: nx)
  then show "linked (remove_entry e (dl_prev st e) (dl_next st e) st) (h # xs @ ys @ [h])"
    using a b pn by (metis append.assoc append_Cons append_Nil)
qed

lemma linked_num [simp]: "linked (dl_num_update f st) ps = linked st ps"
  by (rule linked_cong) simp_all

lemma add_entry_num [simp]: "dl_num (add_entry e p n st) = dl_num st"
  by (simp add: add_entry_def Let_def)

lemma remove_entry_num [simp]: "dl_num (remove_entry e p n st) = dl_num st"
  by (simp add: remove_entry_def dlist_init_entry_def Let_def)


lemma dlist_add_tail:
  assumes "dlist st h xs" "e \<notin> set (h # xs)"
  shows "dlist (dlist_add_tail h e st) h (xs @ [e])"
proof -
  have l: "linked st (h # xs @ [] @ [h])" and "distinct (h # xs @ [])"
    using assms(1) by (auto simp: dlist_def)
  moreover have "dl_prev st h = last (h # xs)" using l linked_prev by fastforce
  ultimately have "linked (add_entry e (dl_prev st h) h st) (h # xs @ e # [] @ [h])"
    using assms(2) by (intro add_entry_dlist) auto
  then show ?thesis using assms by (auto simp: dlist_def dlist_add_tail_def Let_def)
qed

lemma dlist_remove_entry:
  assumes "dlist st h (xs @ e # ys)"
  shows "dlist (dlist_remove_entry h e st) h (xs @ ys)"
proof -
  have "linked st (h # xs @ e # ys @ [h])" "distinct (h # xs @ e # ys)"
    using assms by (simp_all add: dlist_def)
  from remove_entry_dlist [OF this] show ?thesis using assms
    by (auto simp: dlist_def dlist_remove_entry_def Let_def)
qed

text \<open>An entry that stands alone is left as it is: removing twice is harmless.\<close>

lemma dlist_remove_entry_self:
  "dl_next (dlist_remove_entry h e st) e = e \<or> dl_prev st e = e"
  by (simp add: dlist_remove_entry_def remove_entry_def dlist_init_entry_def Let_def)


subsection \<open>The loops\<close>

lemma get_entry_loop_spec:
  assumes "linked st (xs @ [h])" "xs \<noteq> []" "h \<notin> set xs"
    "unat position < 2 ^ 32" "unat cnt \<le> unat position" "unat cnt + length xs \<le> 2 ^ 32"
  shows "get_entry_loop st h position cnt (hd xs) =
    Some (if unat position - unat cnt < length xs then Some (xs ! (unat position - unat cnt)) else None)"
  using assms
proof (induction xs arbitrary: cnt)
  case (Cons x xs)
  have x: "x \<noteq> h" using Cons.prems by auto
  show ?case
  proof (cases "position = cnt")
    case True
    then show ?thesis using x by (simp add: get_entry_loop.simps)
  next
    case False
    then have lt: "unat cnt < unat position" using Cons.prems(5) by (metis le_neq_implies_less word_unat_eq_iff)
    then have cnt: "unat (cnt + 1) = unat cnt + 1"
      using Cons.prems(4) by (simp add: unat_word_ariths)
    have step: "get_entry_loop st h position cnt x = get_entry_loop st h position (cnt + 1) (dl_next st x)"
      using x False by (subst get_entry_loop.simps) simp
    show ?thesis
    proof (cases xs)
      case Nil
      then show ?thesis using step Cons.prems(1) lt x by (simp add: get_entry_loop.simps)
    next
      case (Cons y ys)
      then have "dl_next st x = hd xs" "linked st (xs @ [h])" using Cons.prems(1) by auto
      then show ?thesis using Cons.IH [of "cnt + 1"] step Cons.prems cnt lt Cons x
        by (auto simp: Suc_diff_le)
    qed
  qed
qed simp

lemma dlist_get_entry:
  assumes "dlist st h xs" "length xs < 2 ^ 32"
  shows "dlist_get_entry h position st =
    Some (if unat position < length xs then Some (xs ! unat position) else None)"
proof (cases xs)
  case Nil
  then show ?thesis using assms(1) by (simp add: dlist_def dlist_get_entry_def get_entry_loop.simps)
next
  case (Cons x ys)
  have "unat position < 2 ^ LENGTH(32)" by (rule unsigned_less)
  moreover have "dl_next st h = hd xs" "linked st (xs @ [h])"
    using assms(1) Cons by (auto simp: dlist_def)
  ultimately show ?thesis using get_entry_loop_spec [of st xs h position 0] assms Cons
    by (simp add: dlist_get_entry_def dlist_def)
qed

text \<open>
  A walk whose callback may take the visited entry out of the list, as the callers that
  release a list do, and may stop it with a return value. \<open>sweep\<close> says what such a walk
  returns, visits and leaves.
\<close>

definition sweep_cb ::
  "dptr \<Rightarrow> (dptr \<Rightarrow> int) \<Rightarrow> (dptr \<Rightarrow> bool) \<Rightarrow> dptr \<Rightarrow> dstore \<times> dptr list \<Rightarrow> int \<times> dstore \<times> dptr list" where
  "sweep_cb h ret out e s =
     (ret e, (if out e then dlist_remove_entry h e (fst s) else fst s), snd s @ [e])"

fun sweep :: "(dptr \<Rightarrow> int) \<Rightarrow> (dptr \<Rightarrow> bool) \<Rightarrow> dptr list \<Rightarrow> int \<times> dptr list \<times> dptr list" where
  "sweep ret out [] = (0, [], [])"
| "sweep ret out (x # xs) =
     (let (r, seen, left) = (if ret x \<noteq> 0 then (ret x, [], xs) else sweep ret out xs)
      in (r, x # seen, if out x then left else x # left))"

lemma walk_all_loop_sweep:
  assumes "dlist st h (kept @ xs)"
  shows "\<exists>st'. walk_all_loop h (sweep_cb h ret out) (hd (xs @ [h])) (dl_next st (hd (xs @ [h]))) (st, seen)
      = Some (fst (sweep ret out xs), st', seen @ fst (snd (sweep ret out xs))) \<and>
    dlist st' h (kept @ snd (snd (sweep ret out xs)))"
  using assms
proof (induction xs arbitrary: st kept seen)
  case Nil
  then show ?case by (simp add: walk_all_loop.simps)
next
  case (Cons x xs)
  let ?st = "if out x then dlist_remove_entry h x st else st"
  let ?kept = "if out x then kept else kept @ [x]"
  have x: "x \<noteq> h" using Cons.prems by (auto simp: dlist_def)
  have d: "dlist ?st h (?kept @ xs)" using Cons.prems dlist_remove_entry by auto
  have nx: "dl_next st x = hd (xs @ [h])" using Cons.prems linked_next by (auto simp: dlist_split)
  show ?case
  proof (cases "ret x = 0")
    case False
    then show ?thesis using x d
      by (auto simp: walk_all_loop.simps [of h _ x] sweep_cb_def split: if_splits)
  next
    case True
    from Cons.IH [OF d, of "seen @ [x]"] True x nx show ?thesis
      by (auto simp: walk_all_loop.simps [of h _ x] sweep_cb_def split: if_splits prod.splits)
  qed
qed

section \<open>Properties\<close>


definition dlist_sample :: dstore where
  "dlist_sample = dlist_add_tail 0 2 (dlist_add_tail 0 1 (dlist_init_head 0
     \<lparr>dl_next = (\<lambda>_. 0), dl_prev = (\<lambda>_. 0), dl_num = (\<lambda>_. 7)\<rparr>))"

lemma dlist_sample: "dlist dlist_sample 0 [1, 2]"
  using dlist_add_tail [OF dlist_add_tail [OF dlist_init_head, of 1 0], of 2]
  by (simp add: dlist_sample_def)


text \<open>C23. Walking a list with a callback that may remove the entry it is given visits the
  entries in order, each once, until a callback returns an error, returns that error (0 when
  there is none), ends, and leaves a well-formed list of the entries that were kept.\<close>

theorem dlist_walk_sweep:
  assumes "dlist st h xs" "sweep ret out xs = (r, seen, left)"
  shows "\<exists>st'. dlist_walk_all h (sweep_cb h ret out) (st, []) = Some (r, st', seen) \<and> dlist st' h left"
proof -
  have "dl_next st h = hd (xs @ [h])" using assms(1) linked_next by (auto simp: dlist_def)
  with walk_all_loop_sweep [of st h "[]" xs ret out "[]"] assms show ?thesis
    by (simp add: dlist_walk_all_def Let_def)
qed

lemma dlist_walk_sweep_witness:
  "\<exists>st'. dlist_walk_all 0 (sweep_cb 0 (\<lambda>_. 0) (\<lambda>_. True)) (dlist_sample, []) = Some (0, st', [1, 2]) \<and>
     dlist st' 0 []"
  by (rule dlist_walk_sweep [OF dlist_sample]) simp

text \<open>\<^verbatim>\<open>dlist_remove_target_entry\<close> removes the entry at a position of the list and
  returns 0; past the end it changes nothing and returns -1. The search for the entry ends.\<close>

theorem dlist_remove_target:
  assumes "dlist st h xs" "length xs < 2 ^ 32"
  shows "\<exists>r st'. dlist_remove_target_entry h pos st = Some (r, st') \<and>
    (if unat pos < length xs
     then r = 0 \<and> dlist st' h (take (unat pos) xs @ drop (Suc (unat pos)) xs)
     else r = -1 \<and> st' = st)"
proof (cases "unat pos < length xs")
  case True
  then have "xs = take (unat pos) xs @ xs ! unat pos # drop (Suc (unat pos)) xs"
    by (rule id_take_nth_drop)
  with assms(1) have "dlist (dlist_remove_entry h (xs ! unat pos) st) h
      (take (unat pos) xs @ drop (Suc (unat pos)) xs)"
    using dlist_remove_entry by metis
  with True show ?thesis by (simp add: dlist_remove_target_entry_def dlist_get_entry [OF assms])
next
  case False
  then show ?thesis by (simp add: dlist_remove_target_entry_def dlist_get_entry [OF assms])
qed

lemma dlist_remove_target_witness:
  "\<exists>r st'. dlist_remove_target_entry 0 1 dlist_sample = Some (r, st') \<and> r = 0 \<and> dlist st' 0 [1]"
  using dlist_remove_target [OF dlist_sample, of 1] by simp

end
