(* ===== verification/Os_Utils.thy ===== *)
theory Os_Utils imports Ofs_Prelude
begin

unbundle bit_operations_syntax

text \<open>
  The conversions of \<^verbatim>\<open>public/os_utils.c\<close>: hexadecimal text to bytes, the byte
  swap of a \<^verbatim>\<open>uint64_t\<close>, and text to number. A C string is the list of its
  bytes without the terminating zero. A buffer is the list of its bytes; writing past its end is
  \<^term>\<open>None\<close>.
\<close>

section \<open>The code\<close>

definition os_char_to_hex :: "u8 \<Rightarrow> int" where
  "os_char_to_hex c =
     (let c = sint c in
      if c \<le> 57 \<and> c \<ge> 48 then c - 48
      else if c \<le> 102 \<and> c \<ge> 97 then c - (97 - 10)
      else if c \<le> 70 \<and> c \<ge> 65 then c - (65 - 10)
      else -1)"

text \<open>The \<^verbatim>\<open>while\<close> loop: two digits for each byte of the buffer from position
  \<open>i\<close>.\<close>

fun str_to_hex_loop :: "u8 list \<Rightarrow> u8 list \<Rightarrow> nat \<Rightarrow> (int \<times> u8 list) option" where
  "str_to_hex_loop (c # d # str) hex i =
     (let c = os_char_to_hex c in
      if 0 > c then Some (c, hex)
      else if i \<ge> length hex then None
      else
        let hex = hex[i := push_bit 4 (word_of_int c)];
            d = os_char_to_hex d
        in if 0 > d then Some (d, hex)
           else str_to_hex_loop str (hex[i := hex ! i OR word_of_int d]) (Suc i))"
| "str_to_hex_loop _ hex i = Some (int i, hex)"

text \<open>\<^verbatim>\<open>hex_len\<close> is a parameter the code does not use.\<close>

definition os_str_to_hex :: "u8 list \<Rightarrow> u8 list \<Rightarrow> u32 \<Rightarrow> (int \<times> u8 list) option" where
  "os_str_to_hex str hex hex_len =
     (if str = [] then Some (0, hex)
      else if odd (length str) then
        let c = os_char_to_hex (hd str) in
        if 0 > c then Some (c, hex)
        else if hex = [] then None
        else str_to_hex_loop (tl str) (hex[0 := word_of_int c]) 1
      else str_to_hex_loop str hex 0)"

text \<open>\<^verbatim>\<open>while (j--) dst_char[j] = src_char[i++]\<close> on the memory images.\<close>

fun convert_u64_loop :: "u8 list \<Rightarrow> u8 list \<Rightarrow> nat \<Rightarrow> nat \<Rightarrow> u8 list" where
  "convert_u64_loop src dst i 0 = dst"
| "convert_u64_loop src dst i (Suc j) = convert_u64_loop src (dst[j := src ! i]) (Suc i) j"

definition os_convert_u64 :: "u64 \<Rightarrow> u64" where
  "os_convert_u64 src = u64_of_bytes (convert_u64_loop (u64_bytes src) (u64_bytes 0) 0 8)"

text \<open>\<open>str2ull\<close> is \<^verbatim>\<open>strtoull\<close> of the C library: the value and the number of
  characters it has consumed.\<close>

definition os_str_to_u64 :: "(u8 list \<Rightarrow> nat \<Rightarrow> u64 \<times> nat) \<Rightarrow> u8 list \<Rightarrow> nat \<Rightarrow> int \<times> u64" where
  "os_str_to_u64 str2ull str base =
     (let (value, end) = str2ull str base in
      if end = 0 then (-2, value)
      else if end < length str \<and> str ! end \<noteq> 10 then (-3, value)
      else (0, value))"

section \<open>Hexadecimal text\<close>

definition hex_digit :: "nat \<Rightarrow> u8" where
  "hex_digit d = (if d < 10 then word_of_nat (48 + d) else word_of_nat (87 + d))"

lemma os_char_to_hex_digit: "d < 16 \<Longrightarrow> os_char_to_hex (hex_digit d) = int d"
proof -
  assume "d < 16"
  then have "d = 0 \<or> d = 1 \<or> d = 2 \<or> d = 3 \<or> d = 4 \<or> d = 5 \<or> d = 6 \<or> d = 7 \<or>
    d = 8 \<or> d = 9 \<or> d = 10 \<or> d = 11 \<or> d = 12 \<or> d = 13 \<or> d = 14 \<or> d = 15" by arith
  then show ?thesis by (elim disjE) (auto simp: os_char_to_hex_def hex_digit_def)
qed

lemma os_char_to_hex_range: "os_char_to_hex c = -1 \<or> (0 \<le> os_char_to_hex c \<and> os_char_to_hex c < 16)"
  by (auto simp: os_char_to_hex_def Let_def)

definition hex_text :: "u8 \<Rightarrow> u8 list" where
  "hex_text b = [hex_digit (unat b div 16), hex_digit (unat b mod 16)]"


lemma hex_digit_hi: "os_char_to_hex (hex_digit (unat b div 16)) = int (unat (b :: u8) div 16)"
  using unat_u8_lt [of b] by (intro os_char_to_hex_digit) simp

lemma hex_digit_lo: "os_char_to_hex (hex_digit (unat b mod 16)) = int (unat (b :: u8) mod 16)"
  by (intro os_char_to_hex_digit) simp


lemma length_hex_text: "length (concat (map hex_text bs)) = 2 * length bs"
  by (induction bs) (simp_all add: hex_text_def)

section \<open>The byte swap\<close>

lemma convert_u64_loop_rev:
  "length src = i + j \<Longrightarrow> j \<le> length dst \<Longrightarrow>
   convert_u64_loop src dst i j = rev (drop i src) @ drop j dst"
proof (induction j arbitrary: dst i)
  case (Suc j)
  then have "drop j (dst[j := src ! i]) = src ! i # drop (Suc j) dst"
    by (simp add: Cons_nth_drop_Suc [symmetric])
  moreover have "drop i src = src ! i # drop (Suc i) src"
    using Suc.prems by (simp add: Cons_nth_drop_Suc)
  ultimately show ?case using Suc.IH [of "Suc i" "dst[j := src ! i]"] Suc.prems by simp
qed simp

lemma convert_u64_rev: "os_convert_u64 w = u64_of_bytes (rev (u64_bytes w))"
  by (simp add: os_convert_u64_def convert_u64_loop_rev)

lemma u64_bytes_of_bytes: "length bs = 8 \<Longrightarrow> u64_bytes (u64_of_bytes bs) = bs"
  using nat_le_le_nat [of bs 8] by (simp add: u64_bytes_def unat_u64_of_bytes)

section \<open>Properties\<close>



text \<open>The buffer length passed to \<^verbatim>\<open>os_str_to_hex\<close> does not protect the buffer: two
  bytes of text more than it can hold make the function write past its end, whatever
  \<^verbatim>\<open>hex_len\<close> says.\<close>

theorem str_to_hex_overrun:
  "os_str_to_hex (concat (map hex_text (hex @ [b]))) hex (word_of_nat (length hex)) = None"
proof -
  have "str_to_hex_loop (concat (map hex_text (bs @ [b]))) hex i = None" if "i + length bs = length hex"
    for bs i and hex :: "u8 list"
    using that
  proof (induction bs arbitrary: i hex)
    case Nil
    then show ?case by (simp add: hex_text_def hex_digit_hi hex_digit_lo)
  next
    case (Cons a bs)
    then show ?case
      using Cons.IH [of "Suc i"] by (simp add: hex_text_def hex_digit_hi hex_digit_lo Let_def)
  qed
  from this [of 0 hex hex] length_hex_text [of "hex @ [b]"] show ?thesis
    by (auto simp: os_str_to_hex_def simp del: concat_eq_Nil_conv)
qed

text \<open>\<^verbatim>\<open>os_convert_u64\<close> reverses the bytes of the integer, and undoes itself.\<close>

theorem convert_u64_involution:
  "u64_bytes (os_convert_u64 w) = rev (u64_bytes w) \<and> os_convert_u64 (os_convert_u64 w) = w"
  by (simp add: convert_u64_rev u64_bytes_of_bytes)

end
