(* ===== verification/Os_File_If.thy ===== *)
theory Os_File_If imports Ofs_Prelude
begin

text \<open>
  The user-space half of \<^verbatim>\<open>public/os_file_if.c\<close>, on which the disk interface of
  \<^verbatim>\<open>public/os_disk_if.h\<close> rests. A \<^verbatim>\<open>FILE\<close> is its bytes and its
  position; what the C library may refuse (a seek, a part of a transfer) is a parameter. The
  reader-writer lock has no part in the sequential behaviour.
\<close>

section \<open>The standard library's files\<close>

abbreviation (input) FILE_IO_ERR_SEEK :: int where "FILE_IO_ERR_SEEK \<equiv> 100001"
abbreviation (input) FILE_IO_ERR_MALLOC :: int where "FILE_IO_ERR_MALLOC \<equiv> 100002"
abbreviation (input) FILE_IO_ERR_OPEN :: int where "FILE_IO_ERR_OPEN \<equiv> 100003"
abbreviation (input) FILE_IO_ERR_INVALID_PARA :: int where "FILE_IO_ERR_INVALID_PARA \<equiv> 100008"

record cfile =
  cf_bytes :: "u8 list"
  cf_pos :: nat

text \<open>\<open>so_seek f pos\<close>: the seek succeeds; \<open>so_write f n\<close> and \<open>so_read f n\<close>: how
  many of \<open>n\<close> bytes the library transfers, when no end of file intervenes.\<close>

record stdio =
  so_seek :: "cfile \<Rightarrow> nat \<Rightarrow> bool"
  so_write :: "cfile \<Rightarrow> nat \<Rightarrow> nat"
  so_read :: "cfile \<Rightarrow> nat \<Rightarrow> nat"

definition fseeko :: "stdio \<Rightarrow> cfile \<Rightarrow> u64 \<Rightarrow> int \<times> cfile" where
  "fseeko so f offset =
     (if sint offset < 0 \<or> \<not> so_seek so f (unat offset) then (-1, f)
      else (0, f\<lparr>cf_pos := unat offset\<rparr>))"

definition fwrite :: "stdio \<Rightarrow> u8 list \<Rightarrow> cfile \<Rightarrow> nat \<times> cfile" where
  "fwrite so buf f =
     (let n = min (length buf) (so_write so f (length buf));
          bytes = cf_bytes f @ replicate (cf_pos f - length (cf_bytes f)) 0
      in if n = 0 then (0, f)
         else (n, f\<lparr>cf_bytes := wr bytes (cf_pos f) (take n buf), cf_pos := cf_pos f + n\<rparr>))"

definition fread :: "stdio \<Rightarrow> nat \<Rightarrow> cfile \<Rightarrow> u8 list \<times> cfile" where
  "fread so sz f =
     (let bs = rd (cf_bytes f) (cf_pos f) (min sz (so_read so f sz))
      in (bs, f\<lparr>cf_pos := cf_pos f + length bs\<rparr>))"

section \<open>The code\<close>

text \<open>
  \<^term>\<open>None\<close> for a handle or a buffer is the null pointer. A read returns the bytes it
  stores at the start of the buffer.
\<close>

definition file_open_or_create ::
  "bool \<Rightarrow> ('name \<Rightarrow> string \<Rightarrow> cfile option) \<Rightarrow> bool \<Rightarrow> 'name option \<Rightarrow> string option \<Rightarrow> int \<times> cfile option" where
  "file_open_or_create malloc_ok fopen hnd_ok name mode =
     (case (name, mode) of
        (Some name, Some mode) \<Rightarrow>
          if \<not> hnd_ok then (- FILE_IO_ERR_INVALID_PARA, None)
          else if \<not> malloc_ok then (FILE_IO_ERR_MALLOC, None)
          else (case fopen name mode of
                  None \<Rightarrow> (- FILE_IO_ERR_OPEN, None)
                | Some f \<Rightarrow> (0, Some f))
      | _ \<Rightarrow> (- FILE_IO_ERR_INVALID_PARA, None))"

definition os_file_seek :: "stdio \<Rightarrow> cfile option \<Rightarrow> u64 \<Rightarrow> int \<times> cfile option" where
  "os_file_seek so hnd offset =
     (case hnd of
        None \<Rightarrow> (- FILE_IO_ERR_INVALID_PARA, hnd)
      | Some f \<Rightarrow> map_prod id Some (fseeko so f offset))"

definition os_file_write :: "stdio \<Rightarrow> cfile option \<Rightarrow> u8 list option \<Rightarrow> int \<times> cfile option" where
  "os_file_write so hnd buf =
     (case (hnd, buf) of
        (Some f, Some bs) \<Rightarrow>
          if bs = [] then (- FILE_IO_ERR_INVALID_PARA, hnd)
          else map_prod int32 Some (fwrite so bs f)
      | _ \<Rightarrow> (- FILE_IO_ERR_INVALID_PARA, hnd))"

definition os_file_read :: "stdio \<Rightarrow> cfile option \<Rightarrow> nat \<Rightarrow> int \<times> u8 list \<times> cfile option" where
  "os_file_read so hnd sz =
     (case hnd of
        Some f \<Rightarrow>
          if sz = 0 then (- FILE_IO_ERR_INVALID_PARA, [], hnd)
          else let (bs, f) = fread so sz f in (int32 (length bs), bs, Some f)
      | None \<Rightarrow> (- FILE_IO_ERR_INVALID_PARA, [], hnd))"

definition os_file_pwrite :: "stdio \<Rightarrow> cfile option \<Rightarrow> u8 list option \<Rightarrow> u64 \<Rightarrow> int \<times> cfile option" where
  "os_file_pwrite so hnd buf offset =
     (if hnd = None \<or> buf = None \<or> buf = Some [] then (- FILE_IO_ERR_INVALID_PARA, hnd)
      else
        let (ret, hnd) = os_file_seek so hnd offset in
        if ret \<noteq> 0 then (- FILE_IO_ERR_SEEK, hnd)
        else os_file_write so hnd buf)"

definition os_file_pread :: "stdio \<Rightarrow> cfile option \<Rightarrow> nat \<Rightarrow> u64 \<Rightarrow> int \<times> u8 list \<times> cfile option" where
  "os_file_pread so hnd sz offset =
     (if hnd = None \<or> sz = 0 then (- FILE_IO_ERR_INVALID_PARA, [], hnd)
      else
        let (ret, hnd) = os_file_seek so hnd offset in
        if ret \<noteq> 0 then (- FILE_IO_ERR_SEEK, [], hnd)
        else os_file_read so hnd sz)"

definition os_file_get_size :: "stdio \<Rightarrow> cfile option \<Rightarrow> int \<times> cfile option" where
  "os_file_get_size so hnd =
     (case hnd of
        None \<Rightarrow> (- FILE_IO_ERR_INVALID_PARA, hnd)
      | Some f \<Rightarrow>
          if \<not> so_seek so f (length (cf_bytes f)) then (- FILE_IO_ERR_SEEK, hnd)
          else let f = f\<lparr>cf_pos := length (cf_bytes f)\<rparr> in (int (cf_pos f), Some f))"

section \<open>Reading back what was written\<close>

definition stdio_ok :: "stdio \<Rightarrow> bool" where
  "stdio_ok so \<longleftrightarrow> (\<forall>f n. so_seek so f n \<and> so_write so f n \<ge> n \<and> so_read so f n \<ge> n)"

lemma os_file_pwrite_ok:
  assumes "stdio_ok so" "0 < length bs" "length bs < 2 ^ 31"
    "0 \<le> sint off" "unat off \<le> length (cf_bytes f)"
  shows "os_file_pwrite so (Some f) (Some bs) off =
    (int (length bs), Some \<lparr>cf_bytes = wr (cf_bytes f) (unat off) bs, cf_pos = unat off + length bs\<rparr>)"
  using assms by (simp add: os_file_pwrite_def os_file_seek_def os_file_write_def fseeko_def fwrite_def
      stdio_ok_def int32_small min_absorb1 Let_def)

lemma os_file_pread_ok:
  assumes "stdio_ok so" "0 < n" "n < 2 ^ 31" "0 \<le> sint off" "unat off + n \<le> length (cf_bytes f)"
  shows "\<exists>f'. os_file_pread so (Some f) n off = (int n, rd (cf_bytes f) (unat off) n, Some f') \<and>
    cf_bytes f' = cf_bytes f"
  using assms by (simp add: os_file_pread_def os_file_seek_def os_file_read_def fseeko_def fread_def
      stdio_ok_def int32_small min_absorb1 Let_def)

end
