(* ===== verification/Ofs_Block_Rw.thy ===== *)
theory Ofs_Block_Rw imports Os_File_If
begin

text \<open>
  Reading and writing blocks, \<^verbatim>\<open>object_system/ofs_block_rw.c\<close> with the inline
  functions of \<^verbatim>\<open>include/ofs_block.h\<close> and the macros of
  \<^verbatim>\<open>public/os_disk_if.h\<close>, at the level of bytes. A block is the list of its bytes;
  its \<^verbatim>\<open>block_head_t\<close> is read at the packed offsets 0 (\<^verbatim>\<open>blk_id\<close>),
  4 (\<^verbatim>\<open>alloc_size\<close>), 8 (\<^verbatim>\<open>real_size\<close>), 12
  (\<^verbatim>\<open>seq_no\<close>) and 14 (\<^verbatim>\<open>fixup\<close>). Writing a block puts its
  sequence number in its last two bytes and keeps what was there in
  \<^verbatim>\<open>fixup\<close>; reading checks the two numbers against each other. A ping-pong block
  is written to the slots of a larger disk block in turn.
\<close>

section \<open>The disk\<close>

record 'd disk_ops =
  dk_pwrite :: "'d \<Rightarrow> u8 list \<Rightarrow> u64 \<Rightarrow> int \<times> 'd"
  dk_pread :: "'d \<Rightarrow> nat \<Rightarrow> u64 \<Rightarrow> int \<times> u8 list \<times> 'd"

definition os_disk :: "stdio \<Rightarrow> cfile option disk_ops" where
  "os_disk so = \<lparr>dk_pwrite = (\<lambda>hnd buf lba. os_file_pwrite so hnd (Some buf) (push_bit 9 lba)),
                 dk_pread = (\<lambda>hnd n lba. os_file_pread so hnd n (push_bit 9 lba))\<rparr>"

text \<open>The fields of \<^verbatim>\<open>container_handle_t\<close> this file uses.\<close>

record 'd blk_ct =
  bc_disk :: 'd
  bc_block_size :: u32
  bc_sectors_per_block :: u32

definition ofs_update_block ::
  "'d disk_ops \<Rightarrow> 'd blk_ct \<Rightarrow> u8 list \<Rightarrow> nat \<Rightarrow> u32 \<Rightarrow> u64 \<Rightarrow> (int \<times> 'd blk_ct) option" where
  "ofs_update_block ops ct buf n start_lba vbn =
     (if n > length buf then None
      else
        let (ret, d) = dk_pwrite ops (bc_disk ct) (take n buf)
              (ucast start_lba + vbn * ucast (bc_sectors_per_block ct))
        in Some (ret, ct\<lparr>bc_disk := d\<rparr>))"

definition ofs_read_block ::
  "'d disk_ops \<Rightarrow> 'd blk_ct \<Rightarrow> u8 list \<Rightarrow> nat \<Rightarrow> u32 \<Rightarrow> u64 \<Rightarrow> (int \<times> u8 list \<times> 'd blk_ct) option" where
  "ofs_read_block ops ct buf n start_lba vbn =
     (if n > length buf then None
      else
        let (ret, bs, d) = dk_pread ops (bc_disk ct) n
              (ucast start_lba + vbn * ucast (bc_sectors_per_block ct))
        in Some (ret, wr buf 0 (take n bs), ct\<lparr>bc_disk := d\<rparr>))"

section \<open>The code\<close>

abbreviation blk_id :: "u8 list \<Rightarrow> u32" where "blk_id blk \<equiv> get32 blk 0"
abbreviation alloc_size :: "u8 list \<Rightarrow> nat" where "alloc_size blk \<equiv> unat (get32 blk 4)"
abbreviation real_size :: "u8 list \<Rightarrow> nat" where "real_size blk \<equiv> unat (get32 blk 8)"
abbreviation seq_no :: "u8 list \<Rightarrow> u16" where "seq_no blk \<equiv> get16 blk 12"
abbreviation fixup :: "u8 list \<Rightarrow> u16" where "fixup blk \<equiv> get16 blk 14"

definition assemble_block :: "u8 list \<Rightarrow> u8 list option" where
  "assemble_block blk =
     (if alloc_size blk < 2 \<or> alloc_size blk > length blk \<or> length blk < 16 then None
      else
        let foot = alloc_size blk - 2;
            blk = put16 blk 14 (get16 blk foot)
        in Some (put16 blk foot (seq_no blk)))"

definition fixup_block :: "u8 list \<Rightarrow> (int \<times> u8 list) option" where
  "fixup_block blk =
     (if alloc_size blk < 2 \<or> alloc_size blk > length blk \<or> length blk < 16 then None
      else
        let foot = alloc_size blk - 2 in
        if get16 blk foot = seq_no blk then
          let blk = put16 blk foot (fixup blk)
          in Some (0, put16 blk 12 (seq_no blk + 1))
        else Some (- FILE_BLOCK_ERR_INVALID_OBJECT, blk))"

definition verify_block :: "u8 list \<Rightarrow> u32 \<Rightarrow> nat \<Rightarrow> int" where
  "verify_block blk oid asize =
     (if blk_id blk \<noteq> oid then - FILE_BLOCK_ERR_INVALID_OBJECT
      else if alloc_size blk \<noteq> asize then - FILE_BLOCK_ERR_INVALID_OBJECT
      else if real_size blk > alloc_size blk \<or> real_size blk < 16
        then - FILE_BLOCK_ERR_INVALID_OBJECT
      else 0)"

definition ofs_update_block_fixup ::
  "'d disk_ops \<Rightarrow> 'd blk_ct option \<Rightarrow> u8 list option \<Rightarrow> u64
     \<Rightarrow> (int \<times> 'd blk_ct option \<times> u8 list option) option" where
  "ofs_update_block_fixup ops ct blk vbn =
     (case (ct, blk) of
        (Some c, Some b) \<Rightarrow> do {
          b \<leftarrow> assemble_block b;
          (ret, c) \<leftarrow> ofs_update_block ops c b (alloc_size b) 0 vbn;
          (ret2, b) \<leftarrow> fixup_block b;
          Some (if ret2 < 0 then ret2 else ret, Some c, Some b)
        }
      | _ \<Rightarrow> Some (- BLOCK_ERR_PARAMETER, ct, blk))"

definition ofs_read_block_fixup ::
  "'d disk_ops \<Rightarrow> 'd blk_ct option \<Rightarrow> u8 list option \<Rightarrow> u64 \<Rightarrow> u32 \<Rightarrow> nat
     \<Rightarrow> (int \<times> 'd blk_ct option \<times> u8 list option) option" where
  "ofs_read_block_fixup ops ct blk vbn oid asize =
     (case (ct, blk) of
        (Some c, Some b) \<Rightarrow> do {
          (ret, b, c) \<leftarrow> ofs_read_block ops c b asize 0 vbn;
          if ret < 0 then Some (ret, Some c, Some b)
          else if verify_block b oid asize < 0 then Some (verify_block b oid asize, Some c, Some b)
          else do {
            (ret, b) \<leftarrow> fixup_block b;
            Some (ret, Some c, Some b)
          }
        }
      | _ \<Rightarrow> Some (- BLOCK_ERR_PARAMETER, ct, blk))"

definition check_block :: "'d blk_ct option \<Rightarrow> u8 list option \<Rightarrow> int" where
  "check_block ct blk =
     (case (ct, blk) of
        (Some c, Some b) \<Rightarrow>
          if real_size b > alloc_size b \<or> alloc_size b > unat (bc_block_size c)
          then - FILE_BLOCK_ERR_INVALID_OBJECT else 0
      | _ \<Rightarrow> - BLOCK_ERR_PARAMETER)"

text \<open>
  The slot the block goes to, as a byte offset: \<^verbatim>\<open>alloc_size * (seq_no % (block_size /
  alloc_size))\<close>; the division is undefined for a block of no size.
\<close>

definition slot_off :: "'d blk_ct \<Rightarrow> u8 list \<Rightarrow> u32 option" where
  "slot_off c b =
     (if alloc_size b = 0 then None
      else Some (get32 b 4 * word_of_nat (unat (seq_no b) mod (unat (bc_block_size c) div alloc_size b))))"

definition ofs_update_block_pingpong_init ::
  "'d disk_ops \<Rightarrow> (nat \<Rightarrow> bool) \<Rightarrow> 'd blk_ct option \<Rightarrow> u8 list option \<Rightarrow> u64
     \<Rightarrow> (int \<times> 'd blk_ct option \<times> u8 list option) option" where
  "ofs_update_block_pingpong_init ops malloc ct blk vbn =
     (if check_block ct blk < 0 then Some (check_block ct blk, ct, blk)
      else case (ct, blk) of
        (Some c, Some b) \<Rightarrow>
          let block_size = unat (bc_block_size c) in
          if \<not> malloc block_size then Some (- BLOCK_ERR_ALLOCATE_MEMORY, ct, blk)
          else do {
            b \<leftarrow> assemble_block b;
            off \<leftarrow> slot_off c b;
            let buf = replicate block_size 0;
            if unat off + real_size b > block_size \<or> real_size b > length b then None
            else do {
              let buf = wr buf (unat off) (take (real_size b) b);
              (ret, c) \<leftarrow> ofs_update_block ops c buf block_size 0 vbn;
              (ret2, b) \<leftarrow> fixup_block b;
              Some (if ret2 < 0 then ret2
                    else if ret \<noteq> int32 block_size then - BLOCK_ERR_WRITE else 0, Some c, Some b)
            }
          }
      | _ \<Rightarrow> None)"

definition ofs_update_block_pingpong ::
  "'d disk_ops \<Rightarrow> 'd blk_ct option \<Rightarrow> u8 list option \<Rightarrow> u64
     \<Rightarrow> (int \<times> 'd blk_ct option \<times> u8 list option) option" where
  "ofs_update_block_pingpong ops ct blk vbn =
     (if check_block ct blk < 0 then Some (check_block ct blk, ct, blk)
      else case (ct, blk) of
        (Some c, Some b) \<Rightarrow> do {
          b \<leftarrow> assemble_block b;
          off \<leftarrow> slot_off c b;
          let update_lba = drop_bit 9 off;
          (ret, c) \<leftarrow> ofs_update_block ops c b (alloc_size b) update_lba vbn;
          (ret2, b) \<leftarrow> fixup_block b;
          Some (if ret2 < 0 then ret2
                else if ret \<noteq> int32 (alloc_size b) then - BLOCK_ERR_WRITE else 0, Some c, Some b)
        }
      | _ \<Rightarrow> None)"

text \<open>
  \<^verbatim>\<open>get_last_correct_block\<close>: the first loop looks for the last slot of the newest run
  of sequence numbers; the comparison is made in \<^verbatim>\<open>int\<close>. The second goes backwards,
  around the end, to a slot that verifies. A slot is given by its number.
\<close>

definition slot_at :: "nat \<Rightarrow> nat \<Rightarrow> nat" where
  "slot_at asize i = (asize * i) mod 2 ^ 32"

fun newest_slot_loop :: "u8 list \<Rightarrow> nat \<Rightarrow> nat \<Rightarrow> nat \<Rightarrow> u16 \<Rightarrow> nat \<Rightarrow> nat option" where
  "newest_slot_loop buf asize i 0 prev_seq_no prev_i = Some prev_i"
| "newest_slot_loop buf asize i (Suc n) prev_seq_no prev_i =
     (let blk = drop (slot_at asize i) buf in
      if length blk < 16 then None
      else if blk_id blk = 0 then Some prev_i
      else if i \<noteq> 0 \<and> int (unat prev_seq_no) + 1 \<noteq> int (unat (seq_no blk)) then Some prev_i
      else newest_slot_loop buf asize (Suc i) n (seq_no blk) i)"

fun correct_slot_loop :: "u8 list \<Rightarrow> u32 \<Rightarrow> nat \<Rightarrow> nat \<Rightarrow> nat \<Rightarrow> nat \<Rightarrow> (nat option \<times> u8 list) option" where
  "correct_slot_loop buf oid asize cnt 0 prev_i = Some (None, buf)"
| "correct_slot_loop buf oid asize cnt (Suc n) prev_i =
     (let off = slot_at asize prev_i;
          blk = drop off buf;
          prev = (if prev_i = 0 then cnt else prev_i) - 1
      in if length blk < 16 then None
      else if blk_id blk = 0 then Some (None, buf)
      else if verify_block blk oid asize < 0 then correct_slot_loop buf oid asize cnt n prev
      else do {
        (ret, blk) \<leftarrow> fixup_block blk;
        let buf = take off buf @ blk;
        if 0 \<le> ret then Some (Some prev_i, buf) else correct_slot_loop buf oid asize cnt n prev
      })"

definition get_last_correct_block :: "u8 list \<Rightarrow> u32 \<Rightarrow> nat \<Rightarrow> nat \<Rightarrow> (nat option \<times> u8 list) option" where
  "get_last_correct_block buf oid asize cnt = do {
     i \<leftarrow> newest_slot_loop buf asize 0 cnt 0 0;
     correct_slot_loop buf oid asize cnt cnt i
   }"

text \<open>\<open>mem\<close> is what the buffer holds before the read.\<close>

definition ofs_read_block_pingpong ::
  "'d disk_ops \<Rightarrow> (nat \<Rightarrow> bool) \<Rightarrow> (nat \<Rightarrow> u8) \<Rightarrow> 'd blk_ct option \<Rightarrow> u8 list option \<Rightarrow> u64 \<Rightarrow> u32 \<Rightarrow> nat
     \<Rightarrow> (int \<times> 'd blk_ct option \<times> u8 list option) option" where
  "ofs_read_block_pingpong ops malloc mem ct blk vbn oid asize =
     (case (ct, blk) of
        (Some c, Some b) \<Rightarrow>
          let block_size = unat (bc_block_size c) in
          if asize = 0 then Some (- BLOCK_ERR_PARAMETER, ct, blk)
          else if block_size < asize then Some (- FILE_BLOCK_ERR_INVALID_OBJECT, ct, blk)
          else if \<not> malloc block_size then Some (- BLOCK_ERR_ALLOCATE_MEMORY, ct, blk)
          else do {
            (ret, buf, c) \<leftarrow> ofs_read_block ops c (map mem [0..<block_size]) block_size 0 vbn;
            if ret < 0 then Some (ret, Some c, blk)
            else do {
              (tmp_obj, buf) \<leftarrow> get_last_correct_block buf oid asize (block_size div asize);
              case tmp_obj of
                None \<Rightarrow> Some (- FILE_BLOCK_ERR_INVALID_OBJECT, Some c, blk)
              | Some i \<Rightarrow>
                  let tmp = drop (slot_at asize i) buf in
                  if real_size tmp > length tmp \<or> real_size tmp > length b then None
                  else Some (0, Some c, Some (wr b 0 (take (real_size tmp) tmp)))
            }
          }
      | _ \<Rightarrow> Some (- BLOCK_ERR_PARAMETER, ct, blk))"

section \<open>Assembling and fixing up\<close>

text \<open>A complete block of its own size; what it is on disk; what reading and writing leave.\<close>

definition wf_blk :: "u8 list \<Rightarrow> bool" where
  "wf_blk b \<longleftrightarrow> 18 \<le> length b \<and> alloc_size b = length b \<and> 16 \<le> real_size b \<and>
     real_size b \<le> length b \<and> blk_id b \<noteq> 0"

definition on_disk :: "u8 list \<Rightarrow> u8 list" where
  "on_disk b = put16 (put16 b 14 (get16 b (length b - 2))) (length b - 2) (seq_no b)"

definition fixed_up :: "u8 list \<Rightarrow> u8 list" where
  "fixed_up b = put16 (put16 b 14 (get16 b (length b - 2))) 12 (seq_no b + 1)"

lemma wf_blk_length: "wf_blk b \<Longrightarrow> \<exists>n. length b = n + 18 \<and> alloc_size b = n + 18"
  by (auto simp: wf_blk_def le_iff_add add.commute)

lemma length_on_disk [simp]: "wf_blk b \<Longrightarrow> length (on_disk b) = length b"
  by (drule wf_blk_length) (auto simp: on_disk_def)

lemma length_fixed_up [simp]: "wf_blk b \<Longrightarrow> length (fixed_up b) = length b"
  by (drule wf_blk_length) (auto simp: fixed_up_def)

lemma on_disk_head [simp]:
  assumes "wf_blk b"
  shows "blk_id (on_disk b) = blk_id b" "get32 (on_disk b) 4 = get32 b 4"
    "get32 (on_disk b) 8 = get32 b 8" "seq_no (on_disk b) = seq_no b"
  using wf_blk_length [OF assms] by (auto simp: on_disk_def get32_put16_other get16_put16_other)

lemma fixed_up_head [simp]:
  assumes "wf_blk b"
  shows "blk_id (fixed_up b) = blk_id b" "get32 (fixed_up b) 4 = get32 b 4"
    "get32 (fixed_up b) 8 = get32 b 8" "seq_no (fixed_up b) = seq_no b + 1"
  using wf_blk_length [OF assms] by (auto simp: fixed_up_def get32_put16_other get16_put16_other)

lemma wf_fixed_up: "wf_blk b \<Longrightarrow> wf_blk (fixed_up b)"
  by (simp add: wf_blk_def [of "fixed_up b"]) (simp add: wf_blk_def)

lemma assemble_on_disk:
  assumes "wf_blk b"
  shows "assemble_block b = Some (on_disk b)"
  using wf_blk_length [OF assms] by (auto simp: assemble_block_def on_disk_def get16_put16_other Let_def)

lemma fixup_on_disk:
  assumes "wf_blk b"
  shows "fixup_block (on_disk b) = Some (0, fixed_up b)"
proof -
  obtain n where l: "length b = n + 18" "alloc_size b = n + 18" using wf_blk_length [OF assms] by auto
  let ?f = "16 + n" and ?p = "put16 b 14 (get16 b (16 + n))"
  have d: "on_disk b = put16 ?p ?f (seq_no b)" using l by (simp add: on_disk_def)
  have foot: "get16 (on_disk b) ?f = seq_no b" using l by (simp add: d)
  have fx: "fixup (on_disk b) = get16 b ?f" using l by (simp add: d get16_put16_other)
  have "put16 (on_disk b) ?f (get16 b ?f) = put16 ?p ?f (get16 ?p ?f)"
    using l by (simp add: d put16_put16_same get16_put16_other)
  also have "\<dots> = ?p" using l by (simp add: put16_get16)
  finally have restore: "put16 (on_disk b) ?f (get16 b ?f) = ?p" .
  have "get16 ?p 12 = seq_no b" using l by (simp add: get16_put16_other)
  then show ?thesis
    using assms l foot fx restore by (simp add: fixup_block_def fixed_up_def Let_def)
qed

text \<open>A block at the start of a larger buffer.\<close>

lemma rd_append: "off + n \<le> length m \<Longrightarrow> rd (m @ r) off n = rd m off n"
  by (simp add: rd_def)

lemma get_append [simp]:
  "off + 2 \<le> length m \<Longrightarrow> get16 (m @ r) off = get16 m off"
  "off + 4 \<le> length m \<Longrightarrow> get32 (m @ r) off = get32 m off"
  by (simp_all add: get16_def get32_def rd_append)

lemma put16_append: "off + 2 \<le> length m \<Longrightarrow> put16 (m @ r) off w = put16 m off w @ r"
  by (simp add: put16_def wr_def)

lemma fixup_block_append:
  assumes "alloc_size b = length b" "18 \<le> length b"
  shows "fixup_block (b @ r) = map_option (\<lambda>(ret, b'). (ret, b' @ r)) (fixup_block b)"
  using assms by (simp add: fixup_block_def Let_def put16_append)

lemma verify_block_append:
  "16 \<le> length b \<Longrightarrow> verify_block (b @ r) oid n = verify_block b oid n"
  by (simp add: verify_block_def)

section \<open>The slots of a ping-pong block\<close>

lemma get_drop: "get16 (drop off m) i = get16 m (off + i)" "get32 (drop off m) i = get32 m (off + i)"
  by (simp_all add: get16_def get32_def rd_def add.commute)

lemma newest_slot:
  assumes sz: "asize * cnt \<le> length R" "length R < 2 ^ 32" "16 \<le> asize"
    and used: "\<And>i. i \<le> p \<Longrightarrow> get32 R (asize * i) \<noteq> 0"
    and run: "\<And>i. i < p \<Longrightarrow> unat (get16 R (asize * i + 12)) + 1 = unat (get16 R (asize * Suc i + 12))"
    and stop: "Suc p < cnt \<Longrightarrow> get32 R (asize * Suc p) = 0 \<or>
      unat (get16 R (asize * p + 12)) + 1 \<noteq> unat (get16 R (asize * Suc p + 12))"
    and p: "p < cnt"
  shows "i \<le> Suc p \<Longrightarrow> (i \<noteq> 0 \<Longrightarrow> prev = get16 R (asize * (i - 1) + 12) \<and> pi = i - 1) \<Longrightarrow>
    newest_slot_loop R asize i (cnt - i) prev pi = Some p"
proof (induction "cnt - i" arbitrary: i prev pi)
  case 0
  then have "i = Suc p" using p by simp
  with 0 show ?case by simp
next
  case (Suc n)
  then have i: "i < cnt" and cn: "cnt - i = Suc n" by simp_all
  have "asize * Suc i \<le> asize * cnt" using i by (intro mult_le_mono) auto
  then have off: "slot_at asize i = asize * i" "\<not> length R - asize * i < 16"
    using sz by (simp_all add: slot_at_def)
  have n: "n = cnt - Suc i" using Suc.hyps(2) by simp
  show ?case
  proof (cases "i = Suc p")
    case True
    have pv: "prev = get16 R (asize * p + 12)" using Suc.prems(2) True by simp
    have "\<not> int (unat prev) + 1 = int (unat (get16 R (asize * i + 12))) \<or> get32 R (asize * i) = 0"
    proof -
      have "int (unat prev) + 1 = int (unat (get16 R (asize * i + 12))) \<longleftrightarrow>
          unat (get16 R (asize * p + 12)) + 1 = unat (get16 R (asize * Suc p + 12))"
        unfolding pv True by linarith
      then show ?thesis using stop i True by auto
    qed
    then show ?thesis using True Suc.prems off
      unfolding cn by (auto simp: get_drop Let_def simp del: of_nat_unat)
  next
    case False
    then have le: "i \<le> p" using Suc.prems by simp
    have cont: "\<not> (i \<noteq> 0 \<and> int (unat prev) + 1 \<noteq> int (unat (get16 R (asize * i + 12))))"
    proof
      assume a: "i \<noteq> 0 \<and> int (unat prev) + 1 \<noteq> int (unat (get16 R (asize * i + 12)))"
      then obtain j where j: "i = Suc j" by (cases i) auto
      then have "prev = get16 R (asize * j + 12)" using Suc.prems(2) by simp
      moreover have "unat (get16 R (asize * j + 12)) + 1 = unat (get16 R (asize * i + 12))"
        using run [of j] le j by simp
      ultimately have "int (unat prev) + 1 = int (unat (get16 R (asize * i + 12)))"
        by (metis of_nat_1 of_nat_add)
      with a show False by simp
    qed
    have "newest_slot_loop R asize (Suc i) (cnt - Suc i) (get16 R (asize * i + 12)) i = Some p"
      by (rule Suc.hyps(1) [OF n]) (use le in auto)
    with cont used [OF le] off show ?thesis unfolding cn n
      by (auto simp: get_drop Let_def)
  qed
qed

text \<open>A slot that holds a block, and one that holds something that cannot be a block.\<close>

definition bad_slot :: "u32 \<Rightarrow> u8 list \<Rightarrow> bool" where
  "bad_slot oid g \<longleftrightarrow> 18 \<le> length g \<and> blk_id g \<noteq> 0 \<and>
     (verify_block g oid (length g) < 0 \<or> get16 g (length g - 2) \<noteq> seq_no g)"

lemma slot_split:
  assumes "asize * cnt \<le> length R" "length R < 2 ^ 32" "i < cnt" "0 < asize"
  shows "slot_at asize i = asize * i" "drop (asize * i) R = rd R (asize * i) asize @ drop (asize * i + asize) R"
    "asize * i + asize \<le> length R"
proof -
  have "asize * Suc i \<le> asize * cnt" using assms(3) by (intro mult_le_mono) auto
  then show le: "asize * i + asize \<le> length R" using assms by simp
  show "slot_at asize i = asize * i" using le assms by (simp add: slot_at_def)
  show "drop (asize * i) R = rd R (asize * i) asize @ drop (asize * i + asize) R"
    by (simp add: rd_def add.commute) (metis add.commute append_take_drop_id drop_drop)
qed

lemma verify_wf: "wf_blk b \<Longrightarrow> verify_block (on_disk b) (blk_id b) (length b) = 0"
  by (simp add: verify_block_def) (simp add: wf_blk_def)

lemma correct_slot_good:
  assumes sz: "asize * cnt \<le> length R" "length R < 2 ^ 32" "p < cnt"
    and b: "wf_blk b" "length b = asize" "rd R (asize * p) asize = on_disk b"
  shows "correct_slot_loop R (blk_id b) asize cnt (Suc n) p =
    Some (Some p, take (asize * p) R @ fixed_up b @ drop (asize * p + asize) R)"
proof -
  have "18 \<le> asize" using b by (simp add: wf_blk_def)
  then have s: "slot_at asize p = asize * p" "drop (asize * p) R = on_disk b @ drop (asize * p + asize) R"
    "\<not> length R - asize * p < 16"
    using slot_split [OF sz] b(3) by auto
  have l: "18 \<le> length b" "alloc_size b = length b" "blk_id b \<noteq> 0" using b by (simp_all add: wf_blk_def)
  then show ?thesis
    using b l verify_wf [OF b(1)] fixup_on_disk [OF b(1)]
      fixup_block_append [of "on_disk b" "drop (asize * p + asize) R"]
    by (simp add: s verify_block_append Let_def)
qed

lemma correct_slot_bad:
  assumes sz: "asize * cnt \<le> length R" "length R < 2 ^ 32" "p < cnt"
    and g: "bad_slot oid (rd R (asize * p) asize)"
  shows "correct_slot_loop R oid asize cnt (Suc n) p =
    correct_slot_loop R oid asize cnt n ((if p = 0 then cnt else p) - 1)"
proof -
  let ?g = "rd R (asize * p) asize"
  have "18 \<le> length ?g" using g by (simp add: bad_slot_def)
  then have a: "18 \<le> asize" by (simp add: rd_def)
  note s = slot_split [OF sz] 
  have s': "slot_at asize p = asize * p" "drop (asize * p) R = ?g @ drop (asize * p + asize) R"
    "length ?g = asize" "\<not> length R - asize * p < 16" using s a by auto
  show ?thesis
  proof (cases "verify_block ?g oid asize < 0")
    case True
    then show ?thesis using g a s' by (simp add: bad_slot_def verify_block_append Let_def)
  next
    case False
    then have "alloc_size ?g = asize" by (auto simp: verify_block_def split: if_splits)
    moreover have "get16 ?g (asize - 2) \<noteq> seq_no ?g" using g s'(3) False by (simp add: bad_slot_def)
    ultimately have "fixup_block ?g = Some (- FILE_BLOCK_ERR_INVALID_OBJECT, ?g)"
      using a s'(3) by (simp add: fixup_block_def Let_def)
    then have "fixup_block (drop (asize * p) R) = Some (- FILE_BLOCK_ERR_INVALID_OBJECT, drop (asize * p) R)"
      using fixup_block_append [of ?g "drop (asize * p + asize) R"] \<open>alloc_size ?g = asize\<close> a s' by simp
    moreover have "\<not> verify_block (drop (asize * p) R) oid asize < 0" "blk_id (drop (asize * p) R) \<noteq> 0"
      "16 \<le> length (drop (asize * p) R)"
      using False g a s' by (simp_all add: verify_block_append bad_slot_def)
    ultimately show ?thesis by (simp add: s'(1) Let_def del: length_drop)
  qed
qed

subsection \<open>Which slot is the newest\<close>

text \<open>
  Update number \<open>q * cnt + i\<close> goes to slot \<open>i\<close>. \<open>slots\<close> says that after update
  \<open>q * cnt + p\<close> the slots hold the last \<open>cnt\<close> updates, or are still blank; \<open>V k\<close> is
  what update \<open>k\<close> has written.
\<close>

definition version :: "u32 \<Rightarrow> nat \<Rightarrow> nat \<Rightarrow> u8 list \<Rightarrow> bool" where
  "version oid asize k b \<longleftrightarrow> wf_blk b \<and> length b = asize \<and> blk_id b = oid \<and> seq_no b = word_of_nat k"

definition slots :: "u32 \<Rightarrow> nat \<Rightarrow> nat \<Rightarrow> u8 list \<Rightarrow> nat \<Rightarrow> nat \<Rightarrow> (nat \<Rightarrow> u8 list) \<Rightarrow> bool" where
  "slots oid asize cnt R q p V \<longleftrightarrow>
     p < cnt \<and> asize * cnt \<le> length R \<and> length R < 2 ^ 32 \<and> cnt dvd 2 ^ 16 \<and> cnt < 2 ^ 16 \<and>
     (\<forall>k \<le> q * cnt + p. version oid asize k (V k)) \<and>
     (\<forall>i < cnt. if i \<le> p then rd R (asize * i) asize = on_disk (V (q * cnt + i))
               else if q = 0 then get32 R (asize * i) = 0
               else rd R (asize * i) asize = on_disk (V ((q - 1) * cnt + i)))"

lemma get_slot:
  assumes "rd R (asize * i) asize = on_disk b" "version oid asize k b"
  shows "get32 R (asize * i) = oid" "get16 R (asize * i + 12) = word_of_nat k" "oid \<noteq> 0"
proof -
  have a: "18 \<le> asize" "wf_blk b" "blk_id b = oid" "seq_no b = word_of_nat k"
    using assms(2) by (auto simp: version_def wf_blk_def)
  have "rd R (asize * i) 4 = rd (on_disk b) 0 4" "rd R (asize * i + 12) 2 = rd (on_disk b) 12 2"
    using a unfolding assms(1) [symmetric] by (simp_all add: rd_rd)
  then have "get32 R (asize * i) = blk_id (on_disk b)" "get16 R (asize * i + 12) = seq_no (on_disk b)"
    by (simp_all add: get32_def get16_def)
  then show "get32 R (asize * i) = oid" "get16 R (asize * i + 12) = word_of_nat k" using a by simp_all
  show "oid \<noteq> 0" using a by (auto simp: wf_blk_def)
qed

text \<open>Within a round the numbers do not wrap, as the number of slots divides \<^term>\<open>2 ^ 16\<close>.\<close>

lemma seq_in_round:
  assumes "cnt dvd 2 ^ 16" "i < cnt"
  shows "unat (word_of_nat (q * cnt + i) :: u16) = cnt * (q mod (2 ^ 16 div cnt)) + i"
proof -
  obtain t where t: "2 ^ 16 = cnt * t" using assms(1) by (rule dvdE)
  have "(q * cnt + i) mod (cnt * t) = cnt * ((q * cnt + i) div cnt mod t) + (q * cnt + i) mod cnt"
    by (rule mod_mult2_eq)
  moreover have "(q * cnt + i) div cnt = q" "(q * cnt + i) mod cnt = i"
    using assms(2) by simp_all
  moreover have "2 ^ 16 div cnt = t" unfolding t using assms(2) by simp
  ultimately have "(q * cnt + i) mod 2 ^ 16 = cnt * (q mod (2 ^ 16 div cnt)) + i" using t by metis
  then show ?thesis by (simp add: unat_of_nat del: of_nat_add of_nat_mult)
qed

lemma round_changes:
  assumes "cnt dvd (2::nat) ^ 16" "cnt < 2 ^ 16" "0 < q"
  shows "cnt * (q mod (2 ^ 16 div cnt)) + i \<noteq> cnt * ((q - 1) mod (2 ^ 16 div cnt)) + i"
proof -
  obtain t where t: "2 ^ 16 = cnt * t" using assms(1) by (rule dvdE)
  then have c: "0 < cnt" by (cases cnt) auto
  have "t \<noteq> 1" using t assms(2) by auto
  moreover have "t \<noteq> 0" using t by (cases "t = 0") simp_all
  moreover have "2 ^ 16 div cnt = t" unfolding t using c by simp
  moreover have "q mod t \<noteq> (q - 1) mod t" if "1 < t" for t
    using that assms(3) by (metis One_nat_def Suc_pred mod_Suc n_not_Suc_n nat_neq_iff not_less_zero)
  ultimately show ?thesis using c by auto
qed

lemma slots_seq:
  assumes "slots oid asize cnt R q p V" "i < cnt"
  shows "i \<le> p \<Longrightarrow> get32 R (asize * i) \<noteq> 0 \<and>
      unat (get16 R (asize * i + 12)) = cnt * (q mod (2 ^ 16 div cnt)) + i"
    and "\<not> i \<le> p \<Longrightarrow> 0 < q \<Longrightarrow> get32 R (asize * i) \<noteq> 0 \<and>
      unat (get16 R (asize * i + 12)) = cnt * ((q - 1) mod (2 ^ 16 div cnt)) + i"
proof -
  have c: "cnt dvd 2 ^ 16" using assms(1) by (simp add: slots_def)
  {
    assume i: "i \<le> p"
    then have "rd R (asize * i) asize = on_disk (V (q * cnt + i))" "version oid asize (q * cnt + i) (V (q * cnt + i))"
      using assms by (auto simp: slots_def)
    from get_slot [OF this] seq_in_round [OF c assms(2)]
    show "get32 R (asize * i) \<noteq> 0 \<and> unat (get16 R (asize * i + 12)) = cnt * (q mod (2 ^ 16 div cnt)) + i"
      by simp
  next
    assume i: "\<not> i \<le> p" "0 < q"
    then obtain q' where q': "q = Suc q'" by (cases q) auto
    then have "(q - 1) * cnt + i \<le> q * cnt + p" using assms(2) by simp
    then have "rd R (asize * i) asize = on_disk (V ((q - 1) * cnt + i))"
        "version oid asize ((q - 1) * cnt + i) (V ((q - 1) * cnt + i))"
      using assms i by (auto simp: slots_def)
    from get_slot [OF this] seq_in_round [OF c assms(2)]
    show "get32 R (asize * i) \<noteq> 0 \<and> unat (get16 R (asize * i + 12)) = cnt * ((q - 1) mod (2 ^ 16 div cnt)) + i"
      by simp
  }
qed

lemma slots_last:
  assumes "slots oid asize cnt R q p V"
  shows "rd R (asize * p) asize = on_disk (V (q * cnt + p))" "wf_blk (V (q * cnt + p))"
    "length (V (q * cnt + p)) = asize" "blk_id (V (q * cnt + p)) = oid" "18 \<le> asize"
  using assms by (auto simp: slots_def version_def wf_blk_def)

lemma slots_newest:
  assumes "slots oid asize cnt R q p V"
  shows "newest_slot_loop R asize 0 cnt 0 0 = Some p"
proof -
  have d: "p < cnt" "asize * cnt \<le> length R" "length R < 2 ^ 32" "16 \<le> asize"
    "cnt dvd 2 ^ 16" "cnt < 2 ^ 16"
    using assms slots_last(5) [OF assms] by (simp_all add: slots_def)
  have st: "get32 R (asize * Suc p) = 0 \<or>
      unat (get16 R (asize * p + 12)) + 1 \<noteq> unat (get16 R (asize * Suc p + 12))" if "Suc p < cnt"
  proof (cases "q = 0")
    case True
    then have "get32 R (asize * Suc p) = 0"
      using assms that unfolding slots_def by (metis Suc_n_not_le_n)
    then show ?thesis by simp
  next
    case False
    then show ?thesis
      using slots_seq(1) [OF assms d(1)] slots_seq(2) [OF assms that] round_changes [OF d(5,6), of q "Suc p"] by simp
  qed
  have "newest_slot_loop R asize 0 (cnt - 0) 0 0 = Some p"
    by (rule newest_slot) (use d st slots_seq(1) [OF assms] in \<open>auto simp del: mult_Suc_right\<close>)
  then show ?thesis by simp
qed

lemma slots_read:
  assumes "slots oid asize cnt R q p V"
  shows "get_last_correct_block R oid asize cnt =
    Some (Some p, take (asize * p) R @ fixed_up (V (q * cnt + p)) @ drop (asize * p + asize) R)"
proof -
  have d: "p < cnt" "asize * cnt \<le> length R" "length R < 2 ^ 32" using assms by (simp_all add: slots_def)
  note l = slots_last [OF assms]
  obtain n where n: "cnt = Suc n" using d(1) by (cases cnt) auto
  have "get_last_correct_block R oid asize cnt = correct_slot_loop R oid asize cnt cnt p"
    by (simp add: get_last_correct_block_def slots_newest [OF assms])
  then show ?thesis
    using correct_slot_good [OF d(2,3,1) l(2,3,1), of n] l(4) by (simp only: n [symmetric])
qed

text \<open>The slot the next update goes to.\<close>

definition next_slot :: "nat \<Rightarrow> nat \<Rightarrow> nat" where
  "next_slot cnt p = (if Suc p < cnt then Suc p else 0)"

lemma same_slot:
  assumes "rd R' (asize * i) asize = rd R (asize * i) asize" "16 \<le> asize"
  shows "get32 R' (asize * i) = get32 R (asize * i)" "get16 R' (asize * i + 12) = get16 R (asize * i + 12)"
proof -
  have "rd (rd R' (asize * i) asize) 0 4 = rd (rd R (asize * i) asize) 0 4"
    "rd (rd R' (asize * i) asize) 12 2 = rd (rd R (asize * i) asize) 12 2" using assms by simp_all
  then show "get32 R' (asize * i) = get32 R (asize * i)" "get16 R' (asize * i + 12) = get16 R (asize * i + 12)"
    using assms(2) by (simp_all add: rd_rd get32_def get16_def)
qed

lemma torn_newest:
  assumes s: "slots oid asize cnt R q p V" and c: "1 < cnt"
    and len: "length R' = length R"
    and same: "\<And>i. i < cnt \<Longrightarrow> i \<noteq> next_slot cnt p \<Longrightarrow> rd R' (asize * i) asize = rd R (asize * i) asize"
    and id: "get32 R' (asize * next_slot cnt p) \<noteq> 0"
  shows "newest_slot_loop R' asize 0 cnt 0 0 = Some p \<or>
    newest_slot_loop R' asize 0 cnt 0 0 = Some (next_slot cnt p)"
proof -
  let ?id = "\<lambda>i. get32 R' (asize * i)" and ?sq = "\<lambda>i. unat (get16 R' (asize * i + 12))"
  have d: "p < cnt" "asize * cnt \<le> length R'" "length R' < 2 ^ 32" "16 \<le> asize"
    "cnt dvd 2 ^ 16" "cnt < 2 ^ 16"
    using s slots_last(5) [OF s] by (simp_all add: slots_def len)
  let ?a = "cnt * (q mod (2 ^ 16 div cnt))" and ?b = "cnt * ((q - 1) mod (2 ^ 16 div cnt))"
  have cur: "?id i \<noteq> 0 \<and> ?sq i = ?a + i" if "i < cnt" "i \<le> p" "i \<noteq> next_slot cnt p" for i
    using slots_seq(1) [OF s that(1,2)] same_slot [OF same [OF that(1,3)] d(4)] by simp
  have prev: "?id i = 0 \<or> ?sq i = ?b + i \<and> 0 < q" if "i < cnt" "\<not> i \<le> p" "i \<noteq> next_slot cnt p" for i
  proof (cases "q = 0")
    case True
    then have "get32 R (asize * i) = 0" using s that(1,2) by (simp add: slots_def)
    then show ?thesis using same_slot(1) [OF same [OF that(1,3)] d(4)] by simp
  next
    case False
    then show ?thesis using slots_seq(2) [OF s that(1,2)] same_slot [OF same [OF that(1,3)] d(4)] by simp
  qed
  have newest: "newest_slot_loop R' asize 0 cnt 0 0 = Some p'"
    if "\<And>i. i \<le> p' \<Longrightarrow> ?id i \<noteq> 0" "\<And>i. i < p' \<Longrightarrow> ?sq i + 1 = ?sq (Suc i)"
      "Suc p' < cnt \<Longrightarrow> ?id (Suc p') = 0 \<or> ?sq p' + 1 \<noteq> ?sq (Suc p')" "p' < cnt" for p'
    using newest_slot [of asize cnt R' p' 0 0 0] d that by simp
  show ?thesis
  proof (cases "Suc p < cnt")
    case True
    then have j: "next_slot cnt p = Suc p" by (simp add: next_slot_def)
    show ?thesis
    proof (cases "?sq p + 1 = ?sq (Suc p)")
      case eq: True
      have "newest_slot_loop R' asize 0 cnt 0 0 = Some (Suc p)"
      proof (rule newest)
        show "?id i \<noteq> 0" if "i \<le> Suc p" for i
          using that id j cur [of i] d(1) by (cases "i = Suc p") auto
        show "?sq i + 1 = ?sq (Suc i)" if "i < Suc p" for i
          using that eq j cur [of i] cur [of "Suc i"] d(1) by (cases "i = p") auto
        show "?id (Suc (Suc p)) = 0 \<or> ?sq (Suc p) + 1 \<noteq> ?sq (Suc (Suc p))" if "Suc (Suc p) < cnt"
        proof (cases "?id (Suc (Suc p)) = 0")
          case False
          then have "?sq (Suc (Suc p)) = ?b + Suc (Suc p)" "0 < q" using prev [OF that] j by auto
          moreover have "?sq (Suc p) = ?a + Suc p" using eq cur [of p] j d(1) by simp
          ultimately show ?thesis using round_changes [OF d(5,6), of q "Suc (Suc p)"] by simp
        qed simp
      qed (rule True)
      then show ?thesis using j by simp
    next
      case False
      have "newest_slot_loop R' asize 0 cnt 0 0 = Some p"
        by (rule newest) (use False d(1) j cur in \<open>auto simp del: mult_Suc_right\<close>)
      then show ?thesis by simp
    qed
  next
    case False
    then have j: "next_slot cnt p = 0" and p: "cnt = Suc p" "0 < p" using d(1) c by (simp_all add: next_slot_def)
    show ?thesis
    proof (cases "?sq 0 + 1 = ?sq 1")
      case eq: True
      have "newest_slot_loop R' asize 0 cnt 0 0 = Some p"
      proof (rule newest)
        show "?id i \<noteq> 0" if "i \<le> p" for i using that id j cur [of i] p by (cases "i = 0") auto
        show "?sq i + 1 = ?sq (Suc i)" if "i < p" for i
          using that eq j cur [of i] cur [of "Suc i"] p by (cases "i = 0") auto
      qed (use p in auto)
      then show ?thesis by simp
    next
      case False
      have "newest_slot_loop R' asize 0 cnt 0 0 = Some 0"
        by (rule newest) (use False id j c in auto)
      then show ?thesis using j by simp
    qed
  qed
qed

lemma torn_read:
  assumes s: "slots oid asize cnt R q p V" and c: "1 < cnt"
    and len: "length R' = length R"
    and same: "\<And>i. i < cnt \<Longrightarrow> i \<noteq> next_slot cnt p \<Longrightarrow> rd R' (asize * i) asize = rd R (asize * i) asize"
    and bad: "bad_slot oid (rd R' (asize * next_slot cnt p) asize)"
  shows "get_last_correct_block R' oid asize cnt =
    Some (Some p, take (asize * p) R' @ fixed_up (V (q * cnt + p)) @ drop (asize * p + asize) R')"
proof -
  let ?j = "next_slot cnt p"
  have d: "p < cnt" "asize * cnt \<le> length R'" "length R' < 2 ^ 32" "?j < cnt" "p \<noteq> ?j"
    using s c by (auto simp: slots_def len next_slot_def)
  note l = slots_last [OF s]
  obtain n where n: "cnt = Suc (Suc n)" using c by (metis Suc_lessE Suc_less_eq less_SucE lessI One_nat_def)
  have pr: "(if ?j = 0 then cnt else ?j) - 1 = p" using d(1) by (auto simp: next_slot_def)
  have good: "correct_slot_loop R' oid asize cnt (Suc k) p =
      Some (Some p, take (asize * p) R' @ fixed_up (V (q * cnt + p)) @ drop (asize * p + asize) R')" for k
    using correct_slot_good [OF d(2,3,1) l(2,3), of k] l(1,4) same [OF d(1,5)] by simp
  have "rd (rd R' (asize * ?j) asize) 0 4 = rd R' (asize * ?j) 4" using l(5) by (simp add: rd_rd)
  then have "get32 R' (asize * ?j) \<noteq> 0" using bad by (simp add: bad_slot_def get32_def)
  from torn_newest [OF s c len same this]
  show ?thesis
  proof
    assume "newest_slot_loop R' asize 0 cnt 0 0 = Some p"
    then have "get_last_correct_block R' oid asize cnt = correct_slot_loop R' oid asize cnt cnt p"
      by (simp add: get_last_correct_block_def)
    then show ?thesis using good [of "Suc n"] by (simp only: n [symmetric])
  next
    assume "newest_slot_loop R' asize 0 cnt 0 0 = Some ?j"
    moreover have "correct_slot_loop R' oid asize cnt (Suc (Suc n)) ?j = correct_slot_loop R' oid asize cnt (Suc n) p"
      using correct_slot_bad [OF d(2,3,4) bad, of "Suc n"] by (simp only: pr)
    moreover from \<open>newest_slot_loop R' asize 0 cnt 0 0 = Some ?j\<close>
    have "get_last_correct_block R' oid asize cnt = correct_slot_loop R' oid asize cnt cnt ?j"
      by (simp add: get_last_correct_block_def)
    ultimately show ?thesis using good [of n] by (simp only: n [symmetric])
  qed
qed

text \<open>The next update.\<close>

lemma rd_wr_window: "a + length bs \<le> n \<Longrightarrow> off + n \<le> length m \<Longrightarrow>
    rd (wr m (off + a) bs) off n = wr (rd m off n) a bs"
  by (rule nth_equalityI) (auto simp: nth_rd nth_wr)

lemma other_slot:
  assumes "i \<noteq> j" "i < cnt" "j < cnt" "asize * cnt \<le> length R" "length bs = asize"
  shows "rd (wr R (asize * j) bs) (asize * i) asize = rd R (asize * i) asize"
proof -
  have "asize * Suc i \<le> asize * cnt" "asize * Suc j \<le> asize * cnt"
    using assms(2,3) by (intro mult_le_mono; simp)+
  moreover have "asize * Suc i \<le> asize * j \<or> asize * Suc j \<le> asize * i"
    using assms(1) by (metis Suc_leI linorder_neqE_nat mult_le_mono2)
  ultimately show ?thesis using assms(4,5) by (intro rd_wr_other) auto
qed

definition next_round :: "nat \<Rightarrow> nat \<Rightarrow> nat \<Rightarrow> nat" where
  "next_round cnt q p = (if Suc p < cnt then q else Suc q)"

lemma next_number: "p < cnt \<Longrightarrow> next_round cnt q p * cnt + next_slot cnt p = Suc (q * cnt + p)"
  by (auto simp: next_round_def next_slot_def not_less dest: le_antisym)

lemma slots_step:
  assumes s: "slots oid asize cnt R q p V" and v: "version oid asize (Suc (q * cnt + p)) b"
  shows "slots oid asize cnt (wr R (asize * next_slot cnt p) (on_disk b))
    (next_round cnt q p) (next_slot cnt p) (V(Suc (q * cnt + p) := b))"
proof -
  let ?j = "next_slot cnt p" and ?q = "next_round cnt q p" and ?k = "Suc (q * cnt + p)"
  let ?R = "wr R (asize * ?j) (on_disk b)" and ?V = "V(?k := b)"
  have d: "p < cnt" "asize * cnt \<le> length R" "length R < 2 ^ 32" "cnt dvd 2 ^ 16" "cnt < 2 ^ 16"
    using s by (simp_all add: slots_def)
  have j: "?j < cnt" using d(1) by (auto simp: next_slot_def)
  have b: "length (on_disk b) = asize" using v by (simp add: version_def)
  have "asize * Suc ?j \<le> asize * cnt" using j by (intro mult_le_mono) auto
  then have fits: "asize * ?j + asize \<le> length R" using d(2) by simp
  have k: "?q * cnt + ?j = ?k" by (rule next_number [OF d(1)])
  have slot: "if i \<le> ?j then rd ?R (asize * i) asize = on_disk (?V (?q * cnt + i))
       else if ?q = 0 then get32 ?R (asize * i) = 0
       else rd ?R (asize * i) asize = on_disk (?V ((?q - 1) * cnt + i))" if i: "i < cnt" for i
  proof (cases "i = ?j")
    case True
    then show ?thesis using fits b k by (simp add: rd_wr_same)
  next
    case False
    have o: "rd ?R (asize * i) asize = rd R (asize * i) asize"
      by (rule other_slot [OF False i j d(2) b])
    have a: "16 \<le> asize" using slots_last(5) [OF s] by simp
    have si: "if i \<le> p then rd R (asize * i) asize = on_disk (V (q * cnt + i))
        else if q = 0 then get32 R (asize * i) = 0
        else rd R (asize * i) asize = on_disk (V ((q - 1) * cnt + i))"
      using s i by (simp add: slots_def)
    show ?thesis
    proof (cases "Suc p < cnt")
      case True
      then have e: "?j = Suc p" "?q = q" by (simp_all add: next_slot_def next_round_def)
      have "(q - 1) * cnt + i \<noteq> ?k" if "q \<noteq> 0"
        using that i by (cases q) auto
      then show ?thesis using si False o same_slot(1) [OF o a] by (auto simp: e)
    next
      case wrap: False
      then have e: "?j = 0" "?q = Suc q" "p = cnt - 1" using d(1) by (auto simp: next_slot_def next_round_def)
      have "i \<le> p" "q * cnt + i \<noteq> ?k" using i e(3) by auto
      then show ?thesis using si False o by (auto simp: e(1,2))
    qed
  qed
  have "\<forall>n \<le> ?q * cnt + ?j. version oid asize n (?V n)"
    using s v unfolding k by (auto simp: slots_def le_Suc_eq)
  with slot j d fits b show ?thesis by (simp add: slots_def)
qed

section \<open>On a disk\<close>

text \<open>What the functions rely on in \<^verbatim>\<open>os_disk_pwrite\<close> and
  \<^verbatim>\<open>os_disk_pread\<close>: within the disk, they transfer all the bytes.\<close>

definition vbn_off :: "'d blk_ct \<Rightarrow> u64 \<Rightarrow> nat" where
  "vbn_off c vbn = 512 * (unat vbn * unat (bc_sectors_per_block c))"

lemma lba_no_wrap:
  assumes "512 * unat (l :: u32) + vbn_off c vbn < 2 ^ 63"
  shows "512 * unat (ucast l + vbn * ucast (bc_sectors_per_block c) :: u64) = vbn_off c vbn + 512 * unat l"
proof -
  let ?s = "bc_sectors_per_block c"
  have u: "unat (ucast w :: u64) = unat w" for w :: u32
  proof -
    have "unat w < 2 ^ LENGTH(32)" by (rule unsigned_less)
    then show ?thesis by (simp add: unsigned_ucast_eq take_bit_nat_eq_self)
  qed
  have "unat vbn * unat ?s < 2 ^ 64" "unat l + unat vbn * unat ?s < 2 ^ 64"
    using assms by (simp_all add: vbn_off_def)
  then have "unat (ucast l + vbn * ucast ?s :: u64) = unat l + unat vbn * unat ?s"
    by (simp add: unat_word_ariths u)
  then show ?thesis by (simp add: vbn_off_def)
qed

text \<open>The disk block \<open>vbn\<close> holds a ping-pong block, update \<open>q * cnt + p\<close> being the last.\<close>

definition pingpong ::
  "u8 list \<Rightarrow> 'd blk_ct \<Rightarrow> u64 \<Rightarrow> u32 \<Rightarrow> nat \<Rightarrow> nat \<Rightarrow> nat \<Rightarrow> (nat \<Rightarrow> u8 list) \<Rightarrow> bool" where
  "pingpong m c vbn oid asize q p V \<longleftrightarrow>
     (let bs = unat (bc_block_size c) in
      vbn_off c vbn + bs \<le> length m \<and> bs < 2 ^ 31 \<and> 512 dvd asize \<and>
      slots oid asize (bs div asize) (rd m (vbn_off c vbn) bs) q p V)"

lemma pingpong_slot_off:
  assumes s: "slots oid asize cnt R q p V" and cnt: "cnt = unat (bc_block_size c) div asize"
    and v: "version oid asize (Suc (q * cnt + p)) b"
  shows "\<exists>off. slot_off c (on_disk b) = Some off \<and> unat off = asize * next_slot cnt p"
proof -
  let ?j = "next_slot cnt p"
  have b: "wf_blk b" "length b = asize" "seq_no b = word_of_nat (Suc (q * cnt + p))" "alloc_size b = asize"
    "asize \<noteq> 0" "get32 (on_disk b) 4 = get32 b 4" "seq_no (on_disk b) = seq_no b"
    using v by (auto simp: version_def wf_blk_def)
  have d: "cnt dvd 2 ^ 16" "p < cnt" "asize * cnt < 2 ^ 32" using s by (auto simp: slots_def)
  have j: "?j < cnt" using d(2) by (auto simp: next_slot_def)
  have "unat (seq_no b) mod cnt = Suc (q * cnt + p) mod 2 ^ 16 mod cnt"
    unfolding b(3) by (simp add: unat_of_nat del: of_nat_Suc of_nat_add of_nat_mult)
  also have "\<dots> = Suc (q * cnt + p) mod cnt" by (rule mod_mod_cancel [OF d(1)])
  also have "\<dots> = ?j"
    unfolding next_number [OF d(2), of q, symmetric] using j by simp
  finally have m: "unat (seq_no b) mod cnt = ?j" .
  have lt: "asize * ?j < 2 ^ 32" using j d(3) by (meson le_less_trans less_imp_le mult_le_mono2)
  have "(word_of_nat asize :: u32) = get32 b 4" by (simp flip: b(4))
  then have "get32 b 4 * word_of_nat ?j = (word_of_nat (asize * ?j) :: u32)" by simp
  then have "unat (get32 b 4 * word_of_nat ?j) = asize * ?j" using lt by (simp add: unat_of_nat del: of_nat_mult)
  then show ?thesis using b m by (simp add: slot_off_def cnt)
qed

locale disk =
  fixes ops :: "'d disk_ops" and content :: "'d \<Rightarrow> u8 list" and inv :: "'d \<Rightarrow> bool"
  assumes content_size: "inv d \<Longrightarrow> length (content d) < 2 ^ 63"
    and pwrite: "inv d \<Longrightarrow> 0 < length bs \<Longrightarrow> length bs < 2 ^ 31 \<Longrightarrow>
      512 * unat lba + length bs \<le> length (content d) \<Longrightarrow>
      \<exists>d'. dk_pwrite ops d bs lba = (int (length bs), d') \<and> inv d' \<and>
        content d' = wr (content d) (512 * unat lba) bs"
    and pread: "inv d \<Longrightarrow> 0 < n \<Longrightarrow> n < 2 ^ 31 \<Longrightarrow> 512 * unat lba + n \<le> length (content d) \<Longrightarrow>
      \<exists>d'. dk_pread ops d n lba = (int n, rd (content d) (512 * unat lba) n, d') \<and> inv d' \<and>
        content d' = content d"
begin

lemma update_block:
  assumes "inv (bc_disk c)" "0 < n" "n < 2 ^ 31" "n \<le> length buf"
    "vbn_off c vbn + 512 * unat l + n \<le> length (content (bc_disk c))"
  shows "\<exists>d. ofs_update_block ops c buf n l vbn = Some (int n, c\<lparr>bc_disk := d\<rparr>) \<and> inv d \<and>
    content d = wr (content (bc_disk c)) (vbn_off c vbn + 512 * unat l) (take n buf)"
proof -
  have lba: "512 * unat (ucast l + vbn * ucast (bc_sectors_per_block c) :: u64) = vbn_off c vbn + 512 * unat l"
    using content_size [OF assms(1)] assms(5) by (intro lba_no_wrap) linarith
  have "\<exists>d'. dk_pwrite ops (bc_disk c) (take n buf) (ucast l + vbn * ucast (bc_sectors_per_block c)) =
      (int (length (take n buf)), d') \<and> inv d' \<and>
      content d' = wr (content (bc_disk c)) (vbn_off c vbn + 512 * unat l) (take n buf)"
    unfolding lba [symmetric] by (rule pwrite) (use assms lba in auto)
  then show ?thesis using assms(4) by (auto simp: ofs_update_block_def)
qed

lemma read_block:
  assumes "inv (bc_disk c)" "0 < n" "n < 2 ^ 31" "n = length buf"
    "vbn_off c vbn + n \<le> length (content (bc_disk c))"
  shows "\<exists>d. ofs_read_block ops c buf n 0 vbn =
      Some (int n, rd (content (bc_disk c)) (vbn_off c vbn) n, c\<lparr>bc_disk := d\<rparr>) \<and>
    inv d \<and> content d = content (bc_disk c)"
proof -
  have lba: "512 * unat (ucast (0 :: u32) + vbn * ucast (bc_sectors_per_block c) :: u64) = vbn_off c vbn"
    using content_size [OF assms(1)] assms(5) lba_no_wrap [of 0 c vbn] by simp
  have "\<exists>d'. dk_pread ops (bc_disk c) n (ucast (0 :: u32) + vbn * ucast (bc_sectors_per_block c)) =
      (int n, rd (content (bc_disk c)) (vbn_off c vbn) n, d') \<and> inv d' \<and> content d' = content (bc_disk c)"
    unfolding lba [symmetric] by (rule pread) (use assms lba in auto)
  moreover have "wr buf 0 (take n (rd m o' n)) = rd m o' n" if "o' + n \<le> length m" for m o'
    using that assms(4) by (simp add: wr_def rd_def)
  ultimately show ?thesis using assms(4,5) by (auto simp: ofs_read_block_def)
qed

text \<open>A block written with the fixup is read back, and a torn one is found out.\<close>

lemma update_fixup:
  assumes "inv (bc_disk c)" "wf_blk b" "length b < 2 ^ 31"
    "vbn_off c vbn + length b \<le> length (content (bc_disk c))"
  shows "\<exists>d. ofs_update_block_fixup ops (Some c) (Some b) vbn =
      Some (int (length b), Some (c\<lparr>bc_disk := d\<rparr>), Some (fixed_up b)) \<and> inv d \<and>
    content d = wr (content (bc_disk c)) (vbn_off c vbn) (on_disk b)"
proof -
  have l: "0 < length b" "alloc_size b = length b" using assms(2) by (auto simp: wf_blk_def)
  obtain d where d: "ofs_update_block ops c (on_disk b) (length b) 0 vbn = Some (int (length b), c\<lparr>bc_disk := d\<rparr>)"
    "inv d" "content d = wr (content (bc_disk c)) (vbn_off c vbn) (on_disk b)"
    using update_block [of c "length b" "on_disk b" vbn 0] assms l by auto
  have "ofs_update_block_fixup ops (Some c) (Some b) vbn =
      Some (int (length b), Some (c\<lparr>bc_disk := d\<rparr>), Some (fixed_up b))"
    using d(1) assms(2) l by (simp add: ofs_update_block_fixup_def assemble_on_disk fixup_on_disk)
  with d(2,3) show ?thesis by blast
qed

lemma read_fixup:
  assumes "inv (bc_disk c)" "wf_blk b" "length b < 2 ^ 31" "length b0 = length b"
    "vbn_off c vbn + length b \<le> length (content (bc_disk c))"
    "rd (content (bc_disk c)) (vbn_off c vbn) (length b) = on_disk b"
  shows "\<exists>d. ofs_read_block_fixup ops (Some c) (Some b0) vbn (blk_id b) (length b) =
      Some (0, Some (c\<lparr>bc_disk := d\<rparr>), Some (fixed_up b)) \<and> inv d \<and> content d = content (bc_disk c)"
proof -
  have l: "0 < length b" using assms(2) by (auto simp: wf_blk_def)
  obtain d where d: "ofs_read_block ops c b0 (length b) 0 vbn = Some (int (length b), on_disk b, c\<lparr>bc_disk := d\<rparr>)"
    "inv d" "content d = content (bc_disk c)"
    using read_block [OF assms(1) l assms(3) assms(4) [symmetric] assms(5)] unfolding assms(6) by blast
  have "ofs_read_block_fixup ops (Some c) (Some b0) vbn (blk_id b) (length b) =
      Some (0, Some (c\<lparr>bc_disk := d\<rparr>), Some (fixed_up b))"
    using d(1) assms(2) verify_wf [OF assms(2)] by (simp add: ofs_read_block_fixup_def fixup_on_disk)
  with d(2,3) show ?thesis by blast
qed

lemma read_fixup_torn:
  assumes "inv (bc_disk c)" "n < 2 ^ 31" "length b0 = n"
    "vbn_off c vbn + n \<le> length (content (bc_disk c))"
    "bad_slot oid (rd (content (bc_disk c)) (vbn_off c vbn) n)"
  shows "\<exists>c' b'. ofs_read_block_fixup ops (Some c) (Some b0) vbn oid n =
      Some (- FILE_BLOCK_ERR_INVALID_OBJECT, Some c', Some b')"
proof -
  let ?g = "rd (content (bc_disk c)) (vbn_off c vbn) n"
  have l: "length ?g = n" "18 \<le> n" using assms(4,5) by (simp_all add: bad_slot_def)
  then have "0 < n" by simp
  then obtain d where d: "ofs_read_block ops c b0 n 0 vbn = Some (int n, ?g, c\<lparr>bc_disk := d\<rparr>)"
    using read_block [OF assms(1) _ assms(2) assms(3) [symmetric] assms(4)] by blast
  show ?thesis
  proof (cases "verify_block ?g oid n < 0")
    case True
    then have "verify_block ?g oid n = - FILE_BLOCK_ERR_INVALID_OBJECT"
      by (auto simp: verify_block_def split: if_splits)
    then show ?thesis using d by (simp add: ofs_read_block_fixup_def)
  next
    case False
    then have "alloc_size ?g = n" by (auto simp: verify_block_def split: if_splits)
    moreover have "get16 ?g (n - 2) \<noteq> seq_no ?g" using assms(5) l False by (simp add: bad_slot_def)
    ultimately have "fixup_block ?g = Some (- FILE_BLOCK_ERR_INVALID_OBJECT, ?g)"
      using l by (simp add: fixup_block_def Let_def)
    then show ?thesis using d False by (simp add: ofs_read_block_fixup_def)
  qed
qed

text \<open>Ping-pong blocks.\<close>

lemma update_pingpong:
  assumes "inv (bc_disk c)" and pp: "pingpong (content (bc_disk c)) c vbn oid asize q p V"
    and cnt: "cnt = unat (bc_block_size c) div asize" and v: "version oid asize (Suc (q * cnt + p)) b"
  shows "\<exists>d. ofs_update_block_pingpong ops (Some c) (Some b) vbn =
      Some (0, Some (c\<lparr>bc_disk := d\<rparr>), Some (fixed_up b)) \<and> inv d \<and>
    pingpong (content d) c vbn oid asize (next_round cnt q p) (next_slot cnt p) (V(Suc (q * cnt + p) := b))"
proof -
  let ?bs = "unat (bc_block_size c)" and ?m = "content (bc_disk c)" and ?j = "next_slot cnt p"
  have s: "slots oid asize cnt (rd ?m (vbn_off c vbn) ?bs) q p V" and bnd: "vbn_off c vbn + ?bs \<le> length ?m"
    "?bs < 2 ^ 31" "512 dvd asize" using pp by (simp_all add: pingpong_def Let_def cnt)
  obtain off where off: "slot_off c (on_disk b) = Some off" "unat off = asize * ?j"
    using pingpong_slot_off [OF s cnt v] by auto
  have b: "wf_blk b" "length b = asize" "alloc_size b = asize" "0 < asize" "alloc_size (on_disk b) = asize"
      "alloc_size (fixed_up b) = asize"
    using v by (auto simp: version_def wf_blk_def)
  have p: "?j < cnt" using s by (auto simp: next_slot_def slots_def)
  have "asize * Suc ?j \<le> asize * cnt" using p by (intro mult_le_mono) auto
  also have "\<dots> \<le> ?bs" by (simp add: cnt)
  finally have fits: "asize * ?j + asize \<le> ?bs" by simp
  have lba: "512 * unat (drop_bit 9 off) = asize * ?j"
    using bnd(3) off(2) by (simp add: drop_bit_eq_div unat_div)
  obtain d where d: "ofs_update_block ops c (on_disk b) asize (drop_bit 9 off) vbn = Some (int asize, c\<lparr>bc_disk := d\<rparr>)"
    "inv d" "content d = wr ?m (vbn_off c vbn + asize * ?j) (on_disk b)"
    using update_block [of c asize "on_disk b" vbn "drop_bit 9 off"] assms(1) bnd(1,2) b fits by (auto simp: lba)
  have "check_block (Some c) (Some b) = 0"
    using b fits by (auto simp: check_block_def wf_blk_def)
  then have "ofs_update_block_pingpong ops (Some c) (Some b) vbn =
      Some (0, Some (c\<lparr>bc_disk := d\<rparr>), Some (fixed_up b))"
    using off(1) d(1) b fits bnd(2)
    by (simp add: ofs_update_block_pingpong_def assemble_on_disk fixup_on_disk int32_small Let_def)
  moreover have "rd (content d) (vbn_off c vbn) ?bs = wr (rd ?m (vbn_off c vbn) ?bs) (asize * ?j) (on_disk b)"
    unfolding d(3) by (rule rd_wr_window) (use b fits bnd in simp_all)
  then have "pingpong (content d) c vbn oid asize (next_round cnt q p) ?j (V(Suc (q * cnt + p) := b))"
    using slots_step [OF s v] bnd d(3) b fits by (simp add: pingpong_def Let_def cnt)
  ultimately show ?thesis using d(2) by blast
qed

lemma read_pingpong:
  assumes "inv (bc_disk c)" "malloc (unat (bc_block_size c))"
    and bnd: "vbn_off c vbn + unat (bc_block_size c) \<le> length (content (bc_disk c))"
      "unat (bc_block_size c) < 2 ^ 31" "0 < asize" "asize \<le> unat (bc_block_size c)"
    and R: "R = rd (content (bc_disk c)) (vbn_off c vbn) (unat (bc_block_size c))"
    and last: "get_last_correct_block R oid asize (unat (bc_block_size c) div asize) =
      Some (Some i, take (asize * i) R @ fixed_up b @ rest)"
    and b: "wf_blk b" "length b \<le> length b0" "asize * i + asize \<le> unat (bc_block_size c)"
  shows "\<exists>d. ofs_read_block_pingpong ops malloc mem (Some c) (Some b0) vbn oid asize =
      Some (0, Some (c\<lparr>bc_disk := d\<rparr>), Some (wr b0 0 (take (real_size b) (fixed_up b)))) \<and>
    inv d \<and> content d = content (bc_disk c)"
proof -
  let ?bs = "unat (bc_block_size c)"
  have "0 < ?bs" "?bs = length (map mem [0..<?bs])" using bnd by simp_all
  with read_block [OF assms(1) _ bnd(2) _ bnd(1)]
  obtain d where d: "ofs_read_block ops c (map mem [0..<?bs]) ?bs 0 vbn = Some (int ?bs, R, c\<lparr>bc_disk := d\<rparr>)"
    "inv d" "content d = content (bc_disk c)" unfolding R by blast
  have "length R = ?bs" unfolding R using bnd(1) by simp
  then have off: "slot_at asize i = asize * i" "length (take (asize * i) R) = asize * i"
    using b(3) bnd(2) by (simp_all add: slot_at_def)
  have tmp: "drop (slot_at asize i) (take (asize * i) R @ fixed_up b @ rest) = fixed_up b @ rest"
    unfolding off(1) using append_eq_take_drop [OF off(2)] by (rule conjunct2)
  have r: "real_size b \<le> length b" "18 \<le> length b" using b(1) by (simp_all add: wf_blk_def)
  then have "real_size (fixed_up b @ rest) = real_size b" using b(1) by simp
  moreover have "take (real_size b) (fixed_up b @ rest) = take (real_size b) (fixed_up b)"
    using r b(1) by simp
  moreover have "real_size b \<le> length (fixed_up b @ rest)" using r b(1) by simp
  ultimately have "ofs_read_block_pingpong ops malloc mem (Some c) (Some b0) vbn oid asize =
      Some (0, Some (c\<lparr>bc_disk := d\<rparr>), Some (wr b0 0 (take (real_size b) (fixed_up b))))"
    using d(1) last tmp b r bnd assms(2)
    by (simp add: ofs_read_block_pingpong_def Let_def del: drop_append take_append of_nat_unat length_append length_drop)
  with d(2,3) show ?thesis by blast
qed

end

subsection \<open>The file the container lives in\<close>

definition file_content :: "cfile option \<Rightarrow> u8 list" where
  "file_content hnd = (case hnd of None \<Rightarrow> [] | Some f \<Rightarrow> cf_bytes f)"

definition file_ok :: "stdio \<Rightarrow> cfile option \<Rightarrow> bool" where
  "file_ok so hnd \<longleftrightarrow> stdio_ok so \<and> hnd \<noteq> None \<and> length (file_content hnd) < 2 ^ 63"

lemma byte_off:
  fixes lba :: u64
  assumes "512 * unat lba < 2 ^ 63"
  shows "unat (push_bit 9 lba) = 512 * unat lba" "0 \<le> sint (push_bit 9 lba)"
proof -
  have "push_bit 9 lba = lba * 512" by (simp add: push_bit_eq_mult)
  moreover have "unat (lba * 512) = unat lba * 512" using assms by (simp add: unat_word_ariths)
  ultimately show u: "unat (push_bit 9 lba) = 512 * unat lba" by simp
  have "push_bit 9 lba = word_of_nat (512 * unat lba)"
    unfolding word_unat_eq_iff u using assms by (simp add: unat_of_nat del: of_nat_mult)
  then have "sint (push_bit 9 lba) = int (512 * unat lba)" using sint_small64 [OF assms] by simp
  then show "0 \<le> sint (push_bit 9 lba)" by simp
qed

interpretation file_disk: disk "os_disk so" file_content "file_ok so" for so
proof
  fix d assume "file_ok so d"
  then show "length (file_content d) < 2 ^ 63" by (simp add: file_ok_def)
next
  fix d and bs :: "u8 list" and lba :: u64
  assume a: "file_ok so d" "0 < length bs" "length bs < 2 ^ 31" "512 * unat lba + length bs \<le> length (file_content d)"
  then obtain f where f: "d = Some f" by (auto simp: file_ok_def)
  have l: "512 * unat lba < 2 ^ 63" using a by (simp add: file_ok_def)
  from os_file_pwrite_ok [of so bs "push_bit 9 lba" f] a f byte_off [OF l]
  show "\<exists>d'. dk_pwrite (os_disk so) d bs lba = (int (length bs), d') \<and> file_ok so d' \<and>
      file_content d' = wr (file_content d) (512 * unat lba) bs"
    by (simp add: os_disk_def file_ok_def file_content_def)
next
  fix d and n :: nat and lba :: u64
  assume a: "file_ok so d" "0 < n" "n < 2 ^ 31" "512 * unat lba + n \<le> length (file_content d)"
  then obtain f where f: "d = Some f" by (auto simp: file_ok_def)
  have l: "512 * unat lba < 2 ^ 63" using a by (simp add: file_ok_def)
  from os_file_pread_ok [of so n "push_bit 9 lba" f] a f byte_off [OF l]
  show "\<exists>d'. dk_pread (os_disk so) d n lba = (int n, rd (file_content d) (512 * unat lba) n, d') \<and>
      file_ok so d' \<and> file_content d' = file_content d"
    by (auto simp: os_disk_def file_ok_def file_content_def)
qed

section \<open>A sample container\<close>

text \<open>Two slots of 512 bytes in a disk block of 1024 bytes, on a file of 4096 bytes.\<close>

definition sample_stdio :: stdio where
  "sample_stdio = \<lparr>so_seek = (\<lambda>_ _. True), so_write = (\<lambda>_ n. n), so_read = (\<lambda>_ n. n)\<rparr>"

definition sample_ct :: "cfile option blk_ct" where
  "sample_ct = \<lparr>bc_disk = Some \<lparr>cf_bytes = replicate 4096 0, cf_pos = 0\<rparr>, bc_block_size = 1024,
     bc_sectors_per_block = 2\<rparr>"

definition sample_blk :: "nat \<Rightarrow> u8 list" where
  "sample_blk n = nat_le 4 7 @ nat_le 4 512 @ nat_le 4 512 @ nat_le 2 n @ replicate 498 9"

lemma sample_ct: "file_ok sample_stdio (bc_disk sample_ct)" "bc_block_size sample_ct = 1024"
  "file_content (bc_disk sample_ct) = replicate 4096 0" "vbn_off sample_ct 1 = 1024"
  by (simp_all add: file_ok_def stdio_ok_def sample_stdio_def file_content_def sample_ct_def vbn_off_def)

lemma sample_blk:
  "length (sample_blk n) = 512" "get32 (sample_blk n) 0 = 7" "get32 (sample_blk n) 4 = 512"
  "get32 (sample_blk n) 8 = 512" "get16 (sample_blk n) 12 = word_of_nat n"
proof -
  show "length (sample_blk n) = 512" by (simp add: sample_blk_def)
  show "get32 (sample_blk n) 0 = 7" "get32 (sample_blk n) 4 = 512" "get32 (sample_blk n) 8 = 512"
    by (simp_all add: sample_blk_def get32_def rd_def le_nat_nat_le del: nat_le.simps)
  have "rd (sample_blk n) 12 2 = nat_le 2 n" by (simp add: sample_blk_def rd_def del: nat_le.simps)
  moreover have "(word_of_nat (n mod 65536) :: u16) = word_of_nat n"
    by (rule word_unat_eq_iff [THEN iffD2]) (simp add: unat_of_nat)
  ultimately show "get16 (sample_blk n) 12 = word_of_nat n" by (simp add: get16_def le_nat_nat_le)
qed

lemma sample_version: "version 7 512 k (sample_blk k)" "wf_blk (sample_blk k)"
  by (simp_all add: version_def wf_blk_def sample_blk)

section \<open>Properties\<close>

text \<open>C27. A block written with \<^verbatim>\<open>ofs_update_block_fixup\<close> is read back by
  \<^verbatim>\<open>ofs_read_block_fixup\<close> as it was, its sequence number advanced by one in both
  copies and the last two bytes restored.\<close>

theorem block_fixup_roundtrip:
  assumes "file_ok so (bc_disk c)" "wf_blk b" "length b < 2 ^ 31" "length b0 = length b"
    "vbn_off c vbn + length b \<le> length (file_content (bc_disk c))"
  shows "\<exists>c1 c2.
    ofs_update_block_fixup (os_disk so) (Some c) (Some b) vbn = Some (int (length b), Some c1, Some (fixed_up b)) \<and>
    ofs_read_block_fixup (os_disk so) (Some c1) (Some b0) vbn (blk_id b) (length b) =
      Some (0, Some c2, Some (fixed_up b))"
proof -
  let ?m = "file_content (bc_disk c)"
  obtain d where d: "ofs_update_block_fixup (os_disk so) (Some c) (Some b) vbn =
      Some (int (length b), Some (c\<lparr>bc_disk := d\<rparr>), Some (fixed_up b))" "file_ok so d"
    "file_content d = wr ?m (vbn_off c vbn) (on_disk b)"
    using file_disk.update_fixup [OF assms(1,2,3,5)] by blast
  let ?c = "c\<lparr>bc_disk := d\<rparr>"
  have off: "vbn_off ?c vbn = vbn_off c vbn" by (simp add: vbn_off_def)
  have "rd (file_content d) (vbn_off c vbn) (length b) = on_disk b"
    unfolding d(3) by (rule rd_wr_same) (use assms in simp_all)
  then have "\<exists>d'. ofs_read_block_fixup (os_disk so) (Some ?c) (Some b0) vbn (blk_id b) (length b) =
      Some (0, Some (?c\<lparr>bc_disk := d'\<rparr>), Some (fixed_up b)) \<and> file_ok so d' \<and>
      file_content d' = file_content (bc_disk ?c)"
    by (intro file_disk.read_fixup) (use assms d off in simp_all)
  with d(1) show ?thesis by blast
qed

lemma block_fixup_roundtrip_witness:
  "\<exists>c1 c2.
    ofs_update_block_fixup (os_disk sample_stdio) (Some sample_ct) (Some (sample_blk 4)) 1 =
      Some (512, Some c1, Some (fixed_up (sample_blk 4))) \<and>
    ofs_read_block_fixup (os_disk sample_stdio) (Some c1) (Some (replicate 512 0)) 1 7 512 =
      Some (0, Some c2, Some (fixed_up (sample_blk 4)))"
  using block_fixup_roundtrip [of sample_stdio sample_ct "sample_blk 4" "replicate 512 0" 1]
    sample_version [of 4] sample_blk [of 4] sample_ct by simp

text \<open>C28. A write that reached only a prefix of the block (at least the sequence number, not the
  last two bytes) over a block with another sequence number is reported by the next read.\<close>

theorem torn_block_detected:
  assumes "file_ok so (bc_disk c)" "wf_blk b" "wf_blk b'" "length b' = length b" "length b < 2 ^ 31"
    "length b0 = length b" "vbn_off c vbn + length b \<le> length (file_content (bc_disk c))"
    and torn: "rd (file_content (bc_disk c)) (vbn_off c vbn) (length b) =
      take k (on_disk b) @ drop k (on_disk b')" "14 \<le> k" "k \<le> length b - 2"
    and "seq_no b \<noteq> seq_no b'"
  shows "\<exists>c' b1. ofs_read_block_fixup (os_disk so) (Some c) (Some b0) vbn oid (length b) =
    Some (- FILE_BLOCK_ERR_INVALID_OBJECT, Some c', Some b1)"
proof -
  let ?t = "take k (on_disk b) @ drop k (on_disk b')"
  obtain n where n: "length b = n + 18" using wf_blk_length [OF assms(2)] by auto
  have len: "length (on_disk b) = n + 18" "length (on_disk b') = n + 18" using assms n by simp_all
  have hd: "rd ?t off m = rd (on_disk b) off m" if "off + m \<le> k" for off m
    using that len torn(3) n by (simp add: rd_def drop_take min_def)
  have tl: "rd ?t (16 + n) 2 = rd (on_disk b') (16 + n) 2"
    using len torn(3) n by (simp add: rd_def)
  have "blk_id ?t = blk_id (on_disk b)" using hd [of 0 4] torn(2) by (simp add: get32_def)
  moreover have "seq_no ?t = seq_no (on_disk b)" using hd [of 12 2] torn(2) by (simp add: get16_def)
  moreover have "get16 ?t (16 + n) = get16 (on_disk b') (16 + n)" using tl by (simp add: get16_def)
  moreover have "get16 (on_disk b') (16 + n) = seq_no b'"
    using assms(4) n by (simp add: on_disk_def)
  moreover have "length ?t = n + 18" using len torn(3) n by simp
  ultimately have "bad_slot oid ?t" using assms(2,11) by (simp add: bad_slot_def) (simp add: wf_blk_def)
  then show ?thesis
    using assms(1,5,6,7) torn(1) by (intro file_disk.read_fixup_torn) simp_all
qed

definition torn_ct :: "cfile option blk_ct" where
  "torn_ct = sample_ct\<lparr>bc_disk := Some \<lparr>cf_bytes = replicate 1024 0 @
    take 256 (on_disk (sample_blk 5)) @ drop 256 (on_disk (sample_blk 4)) @ replicate 512 0, cf_pos = 0\<rparr>\<rparr>"

lemma torn_ct: "file_ok sample_stdio (bc_disk torn_ct)" "vbn_off torn_ct 1 = 1024"
    "length (file_content (bc_disk torn_ct)) = 2048" "rd (file_content (bc_disk torn_ct)) 1024 512 =
      take 256 (on_disk (sample_blk 5)) @ drop 256 (on_disk (sample_blk 4))"
proof -
  have l: "length (on_disk (sample_blk n)) = 512" for n
    using sample_version(2) [of n] sample_blk(1) [of n] by simp
  show "file_ok sample_stdio (bc_disk torn_ct)" "vbn_off torn_ct 1 = 1024"
    "length (file_content (bc_disk torn_ct)) = 2048" "rd (file_content (bc_disk torn_ct)) 1024 512 =
      take 256 (on_disk (sample_blk 5)) @ drop 256 (on_disk (sample_blk 4))"
    by (simp_all add: torn_ct_def file_ok_def stdio_ok_def sample_stdio_def file_content_def sample_ct_def
        vbn_off_def rd_def l)
qed

lemma torn_block_detected_witness:
  "\<exists>c' b1. ofs_read_block_fixup (os_disk sample_stdio) (Some torn_ct) (Some (replicate 512 0)) 1 7 512 =
    Some (-300005, Some c', Some b1)"
  using torn_block_detected [of sample_stdio torn_ct "sample_blk 5" "sample_blk 4" "replicate 512 0" 1 256 7]
    sample_version(2) sample_blk torn_ct by simp

text \<open>C26. \<^verbatim>\<open>ofs_update_block_pingpong_init\<close> lays a block with sequence number 0 out as the
  first of a series of ping-pong updates, the other slots blank.\<close>

theorem pingpong_init:
  assumes "file_ok so (bc_disk c)" "malloc (unat (bc_block_size c))" "version oid asize 0 b"
    "real_size b = asize" "512 dvd asize" "asize \<le> unat (bc_block_size c)" "unat (bc_block_size c) < 2 ^ 31"
    "cnt = unat (bc_block_size c) div asize" "cnt dvd 2 ^ 16" "cnt < 2 ^ 16"
    "vbn_off c vbn + unat (bc_block_size c) \<le> length (file_content (bc_disk c))"
  shows "\<exists>d. ofs_update_block_pingpong_init (os_disk so) malloc (Some c) (Some b) vbn =
      Some (0, Some (c\<lparr>bc_disk := d\<rparr>), Some (fixed_up b)) \<and> file_ok so d \<and>
    pingpong (file_content d) c vbn oid asize 0 0 (\<lambda>_. b)"
proof -
  let ?bs = "unat (bc_block_size c)" and ?m = "file_content (bc_disk c)"
  let ?R = "wr (replicate ?bs 0) 0 (on_disk b)"
  have b: "wf_blk b" "length b = asize" "alloc_size b = asize" "0 < asize" "real_size b = asize"
      "seq_no b = 0" "length (on_disk b) = asize"
    using assms(3,4) by (auto simp: version_def wf_blk_def)
  have cnt: "0 < cnt" "asize * cnt \<le> ?bs" using b(4) assms(6,8) by (auto simp: div_greater_zero_iff)
  have off: "slot_off c (on_disk b) = Some 0" using b by (simp add: slot_off_def)
  obtain d where d: "ofs_update_block (os_disk so) c ?R ?bs 0 vbn = Some (int ?bs, c\<lparr>bc_disk := d\<rparr>)"
    "file_ok so d" "file_content d = wr ?m (vbn_off c vbn) ?R"
    using file_disk.update_block [of so c ?bs ?R vbn 0] assms(1,6,7,11) b by auto
  have "ofs_update_block_pingpong_init (os_disk so) malloc (Some c) (Some b) vbn =
      Some (0, Some (c\<lparr>bc_disk := d\<rparr>), Some (fixed_up b))"
    using off d(1) b assms(2,6,7)
    by (simp add: ofs_update_block_pingpong_init_def check_block_def assemble_on_disk fixup_on_disk
        int32_small Let_def del: of_nat_unat)
  moreover have "rd (file_content d) (vbn_off c vbn) ?bs = ?R"
    unfolding d(3) by (rule rd_wr_same) (use b assms in simp_all)
  moreover have "slots oid asize cnt ?R 0 0 (\<lambda>_. b)"
  proof -
    have "get32 ?R (asize * i) = 0" if "i < cnt" "0 < i" for i
    proof -
      have "asize * Suc i \<le> asize * cnt" using that(1) by (intro mult_le_mono) auto
      then have le: "asize * i + asize \<le> ?bs" using cnt by simp
      have "18 \<le> asize" using b(1,2) by (simp add: wf_blk_def)
      moreover have "asize \<le> asize * i" using that(2) by simp
      ultimately have "rd ?R (asize * i) 4 = rd (replicate ?bs 0) (asize * i) 4"
        using b(7) le assms(6) by (intro rd_wr_other) auto
      also have "\<dots> = replicate 4 0" using \<open>18 \<le> asize\<close> le by (simp add: rd_def)
      finally show ?thesis by (simp add: get32_def)
    qed
    then show ?thesis using b cnt assms(3,6,7,9,10)
      by (auto simp: slots_def rd_wr_same)
  qed
  ultimately have "pingpong (file_content d) c vbn oid asize 0 0 (\<lambda>_. b)"
    using d(3) assms(5,6,7,8,11) b by (simp add: pingpong_def Let_def)
  with d(2) show ?thesis
    using \<open>ofs_update_block_pingpong_init (os_disk so) malloc (Some c) (Some b) vbn =
      Some (0, Some (c\<lparr>bc_disk := d\<rparr>), Some (fixed_up b))\<close> by blast
qed

lemma pingpong_init_witness:
  "\<exists>d. ofs_update_block_pingpong_init (os_disk sample_stdio) (\<lambda>_. True) (Some sample_ct) (Some (sample_blk 0)) 1 =
      Some (0, Some (sample_ct\<lparr>bc_disk := d\<rparr>), Some (fixed_up (sample_blk 0))) \<and> file_ok sample_stdio d \<and>
    pingpong (file_content d) sample_ct 1 7 512 0 0 (\<lambda>_. sample_blk 0)"
  by (rule pingpong_init [where cnt = 2])
    (simp_all only: sample_version sample_ct sample_blk length_replicate, simp_all)

text \<open>The sample container after the first write.\<close>

definition sample_ct1 :: "cfile option blk_ct" where
  "sample_ct1 = sample_ct\<lparr>bc_disk := Some \<lparr>cf_bytes = replicate 1024 0 @ on_disk (sample_blk 0) @
     replicate 2560 0, cf_pos = 0\<rparr>\<rparr>"

lemma sample_ct1: "file_ok sample_stdio (bc_disk sample_ct1)" "unat (bc_block_size sample_ct1) = 1024"
  "vbn_off sample_ct1 1 = 1024" "length (file_content (bc_disk sample_ct1)) = 4096"
  "rd (file_content (bc_disk sample_ct1)) 1024 1024 = on_disk (sample_blk 0) @ replicate 512 0"
  "pingpong (file_content (bc_disk sample_ct1)) sample_ct1 1 7 512 0 0 (\<lambda>_. sample_blk 0)"
proof -
  have l: "length (on_disk (sample_blk 0)) = 512"
    using sample_version(2) [of 0] sample_blk(1) [of 0] by simp
  show a: "file_ok sample_stdio (bc_disk sample_ct1)" "unat (bc_block_size sample_ct1) = 1024"
    "vbn_off sample_ct1 1 = 1024" "length (file_content (bc_disk sample_ct1)) = 4096"
    and r: "rd (file_content (bc_disk sample_ct1)) 1024 1024 = on_disk (sample_blk 0) @ replicate 512 0"
    using l by (simp_all add: sample_ct1_def file_ok_def stdio_ok_def sample_stdio_def file_content_def
        sample_ct_def vbn_off_def rd_def)
  have i: "i = 1" if "i < 2" "0 < i" for i :: nat using that by auto
  have sl: "rd (on_disk (sample_blk 0) @ replicate 512 0) 0 512 = on_disk (sample_blk 0)"
    "get32 (on_disk (sample_blk 0) @ replicate 512 0) 512 = 0"
    using l by (simp_all add: rd_def get32_def)
  have "slots 7 512 2 (on_disk (sample_blk 0) @ replicate 512 0) 0 0 (\<lambda>_. sample_blk 0)"
    using sl l sample_version [of 0] by (auto simp: slots_def dest: i)
  with a r show "pingpong (file_content (bc_disk sample_ct1)) sample_ct1 1 7 512 0 0 (\<lambda>_. sample_blk 0)"
    by (simp add: pingpong_def Let_def)
qed

text \<open>C14. Each later \<^verbatim>\<open>ofs_update_block_pingpong\<close> (the caller's copy carries the next
  sequence number, as the last update left it) overwrites the oldest slot and keeps the series.\<close>

theorem pingpong_update:
  assumes "file_ok so (bc_disk c)" "pingpong (file_content (bc_disk c)) c vbn oid asize q p V"
    "cnt = unat (bc_block_size c) div asize" "version oid asize (Suc (q * cnt + p)) b"
  shows "\<exists>d. ofs_update_block_pingpong (os_disk so) (Some c) (Some b) vbn =
      Some (0, Some (c\<lparr>bc_disk := d\<rparr>), Some (fixed_up b)) \<and> file_ok so d \<and>
    pingpong (file_content d) c vbn oid asize (next_round cnt q p) (next_slot cnt p)
      (V(Suc (q * cnt + p) := b)) \<and>
    seq_no (fixed_up b) = word_of_nat (Suc (Suc (q * cnt + p)))"
  using file_disk.update_pingpong [OF assms] assms(4) by (auto simp: version_def)

lemma pingpong_update_witness:
  "\<exists>d. ofs_update_block_pingpong (os_disk sample_stdio) (Some sample_ct1) (Some (sample_blk 1)) 1 =
      Some (0, Some (sample_ct1\<lparr>bc_disk := d\<rparr>), Some (fixed_up (sample_blk 1))) \<and>
    pingpong (file_content d) sample_ct1 1 7 512 0 1 ((\<lambda>_. sample_blk 0)(1 := sample_blk 1)) \<and>
    seq_no (fixed_up (sample_blk 1)) = 2"
  using pingpong_update [OF sample_ct1(1,6), of 2 "sample_blk 1"] sample_version [of 1] sample_ct1(2)
  by (auto simp: next_round_def next_slot_def)

text \<open>C13. \<^verbatim>\<open>ofs_read_block_pingpong\<close> returns the last update of the series, however
  often the 16-bit sequence number has wrapped, its sequence number advanced for the next one.\<close>

theorem pingpong_read_newest:
  assumes "file_ok so (bc_disk c)" "malloc (unat (bc_block_size c))"
    "pingpong (file_content (bc_disk c)) c vbn oid asize q p V"
    "cnt = unat (bc_block_size c) div asize" "asize \<le> length b0"
  shows "\<exists>d. ofs_read_block_pingpong (os_disk so) malloc mem (Some c) (Some b0) vbn oid asize =
      Some (0, Some (c\<lparr>bc_disk := d\<rparr>),
        Some (wr b0 0 (take (real_size (V (q * cnt + p))) (fixed_up (V (q * cnt + p))))))"
proof -
  let ?bs = "unat (bc_block_size c)" and ?m = "file_content (bc_disk c)"
  let ?R = "rd ?m (vbn_off c vbn) ?bs"
  have s: "slots oid asize cnt ?R q p V" and bnd: "vbn_off c vbn + ?bs \<le> length ?m" "?bs < 2 ^ 31"
    using assms(3,4) by (simp_all add: pingpong_def Let_def)
  note l = slots_last [OF s]
  have p: "p < cnt" using s by (simp add: slots_def)
  have "asize * Suc p \<le> asize * cnt" using p by (intro mult_le_mono) auto
  also have "\<dots> \<le> ?bs" by (simp add: assms(4))
  finally have fits: "asize * p + asize \<le> ?bs" by simp
  show ?thesis
    using file_disk.read_pingpong [of so c malloc vbn asize ?R oid p "V (q * cnt + p)"
        "drop (asize * p + asize) ?R" b0 mem] assms(1,2,5) bnd l(2,3,5) fits slots_read [OF s] assms(4)
    by auto
qed

lemma pingpong_read_newest_witness:
  "\<exists>d. ofs_read_block_pingpong (os_disk sample_stdio) (\<lambda>_. True) (\<lambda>_. 3) (Some sample_ct1) (Some (replicate 512 0)) 1 7 512 =
      Some (0, Some (sample_ct1\<lparr>bc_disk := d\<rparr>), Some (fixed_up (sample_blk 0)))"
  using pingpong_read_newest [OF sample_ct1(1) _ sample_ct1(6), of "\<lambda>_. True" 2 "replicate 512 0" "\<lambda>_. 3"]
    sample_ct1(2) sample_version [of 0] sample_blk [of 0] by (simp add: wr_def)

text \<open>C3. When the next update is torn, so that the slot it goes to holds bytes that are no valid
  block (but not a zero identifier), \<^verbatim>\<open>ofs_read_block_pingpong\<close> still returns the
  last complete update.\<close>

theorem pingpong_survives_torn_update:
  assumes "file_ok so (bc_disk c)" "malloc (unat (bc_block_size c))"
    "pingpong m c vbn oid asize q p V" "cnt = unat (bc_block_size c) div asize" "1 < cnt"
    "asize \<le> length b0" "length g = asize" "bad_slot oid g"
    "file_content (bc_disk c) = wr m (vbn_off c vbn + asize * next_slot cnt p) g"
  shows "\<exists>d. ofs_read_block_pingpong (os_disk so) malloc mem (Some c) (Some b0) vbn oid asize =
      Some (0, Some (c\<lparr>bc_disk := d\<rparr>),
        Some (wr b0 0 (take (real_size (V (q * cnt + p))) (fixed_up (V (q * cnt + p))))))"
proof -
  let ?bs = "unat (bc_block_size c)" and ?m = "file_content (bc_disk c)" and ?j = "next_slot cnt p"
  let ?R = "rd m (vbn_off c vbn) ?bs" and ?R' = "rd ?m (vbn_off c vbn) ?bs"
  have s: "slots oid asize cnt ?R q p V" and bnd: "vbn_off c vbn + ?bs \<le> length m" "?bs < 2 ^ 31"
    using assms(3,4) by (simp_all add: pingpong_def Let_def)
  note l = slots_last [OF s]
  have p: "p < cnt" "?j < cnt" using s by (auto simp: slots_def next_slot_def)
  have fits: "asize * i + asize \<le> ?bs" if "i < cnt" for i
  proof -
    have "asize * Suc i \<le> asize * cnt" using that by (intro mult_le_mono) auto
    also have "\<dots> \<le> ?bs" by (simp add: assms(4))
    finally show ?thesis by simp
  qed
  have R': "?R' = wr ?R (asize * ?j) g"
    unfolding assms(9) by (rule rd_wr_window) (use fits [OF p(2)] bnd assms(7) in simp_all)
  have len: "length ?R = ?bs" "length ?m = length m" using bnd fits [OF p(2)] assms(7) by (simp_all add: assms(9))
  have cnt: "asize * cnt \<le> ?bs" by (simp add: assms(4))
  have "get_last_correct_block ?R' oid asize cnt =
    Some (Some p, take (asize * p) ?R' @ fixed_up (V (q * cnt + p)) @ drop (asize * p + asize) ?R')"
  proof (rule torn_read [OF s assms(5)])
    show "length ?R' = length ?R" using bnd len by simp
    show "rd ?R' (asize * i) asize = rd ?R (asize * i) asize" if "i < cnt" "i \<noteq> ?j" for i
      unfolding R' by (rule other_slot [OF that(2,1) p(2)]) (use cnt len assms(7) in simp_all)
    show "bad_slot oid (rd ?R' (asize * ?j) asize)"
      unfolding R' using fits [OF p(2)] len assms(7,8) by (simp add: rd_wr_same)
  qed
  then show ?thesis
    using file_disk.read_pingpong [of so c malloc vbn asize ?R' oid p "V (q * cnt + p)"
        "drop (asize * p + asize) ?R'" b0 mem] assms(1,2,4,6) bnd len l(2,3,5) fits [OF p(1)] by auto
qed

definition torn_ct1 :: "cfile option blk_ct" where
  "torn_ct1 = sample_ct1\<lparr>bc_disk := Some \<lparr>cf_bytes =
     wr (file_content (bc_disk sample_ct1)) 1536 (replicate 512 1), cf_pos = 0\<rparr>\<rparr>"

lemma pingpong_survives_torn_update_witness:
  "\<exists>d. ofs_read_block_pingpong (os_disk sample_stdio) (\<lambda>_. True) (\<lambda>_. 3) (Some torn_ct1) (Some (replicate 512 0)) 1 7 512 =
      Some (0, Some (torn_ct1\<lparr>bc_disk := d\<rparr>), Some (fixed_up (sample_blk 0)))"
proof -
  have d: "file_content (bc_disk torn_ct1) = wr (file_content (bc_disk sample_ct1)) 1536 (replicate 512 1)"
    by (simp add: torn_ct1_def file_content_def)
  have o: "unat (bc_block_size torn_ct1) = 1024" "vbn_off torn_ct1 1 = 1024"
    "pingpong m torn_ct1 1 7 512 0 0 V \<longleftrightarrow> pingpong m sample_ct1 1 7 512 0 0 V" for m V
    by (simp_all add: torn_ct1_def sample_ct1_def sample_ct_def vbn_off_def pingpong_def)
  have "length (file_content (bc_disk torn_ct1)) = 4096"
    unfolding d by (subst length_wr) (simp_all only: sample_ct1(4) length_replicate)
  moreover have "bc_disk torn_ct1 \<noteq> None" by (simp add: torn_ct1_def)
  moreover have "stdio_ok sample_stdio" by (simp add: stdio_ok_def sample_stdio_def)
  ultimately have f: "file_ok sample_stdio (bc_disk torn_ct1)" by (simp add: file_ok_def)
  have "replicate 4 1 = [1, 1, 1, 1 :: u8]" by (simp add: numeral_eq_Suc)
  then have "bad_slot 7 (replicate 512 1)"
    by (simp add: bad_slot_def verify_block_def get32_def rd_def)
  then show ?thesis
    using pingpong_survives_torn_update [OF f _ o(3) [THEN iffD2, OF sample_ct1(6)], of "\<lambda>_. True" 2 "replicate 512 0"
        "replicate 512 1" "\<lambda>_. 3"] sample_version(2) [of 0] sample_blk(1,4) [of 0]
    by (simp add: o(1,2) d next_slot_def wr_def [of "replicate 512 0"])
qed

end
