(* ===== verification/Avl.thy ===== *)
theory Avl imports Ofs_Prelude
begin

text \<open>
  The AVL tree of \<^verbatim>\<open>public/avl.c\<close>, at the level of its pointers. The store
  holds the fields of every \<^verbatim>\<open>avl_node\<close> (children, parent, child index, balance)
  and those of the tree. A child index 0/1 (left/right, before/after) is
  \<^term>\<open>False\<close>/\<^term>\<open>True\<close>; address 0 is the null pointer, and reading
  through it is \<^term>\<open>None\<close>. A datum and the node embedded in it have one address.
\<close>

section \<open>The state\<close>

type_synonym aptr = nat
type_synonym side = bool

record avl =
  av_root :: aptr
  av_numnodes :: nat
  av_compar :: "aptr \<Rightarrow> aptr \<Rightarrow> int"
  av_child :: "aptr \<Rightarrow> side \<Rightarrow> aptr"
  av_parent :: "aptr \<Rightarrow> aptr"
  av_xchild :: "aptr \<Rightarrow> side"
  av_balance :: "aptr \<Rightarrow> int"

definition AVL_SETPARENT :: "aptr \<Rightarrow> aptr \<Rightarrow> avl \<Rightarrow> avl" where
  "AVL_SETPARENT n p h = h\<lparr>av_parent := (av_parent h)(n := p)\<rparr>"

definition AVL_SETCHILD :: "aptr \<Rightarrow> side \<Rightarrow> avl \<Rightarrow> avl" where
  "AVL_SETCHILD n c h = h\<lparr>av_xchild := (av_xchild h)(n := c)\<rparr>"

definition AVL_SETBALANCE :: "aptr \<Rightarrow> int \<Rightarrow> avl \<Rightarrow> avl" where
  "AVL_SETBALANCE n b h = h\<lparr>av_balance := (av_balance h)(n := b)\<rparr>"

text \<open>The assignments \<^verbatim>\<open>n->avl_child[c] = m\<close> and, where the code tests the parent,
  \<^verbatim>\<open>parent->avl_child[c] = m\<close> or \<^verbatim>\<open>tree->avl_root = m\<close>.\<close>

definition set_child :: "aptr \<Rightarrow> side \<Rightarrow> aptr \<Rightarrow> avl \<Rightarrow> avl" where
  "set_child n c m h = h\<lparr>av_child := (av_child h)(n := (av_child h n)(c := m))\<rparr>"

definition set_down :: "aptr \<Rightarrow> side \<Rightarrow> aptr \<Rightarrow> avl \<Rightarrow> avl" where
  "set_down parent c m h = (if parent \<noteq> 0 then set_child parent c m h else h\<lparr>av_root := m\<rparr>)"

text \<open>\<^verbatim>\<open>if (n != NULL) { AVL_SETPARENT(n, p); AVL_SETCHILD(n, c); }\<close>\<close>

definition set_up :: "aptr \<Rightarrow> aptr \<Rightarrow> side \<Rightarrow> avl \<Rightarrow> avl" where
  "set_up n p c h = (if n \<noteq> 0 then AVL_SETCHILD n c (AVL_SETPARENT n p h) else h)"

definition avl_child2balance :: "side \<Rightarrow> int" where
  "avl_child2balance c = (if c then 1 else -1)"

definition avl_balance2child :: "int \<Rightarrow> side" where
  "avl_balance2child i = (i = 2)"

section \<open>Walking and searching\<close>

text \<open>\<^verbatim>\<open>for (; node->avl_child[c] != NULL; node = node->avl_child[c])\<close>\<close>

partial_function (option) descend :: "avl \<Rightarrow> side \<Rightarrow> aptr \<Rightarrow> aptr option" where
  [code]: "descend h c node =
     (if node = 0 then None
      else if av_child h node c \<noteq> 0 then descend h c (av_child h node c)
      else Some node)"

partial_function (option) ascend :: "avl \<Rightarrow> side \<Rightarrow> aptr \<Rightarrow> aptr option" where
  [code]: "ascend h right node =
     (let was_child = av_xchild h node;
          node = av_parent h node
      in if node = 0 then Some 0
         else if was_child = right then Some node
         else ascend h right node)"

definition avl_walk :: "avl \<Rightarrow> aptr \<Rightarrow> side \<Rightarrow> aptr option" where
  "avl_walk h oldnode left =
     (let node = oldnode; right = (\<not> left) in
      if node = 0 then Some 0
      else if av_child h node left \<noteq> 0 then descend h right (av_child h node left)
      else ascend h right node)"

partial_function (option) avl_end_loop :: "avl \<Rightarrow> side \<Rightarrow> aptr \<Rightarrow> aptr \<Rightarrow> aptr option" where
  [code]: "avl_end_loop h c node prev =
     (if node = 0 then Some prev else avl_end_loop h c (av_child h node c) node)"

definition avl_first :: "avl \<Rightarrow> aptr option" where
  "avl_first h = avl_end_loop h False (av_root h) 0"

definition avl_last :: "avl \<Rightarrow> aptr option" where
  "avl_last h = avl_end_loop h True (av_root h) 0"

text \<open>An \<^verbatim>\<open>avl_index_t\<close> is a node and a child index.\<close>

type_synonym avl_index = "aptr \<times> side"

definition avl_nearest :: "avl \<Rightarrow> avl_index \<Rightarrow> side \<Rightarrow> aptr option" where
  "avl_nearest h wh direction =
     (let (node, child) = wh in
      if node = 0 then Some 0
      else if child \<noteq> direction then Some node
      else avl_walk h node direction)"

text \<open>
  \<open>compare\<close> is the comparison the caller passes, or \<^term>\<open>None\<close> for the tree's own;
  the result holds the insertion point when the value is not found. A difference outside -1..1
  indexes \<^verbatim>\<open>avl_balance2child\<close> out of its bounds.
\<close>

partial_function (option) avl_find_loop ::
  "avl \<Rightarrow> (aptr \<Rightarrow> int) \<Rightarrow> aptr \<Rightarrow> aptr \<Rightarrow> side \<Rightarrow> (aptr \<times> avl_index option) option" where
  [code]: "avl_find_loop h diff node prev child =
     (if node = 0 then Some (0, Some (prev, child))
      else
        let d = diff node in
        if d = 0 then Some (node, None)
        else if d < -1 \<or> d > 1 then None
        else
          let child = avl_balance2child (1 + d)
          in avl_find_loop h diff (av_child h node child) node child)"

definition avl_find ::
  "avl \<Rightarrow> (aptr \<Rightarrow> aptr \<Rightarrow> int) option \<Rightarrow> aptr \<Rightarrow> (aptr \<times> avl_index option) option" where
  "avl_find h compare value =
     avl_find_loop h (case compare of None \<Rightarrow> av_compar h value | Some f \<Rightarrow> f value) (av_root h) 0 False"

section \<open>Rotation, insertion and removal\<close>

definition avl_rotation :: "avl \<Rightarrow> aptr \<Rightarrow> int \<Rightarrow> (bool \<times> avl) option" where
  "avl_rotation h node balance =
     (let left = (\<not> balance < 0);
          right = (\<not> left);
          left_heavy = balance div 2;
          right_heavy = - left_heavy;
          parent = av_parent h node;
          child = av_child h node left;
          which_child = av_xchild h node;
          child_bal = av_balance h child
      in if child = 0 then None
         else if child_bal \<noteq> right_heavy then
           let child_bal = child_bal + right_heavy;
               cright = av_child h child right;
               h = set_child node left cright h;
               h = set_up cright node left h;
               h = set_child child right node h;
               h = AVL_SETBALANCE node (- child_bal) h;
               h = AVL_SETCHILD node right h;
               h = AVL_SETPARENT node child h;
               h = AVL_SETBALANCE child child_bal h;
               h = AVL_SETCHILD child which_child h;
               h = AVL_SETPARENT child parent h;
               h = set_down parent which_child child h
           in Some (child_bal = 0, h)
         else
           let gchild = av_child h child right;
               gleft = av_child h gchild left;
               gright = av_child h gchild right
           in if gchild = 0 then None
              else
                let h = set_child node left gright h;
                    h = set_up gright node left h;
                    h = set_child child right gleft h;
                    h = set_up gleft child right h;
                    balance = av_balance h gchild;
                    h = set_child gchild left child h;
                    h = AVL_SETBALANCE child (if balance = right_heavy then left_heavy else 0) h;
                    h = AVL_SETPARENT child gchild h;
                    h = AVL_SETCHILD child left h;
                    h = set_child gchild right node h;
                    h = AVL_SETBALANCE node (if balance = left_heavy then right_heavy else 0) h;
                    h = AVL_SETPARENT node gchild h;
                    h = AVL_SETCHILD node right h;
                    h = AVL_SETBALANCE gchild 0 h;
                    h = AVL_SETPARENT gchild parent h;
                    h = AVL_SETCHILD gchild which_child h;
                    h = set_down parent which_child gchild h
                in Some (True, h))"

text \<open>The loop up the tree; \<open>node\<close> is the parent of the last iteration.\<close>

partial_function (option) avl_insert_loop :: "aptr \<Rightarrow> side \<Rightarrow> avl \<Rightarrow> avl option" where
  [code]: "avl_insert_loop node which_child h =
     (if node = 0 then Some h
      else
        let old_balance = av_balance h node;
            new_balance = old_balance + avl_child2balance which_child
        in if new_balance = 0 then Some (AVL_SETBALANCE node 0 h)
           else if old_balance \<noteq> 0 then map_option snd (avl_rotation h node new_balance)
           else
             let h = AVL_SETBALANCE node new_balance h
             in avl_insert_loop (av_parent h node) (av_xchild h node) h)"

definition avl_insert :: "avl \<Rightarrow> aptr \<Rightarrow> avl_index \<Rightarrow> avl option" where
  "avl_insert h new_data wh =
     (let (parent, which_child) = wh;
          node = new_data
      in if node = 0 then None
         else
           let h = h\<lparr>av_numnodes := av_numnodes h + 1\<rparr>;
               h = set_child node False 0 h;
               h = set_child node True 0 h;
               h = AVL_SETCHILD node which_child h;
               h = AVL_SETBALANCE node 0 h;
               h = AVL_SETPARENT node parent h;
               h = set_down parent which_child node h
           in avl_insert_loop parent which_child h)"

definition avl_insert_here :: "avl \<Rightarrow> aptr \<Rightarrow> aptr \<Rightarrow> side \<Rightarrow> avl option" where
  "avl_insert_here h new_data here direction =
     (if here = 0 then None
      else if av_child h here direction \<noteq> 0 then do {
        node \<leftarrow> descend h (\<not> direction) (av_child h here direction);
        avl_insert h new_data (node, \<not> direction)
      }
      else avl_insert h new_data (here, direction))"

text \<open>When the search succeeds the code goes on with an insertion point that was never set.\<close>

definition avl_add :: "avl \<Rightarrow> aptr \<Rightarrow> avl option" where
  "avl_add h new_node = do {
     (found, wh) \<leftarrow> avl_find h None new_node;
     case wh of None \<Rightarrow> None | Some w \<Rightarrow> avl_insert h new_node w
   }"

text \<open>
  \<open>tmp\<close> is the address of the local variable \<^verbatim>\<open>tmp\<close>. The first part swaps a node
  with two children against its neighbour, and returns the node to delete.
\<close>

definition copy_node :: "aptr \<Rightarrow> aptr \<Rightarrow> avl \<Rightarrow> avl" where
  "copy_node dst src h = h\<lparr>av_child := (av_child h)(dst := av_child h src),
     av_parent := (av_parent h)(dst := av_parent h src),
     av_xchild := (av_xchild h)(dst := av_xchild h src),
     av_balance := (av_balance h)(dst := av_balance h src)\<rparr>"

definition avl_remove_swap :: "aptr \<Rightarrow> aptr \<Rightarrow> avl \<Rightarrow> (aptr \<times> avl) option" where
  "avl_remove_swap tmp delete h =
     (if av_child h delete False \<noteq> 0 \<and> av_child h delete True \<noteq> 0 then do {
        let old_balance = av_balance h delete;
        let left = avl_balance2child (old_balance + 1);
        let right = (\<not> left);
        node \<leftarrow> descend h right (av_child h delete left);
        let h = copy_node tmp node h;
        let h = copy_node node delete h;
        let h = (if av_child h node left = node then set_child node left tmp h else h);
        let h = set_down (av_parent h node) (av_xchild h node) node h;
        let h = AVL_SETPARENT (av_child h node left) node h;
        let h = AVL_SETPARENT (av_child h node right) node h;
        let delete = tmp;
        let h = set_child (av_parent h delete) (av_xchild h delete) delete h;
        let which_child = (av_child h delete True \<noteq> 0);
        let h = (if av_child h delete which_child \<noteq> 0
                 then AVL_SETPARENT (av_child h delete which_child) delete h else h);
        Some (delete, h)
      }
      else Some (delete, h))"

text \<open>The \<^verbatim>\<open>do\<close> loop; \<open>node\<close> is not null.\<close>

partial_function (option) avl_remove_loop :: "aptr \<Rightarrow> side \<Rightarrow> avl \<Rightarrow> avl option" where
  [code]: "avl_remove_loop node which_child h =
     (let old_balance = av_balance h node;
          new_balance = old_balance - avl_child2balance which_child;
          parent = av_parent h node;
          which_child = av_xchild h node
      in if old_balance = 0 then Some (AVL_SETBALANCE node new_balance h)
         else if new_balance = 0 then
           let h = AVL_SETBALANCE node new_balance h
           in if parent \<noteq> 0 then avl_remove_loop parent which_child h else Some h
         else
           case avl_rotation h node new_balance of
             None \<Rightarrow> None
           | Some (shorter, h) \<Rightarrow>
               if \<not> shorter then Some h
               else if parent \<noteq> 0 then avl_remove_loop parent which_child h else Some h)"

text \<open>The rest of \<^verbatim>\<open>avl_remove\<close>: \<open>delete\<close> has at most one child, which takes its place.\<close>

definition avl_remove_splice :: "aptr \<Rightarrow> avl \<Rightarrow> avl option" where
  "avl_remove_splice delete h =
     (let h = h\<lparr>av_numnodes := av_numnodes h - 1\<rparr>;
          parent = av_parent h delete;
          which_child = av_xchild h delete;
          node = (if av_child h delete False \<noteq> 0 then av_child h delete False else av_child h delete True);
          h = set_up node parent which_child h
      in if parent = 0 then Some (h\<lparr>av_root := node\<rparr>)
         else avl_remove_loop parent which_child (set_child parent which_child node h))"

definition avl_remove :: "aptr \<Rightarrow> avl \<Rightarrow> aptr \<Rightarrow> avl option" where
  "avl_remove tmp h data =
     (if data = 0 then None
      else do {
        (delete, h) \<leftarrow> avl_remove_swap tmp data h;
        avl_remove_splice delete h
      })"

section \<open>The other operations\<close>

definition AVL_REINSERT :: "aptr \<Rightarrow> avl \<Rightarrow> aptr \<Rightarrow> avl option" where
  "AVL_REINSERT tmp h obj = do { h \<leftarrow> avl_remove tmp h obj; avl_add h obj }"

definition avl_update_lt :: "aptr \<Rightarrow> avl \<Rightarrow> aptr \<Rightarrow> (bool \<times> avl) option" where
  "avl_update_lt tmp t obj = do {
     neighbor \<leftarrow> avl_walk t obj False;
     if neighbor \<noteq> 0 \<and> av_compar t obj neighbor < 0
     then map_option (Pair True) (AVL_REINSERT tmp t obj) else Some (False, t)
   }"

definition avl_update_gt :: "aptr \<Rightarrow> avl \<Rightarrow> aptr \<Rightarrow> (bool \<times> avl) option" where
  "avl_update_gt tmp t obj = do {
     neighbor \<leftarrow> avl_walk t obj True;
     if neighbor \<noteq> 0 \<and> av_compar t obj neighbor > 0
     then map_option (Pair True) (AVL_REINSERT tmp t obj) else Some (False, t)
   }"

definition avl_update :: "aptr \<Rightarrow> avl \<Rightarrow> aptr \<Rightarrow> (bool \<times> avl) option" where
  "avl_update tmp t obj = do {
     neighbor \<leftarrow> avl_walk t obj False;
     if neighbor \<noteq> 0 \<and> av_compar t obj neighbor < 0
     then map_option (Pair True) (AVL_REINSERT tmp t obj)
     else do {
       neighbor \<leftarrow> avl_walk t obj True;
       if neighbor \<noteq> 0 \<and> av_compar t obj neighbor > 0
       then map_option (Pair True) (AVL_REINSERT tmp t obj) else Some (False, t)
     }
   }"

definition avl_create :: "avl \<Rightarrow> (aptr \<Rightarrow> aptr \<Rightarrow> int) \<Rightarrow> avl" where
  "avl_create tree compar = tree\<lparr>av_compar := compar, av_root := 0, av_numnodes := 0\<rparr>"

definition avl_numnodes :: "avl \<Rightarrow> nat" where
  "avl_numnodes tree = av_numnodes tree"

definition avl_is_empty :: "avl \<Rightarrow> bool" where
  "avl_is_empty tree \<longleftrightarrow> av_numnodes tree = 0"

text \<open>
  The cookie of \<^verbatim>\<open>avl_destroy_nodes\<close>: not started, or a parent (0 when all is done) with
  the child looked at last.
\<close>

partial_function (option) destroy_leftmost :: "avl \<Rightarrow> aptr \<Rightarrow> aptr \<Rightarrow> (aptr \<times> aptr) option" where
  [code]: "destroy_leftmost h node parent =
     (if av_child h node False \<noteq> 0 then destroy_leftmost h (av_child h node False) node
      else Some (node, parent))"

definition destroy_done :: "avl \<Rightarrow> aptr \<Rightarrow> aptr \<Rightarrow> (aptr \<times> avl_index option \<times> avl) option" where
  "destroy_done h node parent =
     (if parent = 0 then Some (node, Some (0, True), h)
      else Some (node, Some (parent, av_xchild h node), h))"

definition destroy_check_right :: "avl \<Rightarrow> aptr \<Rightarrow> aptr \<Rightarrow> (aptr \<times> avl_index option \<times> avl) option" where
  "destroy_check_right h node parent =
     (if av_child h node True \<noteq> 0 then destroy_done h (av_child h node True) node
      else destroy_done h node parent)"

definition avl_destroy_nodes :: "avl \<Rightarrow> avl_index option \<Rightarrow> (aptr \<times> avl_index option \<times> avl) option" where
  "avl_destroy_nodes h cookie =
     (case cookie of
        None \<Rightarrow> do {
          first \<leftarrow> avl_first h;
          if first = 0 then Some (0, Some (0, True), h)
          else destroy_check_right h first (av_parent h first)
        }
      | Some (parent, child) \<Rightarrow>
          if parent = 0 then
            (if av_root h \<noteq> 0 then Some (0, cookie, h\<lparr>av_root := 0, av_numnodes := 0\<rparr>)
             else Some (0, cookie, h))
          else
            let h = set_child parent child 0 h;
                h = h\<lparr>av_numnodes := av_numnodes h - 1\<rparr>
            in if child \<or> av_child h parent True = 0
               then destroy_done h parent (av_parent h parent)
               else do {
                 (node, parent) \<leftarrow> destroy_leftmost h (av_child h parent True) parent;
                 destroy_check_right h node parent
               })"

text \<open>The callback may change the store and the state behind its \<^verbatim>\<open>para\<close> pointer.\<close>

partial_function (option) avl_walk_all_loop ::
  "(aptr \<Rightarrow> avl \<times> 's \<Rightarrow> int \<times> avl \<times> 's) \<Rightarrow> aptr \<Rightarrow> avl \<times> 's \<Rightarrow> (int \<times> avl \<times> 's) option" where
  [code]: "avl_walk_all_loop cb node s =
     (if node = 0 then Some (0, s)
      else do {
        next_node \<leftarrow> avl_walk (fst s) node True;
        let (ret, s) = cb node s;
        if ret \<noteq> 0 then Some (ret, s) else avl_walk_all_loop cb next_node s
      })"

definition avl_walk_all ::
  "(aptr \<Rightarrow> avl \<times> 's \<Rightarrow> int \<times> avl \<times> 's) \<Rightarrow> avl \<times> 's \<Rightarrow> (int \<times> avl \<times> 's) option" where
  "avl_walk_all cb s =
     (if av_numnodes (fst s) = 0 then Some (0, s)
      else do {
        node \<leftarrow> avl_first (fst s);
        avl_walk_all_loop cb node s
      })"

end
