(* ===== verification/Avl_Rep.thy ===== *)
theory Avl_Rep imports Avl
begin

text \<open>
  What the store of an AVL tree represents. A tree is a \<^verbatim>\<open>'a\<close>-free shape whose nodes
  carry their addresses and balances; the rest of a tree around a subtree is a list of frames,
  innermost first. \<open>rep\<close> and \<open>crep\<close> say that the store holds a subtree and the
  frames around it; \<open>avl\<close> and \<open>cavl\<close> are the balance invariants. Both sides are
  treated at once: \<open>nd s A x b B\<close> has \<open>A\<close> on side \<open>s\<close>.
\<close>

section \<open>Trees and frames\<close>

datatype tree = Lf | Nd tree aptr int tree

definition nd :: "side \<Rightarrow> tree \<Rightarrow> aptr \<Rightarrow> int \<Rightarrow> tree \<Rightarrow> tree" where
  "nd s A x b B = (if s then Nd B x b A else Nd A x b B)"

lemma nd_exhaust: obtains "T = Lf" | A x b B where "T = nd s A x b B"
  by (cases T; cases s) (auto simp: nd_def)

lemma nd_not_Lf [simp]: "nd s A x b B \<noteq> Lf" "Lf \<noteq> nd s A x b B"
  by (simp_all add: nd_def)

lemma nd_flip: "nd (\<not> s) A x b B = nd s B x b A"
  by (simp add: nd_def)

lemma nd_eq [simp]: "nd s A x b B = nd s A' x' b' B' \<longleftrightarrow> A = A' \<and> x = x' \<and> b = b' \<and> B = B'"
  by (auto simp: nd_def)

fun inorder :: "tree \<Rightarrow> aptr list" where
  "inorder Lf = []"
| "inorder (Nd A x b B) = inorder A @ x # inorder B"

fun ht :: "tree \<Rightarrow> nat" where
  "ht Lf = 0"
| "ht (Nd A x b B) = Suc (max (ht A) (ht B))"

fun pt :: "tree \<Rightarrow> aptr" where
  "pt Lf = 0"
| "pt (Nd A x b B) = x"

text \<open>The nodes in the direction of a walk.\<close>

definition ord :: "side \<Rightarrow> tree \<Rightarrow> aptr list" where
  "ord d T = (if d then inorder T else rev (inorder T))"

lemma ord_Lf [simp]: "ord d Lf = []" by (simp add: ord_def)

lemma ord_nd [simp]: "ord d (nd d A x b B) = ord d B @ x # ord d A"
  by (simp add: ord_def nd_def)

lemma ord_nd' [simp]: "ord d (nd (\<not> d) A x b B) = ord d A @ x # ord d B"
  by (simp add: nd_flip)

lemma ht_nd [simp]: "ht (nd s A x b B) = Suc (max (ht A) (ht B))"
  by (simp add: nd_def max.commute)

lemma pt_nd [simp]: "pt (nd s A x b B) = x" by (simp add: nd_def)

lemma set_inorder_nd [simp]: "set (inorder (nd s A x b B)) = insert x (set (inorder A) \<union> set (inorder B))"
  by (auto simp: nd_def)

lemma distinct_inorder_nd [simp]: "distinct (inorder (nd s A x b B)) \<longleftrightarrow>
    distinct (inorder A) \<and> distinct (inorder B) \<and> x \<notin> set (inorder A) \<and> x \<notin> set (inorder B) \<and>
    set (inorder A) \<inter> set (inorder B) = {}"
  by (auto simp: nd_def)

datatype frame = Fr (fside: side) (fptr: aptr) (fbal: int) (fsib: tree)

definition plug :: "frame \<Rightarrow> tree \<Rightarrow> tree" where
  "plug f T = nd (fside f) T (fptr f) (fbal f) (fsib f)"

definition fill :: "frame list \<Rightarrow> tree \<Rightarrow> tree" where
  "fill fs T = fold plug fs T"

lemma fill_simps [simp]: "fill [] T = T" "fill (f # fs) T = fill fs (plug f T)"
  by (simp_all add: fill_def)

lemma fill_append: "fill (gs @ fs) T = fill fs (fill gs T)"
  by (simp add: fill_def)

text \<open>The nodes of the frames before and after the hole, in the direction of a walk.\<close>

fun post :: "side \<Rightarrow> frame list \<Rightarrow> aptr list" where
  "post d [] = []"
| "post d (Fr s x b B # fs) = (if s = d then [] else x # ord d B) @ post d fs"

fun prio :: "side \<Rightarrow> frame list \<Rightarrow> aptr list" where
  "prio d [] = []"
| "prio d (Fr s x b B # fs) = prio d fs @ (if s = d then ord d B @ [x] else [])"

lemma ord_fill: "ord d (fill fs T) = prio d fs @ ord d T @ post d fs"
proof (induction fs arbitrary: T)
  case (Cons f fs)
  obtain s x b B where f: "f = Fr s x b B" by (cases f)
  then show ?case using Cons [of "plug f T"] by (cases "s = d") (auto simp: plug_def)
qed simp

lemma inorder_ord: "inorder T = ord True T" by (simp add: ord_def)

definition fnodes :: "frame list \<Rightarrow> aptr set" where
  "fnodes fs = set (prio True fs) \<union> set (post True fs)"

lemma fnodes_Nil [simp]: "fnodes [] = {}"
  by (simp add: fnodes_def)

lemma fnodes_Cons [simp]: "fnodes (Fr s x b B # fs) = insert x (set (inorder B) \<union> fnodes fs)"
  by (cases s) (auto simp: fnodes_def ord_def)

lemma set_inorder_fill: "set (inorder (fill fs T)) = fnodes fs \<union> set (inorder T)"
  by (auto simp: inorder_ord ord_fill fnodes_def)

lemma fnodes_append [simp]: "fnodes (gs @ fs) = fnodes gs \<union> fnodes fs"
proof (induction gs)
  case (Cons f gs) then show ?case by (cases f) auto
qed simp

text \<open>All nodes of a tree and its frames are different.\<close>

fun fdist :: "frame list \<Rightarrow> bool" where
  "fdist [] \<longleftrightarrow> True"
| "fdist (Fr s x b B # fs) \<longleftrightarrow> distinct (inorder B) \<and> x \<notin> set (inorder B) \<and> x \<notin> fnodes fs \<and>
     set (inorder B) \<inter> fnodes fs = {} \<and> fdist fs"

lemma distinct_fill: "distinct (inorder (fill fs T)) \<longleftrightarrow>
    distinct (inorder T) \<and> fdist fs \<and> set (inorder T) \<inter> fnodes fs = {}"
proof (induction fs arbitrary: T)
  case (Cons f fs)
  obtain s x b B where f: "f = Fr s x b B" by (cases f)
  then show ?case using Cons [of "plug f T"] by (auto simp: plug_def)
qed simp

section \<open>The balance invariant\<close>

fun avl :: "tree \<Rightarrow> bool" where
  "avl Lf \<longleftrightarrow> True"
| "avl (Nd A x b B) \<longleftrightarrow> avl A \<and> avl B \<and> b = int (ht B) - int (ht A) \<and> \<bar>b\<bar> \<le> 1"

text \<open>The sign of a side in a balance: \<^verbatim>\<open>avl_child2balance\<close>.\<close>

abbreviation sg :: "side \<Rightarrow> int" where "sg \<equiv> avl_child2balance"

lemma sg_simps [simp]: "sg True = 1" "sg False = -1" "sg (\<not> s) = - sg s" "sg s \<noteq> 0" "sg s * sg s = 1" "sg s < 0 \<longleftrightarrow> \<not> s" "\<bar>sg s\<bar> = 1"
  by (auto simp: avl_child2balance_def)

lemma avl_nd: "avl (nd s A x b B) \<longleftrightarrow>
    avl A \<and> avl B \<and> b = sg s * (int (ht A) - int (ht B)) \<and> \<bar>b\<bar> \<le> 1"
  by (auto simp: nd_def)

text \<open>Frames that make an AVL tree of any AVL tree of height \<open>k\<close> in the hole.\<close>

fun cavl :: "frame list \<Rightarrow> nat \<Rightarrow> bool" where
  "cavl [] k \<longleftrightarrow> True"
| "cavl (Fr s x b B # fs) k \<longleftrightarrow> avl B \<and> b = sg s * (int k - int (ht B)) \<and> \<bar>b\<bar> \<le> 1 \<and>
     cavl fs (Suc (max k (ht B)))"

lemma avl_fill: "avl (fill fs T) \<longleftrightarrow> avl T \<and> cavl fs (ht T)"
proof (induction fs arbitrary: T)
  case (Cons f fs)
  obtain s x b B where f: "f = Fr s x b B" by (cases f)
  then show ?case using Cons [of "plug f T"] by (auto simp: plug_def avl_nd)
qed simp

section \<open>Representation in the store\<close>

text \<open>The link up from the root of a subtree (the child index of the tree's root is never
  read, so it is left open), and the nodes below it.\<close>

definition uplink :: "avl \<Rightarrow> aptr \<Rightarrow> side \<Rightarrow> tree \<Rightarrow> bool" where
  "uplink h p c T \<longleftrightarrow> (T \<noteq> Lf \<longrightarrow> av_parent h (pt T) = p \<and> (p \<noteq> 0 \<longrightarrow> av_xchild h (pt T) = c))"

fun core :: "avl \<Rightarrow> tree \<Rightarrow> bool" where
  "core h Lf \<longleftrightarrow> True"
| "core h (Nd A x b B) \<longleftrightarrow> x \<noteq> 0 \<and> av_balance h x = b \<and>
     av_child h x False = pt A \<and> av_child h x True = pt B \<and>
     uplink h x False A \<and> uplink h x True B \<and> core h A \<and> core h B"

lemma core_nd: "core h (nd s A x b B) \<longleftrightarrow> x \<noteq> 0 \<and> av_balance h x = b \<and>
     av_child h x s = pt A \<and> av_child h x (\<not> s) = pt B \<and>
     uplink h x s A \<and> uplink h x (\<not> s) B \<and> core h A \<and> core h B"
  by (auto simp: nd_def)

lemma uplink_Lf [simp]: "uplink h p c Lf" by (simp add: uplink_def)

fun fparent :: "frame list \<Rightarrow> aptr" where
  "fparent [] = 0"
| "fparent (f # fs) = fptr f"

fun fchild :: "frame list \<Rightarrow> side" where
  "fchild [] = False"
| "fchild (f # fs) = fside f"

text \<open>The frames, with the pointer \<open>r\<close> in the hole.\<close>

fun crep :: "avl \<Rightarrow> frame list \<Rightarrow> aptr \<Rightarrow> bool" where
  "crep h [] r \<longleftrightarrow> av_root h = r"
| "crep h (Fr s x b B # fs) r \<longleftrightarrow> x \<noteq> 0 \<and> av_balance h x = b \<and>
     av_child h x s = r \<and> av_child h x (\<not> s) = pt B \<and> uplink h x (\<not> s) B \<and> core h B \<and>
     av_parent h x = fparent fs \<and> (fparent fs \<noteq> 0 \<longrightarrow> av_xchild h x = fchild fs) \<and> crep h fs x"

definition rep :: "avl \<Rightarrow> tree \<Rightarrow> bool" where
  "rep h T \<longleftrightarrow> av_root h = pt T \<and> uplink h 0 False T \<and> core h T \<and> distinct (inorder T)"

text \<open>Any node of a represented tree can be put in the focus.\<close>

lemma rep_fill: "rep h (fill fs T) \<longleftrightarrow>
    crep h fs (pt T) \<and> uplink h (fparent fs) (fchild fs) T \<and> core h T \<and> distinct (inorder (fill fs T))"
proof (induction fs arbitrary: T)
  case Nil
  then show ?case by (auto simp: rep_def)
next
  case (Cons f fs)
  obtain s x b B where f: "f = Fr s x b B" by (cases f)
  then show ?case using Cons [of "plug f T"] by (auto simp: plug_def core_nd uplink_def)
qed

lemma fill_at: "x \<in> set (inorder T) \<Longrightarrow> \<exists>fs A b B. T = fill fs (nd s A x b B)"
proof (induction T)
  case (Nd L y b R)
  consider "x = y" | "x \<in> set (inorder L)" | "x \<in> set (inorder R)" using Nd.prems by auto
  then show ?case
  proof cases
    case 1
    then have "Nd L y b R = fill [] (nd s (if s then R else L) x b (if s then L else R))"
      by (simp add: nd_def)
    then show ?thesis by blast
  next
    case 2
    with Nd.IH(1) obtain fs A b' B where "L = fill fs (nd s A x b' B)" by blast
    then have "Nd L y b R = fill (fs @ [Fr False y b R]) (nd s A x b' B)"
      by (simp add: fill_append plug_def nd_def)
    then show ?thesis by blast
  next
    case 3
    with Nd.IH(2) obtain fs A b' B where "R = fill fs (nd s A x b' B)" by blast
    then have "Nd L y b R = fill (fs @ [Fr True y b L]) (nd s A x b' B)"
      by (simp add: fill_append plug_def nd_def)
    then show ?thesis by blast
  qed
qed simp

section \<open>What the stores have in common\<close>

text \<open>A subtree is not affected by changes outside it, nor by a new link up from its root.\<close>

lemma core_same:
  assumes "core h T" "distinct (inorder T)"
    "\<And>y. y \<in> set (inorder T) \<Longrightarrow> av_child h' y = av_child h y \<and> av_balance h' y = av_balance h y"
    "\<And>y. y \<in> set (inorder T) \<Longrightarrow> y \<noteq> pt T \<Longrightarrow> av_parent h' y = av_parent h y \<and> av_xchild h' y = av_xchild h y"
  shows "core h' T"
  using assms
proof (induction T)
  case (Nd A x b B)
  have up: "uplink h' x c T" if "uplink h x c T" "set (inorder T) \<subseteq> set (inorder (Nd A x b B))" "x \<notin> set (inorder T)" for c T
  proof (cases T)
    case (Nd L y b' R)
    then have "y \<in> set (inorder (Nd A x b B))" "y \<noteq> x" using that by auto
    then show ?thesis using that(1) Nd.prems(4) [of y] by (simp add: uplink_def Nd)
  qed simp
  have "core h' A" "core h' B" using Nd by (auto 4 3)
  moreover have "uplink h' x False A" "uplink h' x True B" using Nd.prems by (auto intro!: up)
  ultimately show ?case using Nd.prems by auto
qed simp

lemma crep_same:
  assumes "crep h fs r" "fdist fs"
    "\<And>y. y \<in> fnodes fs \<Longrightarrow> av_balance h' y = av_balance h y \<and> av_parent h' y = av_parent h y \<and>
      av_xchild h' y = av_xchild h y"
    "\<And>y. y \<in> fnodes fs \<Longrightarrow> y \<noteq> fparent fs \<Longrightarrow> av_child h' y = av_child h y"
    "fs \<noteq> [] \<Longrightarrow> av_child h' (fparent fs) = (av_child h (fparent fs))(fchild fs := m)"
    "av_root h' = (if fs = [] then m else av_root h)"
  shows "crep h' fs m"
proof (cases fs)
  case Nil
  then show ?thesis using assms by simp
next
  case (Cons f gs)
  have rest: "crep h' gs x" if "crep h gs x" "fdist gs" "av_root h' = av_root h"
    "\<And>y. y \<in> fnodes gs \<Longrightarrow> av_balance h' y = av_balance h y \<and> av_parent h' y = av_parent h y \<and>
      av_xchild h' y = av_xchild h y \<and> av_child h' y = av_child h y" for gs x
    using that
  proof (induction gs arbitrary: x)
    case (Cons f gs)
    obtain s z b B where f: "f = Fr s z b B" by (cases f)
    have cB: "core h' B" by (rule core_same [of h]) (use Cons.prems f in auto)
    have uB: "uplink h' z (\<not> s) B"
      using Cons.prems f by (cases B) (auto simp: uplink_def)
    show ?case using Cons f cB uB by auto
  qed simp
  obtain s z b B where f: "f = Fr s z b B" by (cases f)
  have zB: "z \<notin> set (inorder B)" using assms(2) f Cons by simp
  have cB: "core h' B" by (rule core_same [of h]) (use assms f Cons zB in auto)
  have uB: "uplink h' z (\<not> s) B"
    using assms f Cons by (cases B) (auto simp: uplink_def)
  have "z \<notin> fnodes gs" using assms(2) f Cons by simp
  then have "crep h' gs z" using assms f Cons by (intro rest) auto
  then show ?thesis using assms f Cons cB uB by auto
qed

lemma uplink_same:
  assumes "uplink h p c T" "T \<noteq> Lf \<Longrightarrow> av_parent h' (pt T) = av_parent h (pt T) \<and> av_xchild h' (pt T) = av_xchild h (pt T)"
  shows "uplink h' p c T"
  using assms by (simp add: uplink_def)

lemma pt_in: "T \<noteq> Lf \<Longrightarrow> pt T \<in> set (inorder T)"
  by (cases T) auto

lemma core_nonzero: "core h T \<Longrightarrow> 0 \<notin> set (inorder T)"
  by (induction T) auto

lemma core_pt: "core h T \<Longrightarrow> pt T = 0 \<longleftrightarrow> T = Lf"
  by (cases T) auto

lemma crep_nonzero: "crep h fs r \<Longrightarrow> 0 \<notin> fnodes fs"
proof (induction fs arbitrary: r)
  case (Cons f fs)
  then show ?case by (cases f) (auto dest: core_nonzero)
qed simp

lemma fparent_in: "fs \<noteq> [] \<Longrightarrow> fparent fs \<in> fnodes fs"
proof (cases fs)
  case (Cons f gs)
  then show ?thesis by (cases f) simp
qed simp

lemma crep_fparent: "crep h fs r \<Longrightarrow> fparent fs = 0 \<longleftrightarrow> fs = []"
  using crep_nonzero [of h fs r] fparent_in [of fs] by (cases "fs = []") (simp, metis)

lemma setter_child:
  "av_child (AVL_SETPARENT n p h) = av_child h" "av_child (AVL_SETCHILD n c h) = av_child h"
  "av_child (AVL_SETBALANCE n b h) = av_child h" "av_child (set_up n p c h) = av_child h"
  "av_child (set_child n c m h) = (av_child h)(n := (av_child h n)(c := m))"
  "av_child (set_down n c m h) = (if n \<noteq> 0 then (av_child h)(n := (av_child h n)(c := m)) else av_child h)"
  by (simp_all add: AVL_SETPARENT_def AVL_SETCHILD_def AVL_SETBALANCE_def set_child_def set_down_def set_up_def)

lemma setter_parent:
  "av_parent (AVL_SETPARENT n p h) y = (if y = n then p else av_parent h y)"
  "av_parent (AVL_SETCHILD n c h) = av_parent h" "av_parent (AVL_SETBALANCE n b h) = av_parent h"
  "av_parent (set_up n p c h) y = (if y = n \<and> n \<noteq> 0 then p else av_parent h y)"
  "av_parent (set_child n c m h) = av_parent h" "av_parent (set_down n c m h) = av_parent h"
  by (simp_all add: AVL_SETPARENT_def AVL_SETCHILD_def AVL_SETBALANCE_def set_child_def set_down_def set_up_def)

lemma setter_xchild:
  "av_xchild (AVL_SETCHILD n c h) y = (if y = n then c else av_xchild h y)"
  "av_xchild (AVL_SETPARENT n p h) = av_xchild h" "av_xchild (AVL_SETBALANCE n b h) = av_xchild h"
  "av_xchild (set_up n p c h) y = (if y = n \<and> n \<noteq> 0 then c else av_xchild h y)"
  "av_xchild (set_child n c m h) = av_xchild h" "av_xchild (set_down n c m h) = av_xchild h"
  by (simp_all add: AVL_SETPARENT_def AVL_SETCHILD_def AVL_SETBALANCE_def set_child_def set_down_def set_up_def)

lemma setter_balance:
  "av_balance (AVL_SETBALANCE n b h) y = (if y = n then b else av_balance h y)"
  "av_balance (AVL_SETPARENT n p h) = av_balance h" "av_balance (AVL_SETCHILD n c h) = av_balance h"
  "av_balance (set_up n p c h) = av_balance h"
  "av_balance (set_child n c m h) = av_balance h" "av_balance (set_down n c m h) = av_balance h"
  by (simp_all add: AVL_SETPARENT_def AVL_SETCHILD_def AVL_SETBALANCE_def set_child_def set_down_def set_up_def)

lemmas setters = AVL_SETPARENT_def AVL_SETCHILD_def AVL_SETBALANCE_def set_child_def set_down_def set_up_def

section \<open>Rotation\<close>

text \<open>The balance of the node is given as an argument, \<open>2 * sg s\<close>: too high on side \<open>s\<close>.\<close>

lemma inorder_single: "inorder (nd s CL c cb' (nd s CR x b' B)) = inorder (nd s (nd s CL c cb CR) x b B)"
  by (cases s) (simp_all add: nd_def)

lemma inorder_double:
  "inorder (nd s (nd s CL c b1 GL) g b2 (nd s GR x b3 B)) = inorder (nd s (nd s CL c b4 (nd s GL g b5 GR)) x b6 B)"
  by (cases s) (simp_all add: nd_def)

lemma inorder_fill: "inorder (fill fs T) = prio True fs @ inorder T @ post True fs"
  using ord_fill [of True fs T] by (simp add: ord_def)

lemma rotation_args:
  "(2 * sg s < 0) = (\<not> s)" "2 * sg s div 2 = sg s"
  by (cases s; simp)+

lemma rotation_single:
  assumes r: "rep h (fill fs (nd s (nd s CL c cb CR) x b B))" and cb: "cb \<noteq> - sg s"
  shows "\<exists>h'. avl_rotation h x (2 * sg s) = Some (cb - sg s = 0, h') \<and>
    rep h' (fill fs (nd s CL c (cb - sg s) (nd s CR x (sg s - cb) B))) \<and>
    av_numnodes h' = av_numnodes h \<and> av_compar h' = av_compar h"
proof -
  let ?T = "nd s (nd s CL c cb CR) x b B"
  let ?p = "fparent fs"
  from r have cr: "crep h fs x" and up: "uplink h ?p (fchild fs) ?T" and core: "core h ?T"
    and di: "distinct (inorder (fill fs ?T))"
    by (simp_all add: rep_fill)
  from core have X: "x \<noteq> 0" "av_child h x s = c" "av_child h x (\<not> s) = pt B" "uplink h x (\<not> s) B" "core h B"
    and C: "c \<noteq> 0" "av_balance h c = cb" "av_child h c s = pt CL" "av_child h c (\<not> s) = pt CR"
      "uplink h c s CL" "uplink h c (\<not> s) CR" "core h CL" "core h CR"
    by (simp_all add: core_nd)
  from di have dT: "distinct (inorder ?T)" and fd: "fdist fs" and dis: "set (inorder ?T) \<inter> fnodes fs = {}"
    by (simp_all add: distinct_fill)
  have p: "?p = 0 \<longleftrightarrow> fs = []" by (rule crep_fparent [OF cr])
  have pn: "fs \<noteq> [] \<Longrightarrow> ?p \<in> fnodes fs" by (rule fparent_in)
  have n: "x \<notin> fnodes fs" "c \<notin> fnodes fs" "x \<noteq> c" "x \<notin> set (inorder CL)" "x \<notin> set (inorder CR)"
    "x \<notin> set (inorder B)" "c \<notin> set (inorder CL)" "c \<notin> set (inorder CR)" "c \<notin> set (inorder B)"
    "set (inorder CL) \<inter> set (inorder CR) = {}" "set (inorder CL) \<inter> set (inorder B) = {}"
    "set (inorder CR) \<inter> set (inorder B) = {}" "set (inorder CL) \<inter> fnodes fs = {}"
    "set (inorder CR) \<inter> fnodes fs = {}" "set (inorder B) \<inter> fnodes fs = {}"
    using dT dis by auto
  have px: "?p \<noteq> x" "?p \<noteq> c" using pn n X(1) C(1) p by (cases "fs = []"; auto)+
  have px2: "?p \<noteq> 0 \<Longrightarrow> ?p \<notin> set (inorder CL)" "?p \<noteq> 0 \<Longrightarrow> ?p \<notin> set (inorder CR)"
    "?p \<noteq> 0 \<Longrightarrow> ?p \<notin> set (inorder B)" using pn n p by auto
  have ptr: "CR \<noteq> Lf \<Longrightarrow> pt CR \<in> set (inorder CR)" "pt CR = 0 \<longleftrightarrow> CR = Lf"
    using pt_in core_pt [OF C(8)] by auto
  define h' where "h' = snd (the (avl_rotation h x (2 * sg s)))"
  have e: "avl_rotation h x (2 * sg s) = Some (cb - sg s = 0, h')"
    using X C cb by (simp add: avl_rotation_def Let_def rotation_args h'_def)
  have hx: "av_parent h x = ?p" "?p \<noteq> 0 \<Longrightarrow> av_xchild h x = fchild fs"
    using up by (simp_all add: uplink_def)
  have h': "h' = (let h1 = set_child x s (pt CR) h; h1 = set_up (pt CR) x s h1; h1 = set_child c (\<not> s) x h1;
      h1 = AVL_SETBALANCE x (- (cb - sg s)) h1; h1 = AVL_SETCHILD x (\<not> s) h1; h1 = AVL_SETPARENT x c h1;
      h1 = AVL_SETBALANCE c (cb - sg s) h1; h1 = AVL_SETCHILD c (av_xchild h x) h1; h1 = AVL_SETPARENT c ?p h1
      in set_down ?p (av_xchild h x) c h1)"
    using X C cb hx by (simp add: h'_def avl_rotation_def Let_def rotation_args)
  have ch: "av_child h' y = (if y = ?p \<and> y \<noteq> 0 then (av_child h y)(av_xchild h x := c)
      else if y = x then (av_child h x)(s := pt CR)
      else if y = c then (av_child h c)(\<not> s := x) else av_child h y)" for y
    using n(3) px by (simp add: h' setter_child Let_def)
  have pa: "av_parent h' y = (if y = c then ?p else if y = x then c else if y = pt CR \<and> pt CR \<noteq> 0 then x else av_parent h y)" for y
    using n(3) by (simp add: h' setter_parent Let_def)
  have xc: "av_xchild h' y = (if y = c then av_xchild h x else if y = x then \<not> s
      else if y = pt CR \<and> pt CR \<noteq> 0 then s else av_xchild h y)" for y
    using n(3) by (simp add: h' setter_xchild Let_def)
  have ba: "av_balance h' y = (if y = c then cb - sg s else if y = x then sg s - cb else av_balance h y)" for y
    using n(3) by (simp add: h' setter_balance Let_def)
  have ro: "av_root h' = (if ?p = 0 then c else av_root h)"
    and nn: "av_numnodes h' = av_numnodes h" "av_compar h' = av_compar h"
    by (simp_all add: h' setters Let_def)
  have "crep h' fs c"
    by (rule crep_same [OF cr fd]) (use n px p pn hx ptr in \<open>auto simp: ch pa xc ba ro\<close>)
  moreover have "core h' CL"
    by (rule core_same [OF C(7)]) (use n px p px2 dT ptr in \<open>auto simp: ch pa xc ba\<close>)
  moreover have "core h' CR"
    by (rule core_same [OF C(8)]) (use n px p px2 dT ptr in \<open>auto simp: ch pa xc ba\<close>)
  moreover have "core h' B"
    by (rule core_same [OF X(5)]) (use n px p px2 dT ptr in \<open>auto simp: ch pa xc ba\<close>)
  moreover have "uplink h' c s CL"
    by (rule uplink_same [OF C(5)]) (use n ptr pt_in [of CL] in \<open>auto simp: pa xc\<close>)
  moreover have "uplink h' x (\<not> s) B"
    by (rule uplink_same [OF X(4)]) (use n ptr pt_in [of B] in \<open>auto simp: pa xc\<close>)
  moreover have "uplink h' x s CR" using n ptr by (auto simp: uplink_def pa xc)
  moreover have "uplink h' c (\<not> s) (nd s CR x (sg s - cb) B)" using n(3) by (simp add: uplink_def pa xc)
  moreover have "uplink h' ?p (fchild fs) (nd s CL c (cb - sg s) (nd s CR x (sg s - cb) B))"
    using n(3) hx by (simp add: uplink_def pa xc)
  moreover have "av_child h' c s = pt CL" "av_child h' c (\<not> s) = x" "av_child h' x s = pt CR"
    "av_child h' x (\<not> s) = pt B" using n(3) px X C by (simp_all add: ch)
  moreover have "av_balance h' c = cb - sg s" "av_balance h' x = sg s - cb" using n(3) by (simp_all add: ba)
  moreover have "distinct (inorder (fill fs (nd s CL c (cb - sg s) (nd s CR x (sg s - cb) B))))"
    using di unfolding inorder_fill inorder_single [of s CL c _ CR x _ B cb b] .
  ultimately have "rep h' (fill fs (nd s CL c (cb - sg s) (nd s CR x (sg s - cb) B)))"
    unfolding rep_fill using X(1) C(1) by (simp add: core_nd)
  then show ?thesis using e nn by auto
qed

lemma rotation_double:
  assumes r: "rep h (fill fs (nd s (nd s CL c (- sg s) (nd s GL g gb GR)) x b B))"
  defines "T' \<equiv> nd s (nd s CL c (if gb = - sg s then sg s else 0) GL) g 0
    (nd s GR x (if gb = sg s then - sg s else 0) B)"
  shows "\<exists>h'. avl_rotation h x (2 * sg s) = Some (True, h') \<and> rep h' (fill fs T') \<and>
    av_numnodes h' = av_numnodes h \<and> av_compar h' = av_compar h"
proof -
  let ?T = "nd s (nd s CL c (- sg s) (nd s GL g gb GR)) x b B"
  let ?p = "fparent fs"
  from r have cr: "crep h fs x" and up: "uplink h ?p (fchild fs) ?T" and core: "core h ?T"
    and di: "distinct (inorder (fill fs ?T))"
    by (simp_all add: rep_fill)
  from core have X: "x \<noteq> 0" "av_child h x s = c" "av_child h x (\<not> s) = pt B" "uplink h x (\<not> s) B" "core h B"
    and C: "c \<noteq> 0" "av_balance h c = - sg s" "av_child h c s = pt CL" "av_child h c (\<not> s) = g"
      "uplink h c s CL" "core h CL"
    and G: "g \<noteq> 0" "av_balance h g = gb" "av_child h g s = pt GL" "av_child h g (\<not> s) = pt GR"
      "core h GL" "core h GR"
    by (simp_all add: core_nd)
  from di have dT: "distinct (inorder ?T)" and fd: "fdist fs" and dis: "set (inorder ?T) \<inter> fnodes fs = {}"
    by (simp_all add: distinct_fill)
  have p: "?p = 0 \<longleftrightarrow> fs = []" by (rule crep_fparent [OF cr])
  have pn: "fs \<noteq> [] \<Longrightarrow> ?p \<in> fnodes fs" by (rule fparent_in)
  have n: "x \<notin> fnodes fs" "c \<notin> fnodes fs" "g \<notin> fnodes fs" "x \<noteq> c" "x \<noteq> g" "c \<noteq> g"
    "x \<notin> set (inorder CL)" "x \<notin> set (inorder GL)" "x \<notin> set (inorder GR)" "x \<notin> set (inorder B)"
    "c \<notin> set (inorder CL)" "c \<notin> set (inorder GL)" "c \<notin> set (inorder GR)" "c \<notin> set (inorder B)"
    "g \<notin> set (inorder CL)" "g \<notin> set (inorder GL)" "g \<notin> set (inorder GR)" "g \<notin> set (inorder B)"
    "set (inorder CL) \<inter> set (inorder GL) = {}" "set (inorder CL) \<inter> set (inorder GR) = {}"
    "set (inorder CL) \<inter> set (inorder B) = {}" "set (inorder GL) \<inter> set (inorder GR) = {}"
    "set (inorder GL) \<inter> set (inorder B) = {}" "set (inorder GR) \<inter> set (inorder B) = {}"
    "set (inorder CL) \<inter> fnodes fs = {}" "set (inorder GL) \<inter> fnodes fs = {}"
    "set (inorder GR) \<inter> fnodes fs = {}" "set (inorder B) \<inter> fnodes fs = {}"
    using dT dis by auto
  have dd: "distinct (inorder CL)" "distinct (inorder GL)" "distinct (inorder GR)" "distinct (inorder B)"
    using dT by auto
  have px: "?p \<noteq> x" "?p \<noteq> c" "?p \<noteq> g" using pn n X(1) C(1) G(1) p by (cases "fs = []"; auto)+
  have px2: "?p \<noteq> 0 \<Longrightarrow> ?p \<notin> set (inorder CL)" "?p \<noteq> 0 \<Longrightarrow> ?p \<notin> set (inorder GL)"
    "?p \<noteq> 0 \<Longrightarrow> ?p \<notin> set (inorder GR)" "?p \<noteq> 0 \<Longrightarrow> ?p \<notin> set (inorder B)" using pn n p by auto
  have ptr: "GL \<noteq> Lf \<Longrightarrow> pt GL \<in> set (inorder GL)" "pt GL = 0 \<longleftrightarrow> GL = Lf"
    "GR \<noteq> Lf \<Longrightarrow> pt GR \<in> set (inorder GR)" "pt GR = 0 \<longleftrightarrow> GR = Lf"
    using pt_in core_pt [OF G(5)] core_pt [OF G(6)] by auto
  have pne: "pt GL \<noteq> x" "pt GL \<noteq> c" "pt GL \<noteq> g" "pt GR \<noteq> x" "pt GR \<noteq> c" "pt GR \<noteq> g"
    "pt GL \<noteq> 0 \<Longrightarrow> pt GL \<noteq> pt GR"
    using ptr n X(1) C(1) G(1) by (cases "GL = Lf"; cases "GR = Lf"; auto)+
  have hx: "av_parent h x = ?p" "?p \<noteq> 0 \<Longrightarrow> av_xchild h x = fchild fs"
    using up by (simp_all add: uplink_def)
  define h' where "h' = snd (the (avl_rotation h x (2 * sg s)))"
  have e: "avl_rotation h x (2 * sg s) = Some (True, h')"
    using X C G by (simp add: avl_rotation_def Let_def rotation_args h'_def setters)
  have b4: "av_balance (set_up a b c' k) = av_balance k" "av_balance (set_child a c' b k) = av_balance k" for a b c' k
    by (simp_all add: setters)
  have h': "h' = (let h1 = set_child x s (pt GR) h; h1 = set_up (pt GR) x s h1; h1 = set_child c (\<not> s) (pt GL) h1;
      h1 = set_up (pt GL) c (\<not> s) h1; h1 = set_child g s c h1;
      h1 = AVL_SETBALANCE c (if gb = - sg s then sg s else 0) h1; h1 = AVL_SETPARENT c g h1;
      h1 = AVL_SETCHILD c s h1; h1 = set_child g (\<not> s) x h1;
      h1 = AVL_SETBALANCE x (if gb = sg s then - sg s else 0) h1;
      h1 = AVL_SETPARENT x g h1; h1 = AVL_SETCHILD x (\<not> s) h1; h1 = AVL_SETBALANCE g 0 h1;
      h1 = AVL_SETPARENT g ?p h1; h1 = AVL_SETCHILD g (av_xchild h x) h1
      in set_down ?p (av_xchild h x) g h1)"
    using X C G hx by (simp add: h'_def avl_rotation_def Let_def rotation_args b4)
  have ch: "av_child h' y = (if y = ?p \<and> y \<noteq> 0 then (av_child h y)(av_xchild h x := g)
      else if y = x then (av_child h x)(s := pt GR)
      else if y = c then (av_child h c)(\<not> s := pt GL)
      else if y = g then (av_child h g)(s := c, \<not> s := x) else av_child h y)" for y
    using n(4-6) px by (simp add: h' setter_child Let_def)
  have pa: "av_parent h' y = (if y = g then ?p else if y = x \<or> y = c then g
      else if y = pt GL \<and> pt GL \<noteq> 0 then c else if y = pt GR \<and> pt GR \<noteq> 0 then x else av_parent h y)" for y
    by (simp add: h' setter_parent Let_def)
  have xc: "av_xchild h' y = (if y = g then av_xchild h x else if y = x then \<not> s else if y = c then s
      else if y = pt GL \<and> pt GL \<noteq> 0 then \<not> s else if y = pt GR \<and> pt GR \<noteq> 0 then s else av_xchild h y)" for y
    by (simp add: h' setter_xchild Let_def)
  have ba: "av_balance h' y = (if y = x then (if gb = sg s then - sg s else 0)
      else if y = c then (if gb = - sg s then sg s else 0) else if y = g then 0 else av_balance h y)" for y
    using n(4-6) by (simp add: h' setter_balance Let_def)
  have ro: "av_root h' = (if ?p = 0 then g else av_root h)"
    and nn: "av_numnodes h' = av_numnodes h" "av_compar h' = av_compar h"
    by (simp_all add: h' setters Let_def)
  have nz: "0 \<notin> fnodes fs" "0 \<notin> set (inorder CL)" "0 \<notin> set (inorder GL)" "0 \<notin> set (inorder GR)" "0 \<notin> set (inorder B)"
    using crep_nonzero [OF cr] core_nonzero C(6) G(5,6) X(5) by auto
  have oF: "y \<noteq> x \<and> y \<noteq> c \<and> y \<noteq> g \<and> y \<noteq> pt GL \<and> y \<noteq> pt GR" if "y \<in> fnodes fs" for y
    using that n(1-3,26,27) ptr nz(1) by (metis disjoint_iff)
  have oC: "y \<noteq> x \<and> y \<noteq> c \<and> y \<noteq> g \<and> y \<noteq> ?p \<and> y \<noteq> pt GL \<and> y \<noteq> pt GR" if "y \<in> set (inorder CL)" for y
    using that n(7,11,15,19,20) px2(1) ptr nz(2) by (metis disjoint_iff)
  have oL: "y \<noteq> x \<and> y \<noteq> c \<and> y \<noteq> g \<and> y \<noteq> ?p \<and> y \<noteq> pt GR" if "y \<in> set (inorder GL)" for y
    using that n(8,12,16,22) px2(2) ptr nz(3) by (metis disjoint_iff)
  have oR: "y \<noteq> x \<and> y \<noteq> c \<and> y \<noteq> g \<and> y \<noteq> ?p \<and> y \<noteq> pt GL" if "y \<in> set (inorder GR)" for y
    using that n(9,13,17,22) px2(3) ptr nz(4) by (metis disjoint_iff)
  have oB: "y \<noteq> x \<and> y \<noteq> c \<and> y \<noteq> g \<and> y \<noteq> ?p \<and> y \<noteq> pt GL \<and> y \<noteq> pt GR" if "y \<in> set (inorder B)" for y
    using that n(10,14,18,23,24) px2(4) ptr nz(5) by (metis disjoint_iff)
  have "crep h' fs g"
  proof (rule crep_same [OF cr fd])
    show "av_balance h' y = av_balance h y \<and> av_parent h' y = av_parent h y \<and> av_xchild h' y = av_xchild h y"
      if "y \<in> fnodes fs" for y using oF [OF that] by (simp add: pa xc ba)
    show "av_child h' y = av_child h y" if "y \<in> fnodes fs" "y \<noteq> ?p" for y
      using oF [OF that(1)] that(2) by (simp add: ch)
    show "av_child h' ?p = (av_child h ?p)(fchild fs := g)" if "fs \<noteq> []" using that p hx by (simp add: ch)
    show "av_root h' = (if fs = [] then g else av_root h)" using p by (simp add: ro)
  qed
  moreover have "core h' CL" by (rule core_same [OF C(6) dd(1)]) (use oC in \<open>simp_all add: ch pa xc ba\<close>)
  moreover have "core h' GL" by (rule core_same [OF G(5) dd(2)]) (use oL in \<open>simp_all add: ch pa xc ba\<close>)
  moreover have "core h' GR" by (rule core_same [OF G(6) dd(3)]) (use oR in \<open>simp_all add: ch pa xc ba\<close>)
  moreover have "core h' B" by (rule core_same [OF X(5) dd(4)]) (use oB in \<open>simp_all add: ch pa xc ba\<close>)
  moreover have "uplink h' c s CL"
    by (rule uplink_same [OF C(5)]) (use oC [OF pt_in] in \<open>simp add: pa xc\<close>)
  moreover have "uplink h' x (\<not> s) B"
    by (rule uplink_same [OF X(4)]) (use oB [OF pt_in] in \<open>simp add: pa xc\<close>)
  moreover have "uplink h' x s GR" "uplink h' c (\<not> s) GL"
    using pne(1-6) pne(7) [symmetric] ptr by (auto simp: uplink_def pa xc)
  moreover have "uplink h' g s (nd s CL c b' GL)" "uplink h' g (\<not> s) (nd s GR x b' B)" for b'
    using n(4-6) by (simp_all add: uplink_def pa xc)
  moreover have "uplink h' ?p (fchild fs) T'"
    using n hx by (simp add: T'_def uplink_def pa xc)
  moreover have "av_child h' c s = pt CL" "av_child h' c (\<not> s) = pt GL" "av_child h' x s = pt GR"
    "av_child h' x (\<not> s) = pt B" "av_child h' g s = c" "av_child h' g (\<not> s) = x"
    using n px X C G by (simp_all add: ch)
  moreover have "distinct (inorder (fill fs T'))"
    using di unfolding inorder_fill T'_def inorder_double [of s CL c _ GL g _ GR x _ B "- sg s" gb b] .
  ultimately have "rep h' (fill fs T')"
    unfolding rep_fill using X(1) C(1) G(1) n(4-6) by (simp add: T'_def core_nd ba)
  then show ?thesis using e nn by auto
qed

end
