(* ===== verification/Avl_Insert.thy ===== *)
theory Avl_Insert imports Avl_Rep
begin

text \<open>
  \<^verbatim>\<open>avl_insert\<close> and \<^verbatim>\<open>avl_find\<close> on represented trees: the new node is
  put between its neighbours and the balance invariant is restored.
\<close>

section \<open>Small changes\<close>

lemma inorder_setbal: "inorder (fill fs (nd s A x b' B)) = inorder (fill fs (nd s A x b B))"
  by (simp add: inorder_fill nd_def)

lemma rep_setbal:
  assumes "rep h (fill fs (nd s A x b B))"
  shows "rep (AVL_SETBALANCE x b' h) (fill fs (nd s A x b' B))"
proof -
  let ?h = "AVL_SETBALANCE x b' h" and ?T = "nd s A x b B"
  from assms have cr: "crep h fs x" and up: "uplink h (fparent fs) (fchild fs) ?T" and co: "core h ?T"
    and di: "distinct (inorder (fill fs ?T))"
    by (simp_all add: rep_fill)
  from di have d: "distinct (inorder ?T)" "fdist fs" "set (inorder ?T) \<inter> fnodes fs = {}"
    by (simp_all add: distinct_fill)
  have "crep ?h fs x"
  proof (rule crep_same [OF cr d(2)])
    show "av_balance ?h y = av_balance h y \<and> av_parent ?h y = av_parent h y \<and> av_xchild ?h y = av_xchild h y"
      if "y \<in> fnodes fs" for y using that d(3) by (auto simp: setter_parent setter_xchild setter_balance)
    show "av_child ?h (fparent fs) = (av_child h (fparent fs))(fchild fs := x)" if "fs \<noteq> []"
    proof (cases fs)
      case (Cons f gs)
      then show ?thesis using cr by (cases f) (auto simp: setter_child)
    qed (use that in simp)
    show "av_root ?h = (if fs = [] then x else av_root h)" using cr by (auto simp: AVL_SETBALANCE_def)
  qed (simp add: setter_child)
  moreover have "core ?h A" "core ?h B"
    by (rule core_same [of h]; use co d(1) in \<open>auto simp: core_nd setter_child setter_parent setter_xchild setter_balance\<close>)+
  ultimately show ?thesis using up co di inorder_setbal [of fs s A x b' B b]
    by (auto simp: rep_fill core_nd uplink_def setter_child setter_parent setter_xchild setter_balance)
qed

lemma AVL_SETBALANCE_same [simp]: "av_numnodes (AVL_SETBALANCE x b h) = av_numnodes h"
  "av_compar (AVL_SETBALANCE x b h) = av_compar h" "av_root (AVL_SETBALANCE x b h) = av_root h"
  by (simp_all add: AVL_SETBALANCE_def)

lemma rep_frame:
  assumes "rep h (fill (Fr s x b B # fs) S)"
  shows "x \<noteq> 0" "av_balance h x = b" "av_parent h x = fparent fs" "fs \<noteq> [] \<Longrightarrow> av_xchild h x = fchild fs"
    "fparent fs = 0 \<longleftrightarrow> fs = []"
proof -
  have c: "crep h (Fr s x b B # fs) (pt S)" using assms by (simp only: rep_fill)
  then show "x \<noteq> 0" "av_balance h x = b" "av_parent h x = fparent fs" by simp_all
  from c have "crep h fs x" by simp
  then show "fparent fs = 0 \<longleftrightarrow> fs = []" by (rule crep_fparent)
  then show "fs \<noteq> [] \<Longrightarrow> av_xchild h x = fchild fs" using c by simp
qed

section \<open>Restoring the balance after an insertion\<close>

fun tbal :: "tree \<Rightarrow> int" where
  "tbal Lf = 0"
| "tbal (Nd A x b B) = b"

lemma tbal_nd [simp]: "tbal (nd s A x b B) = b"
  by (simp add: nd_def)

text \<open>The two shapes a rotation meets when the child is not balanced.\<close>

lemma rotate_heavy:
  assumes r: "rep h (fill fs (nd s S x b B))" and S: "avl S" "ht S = ht B + 2" "tbal S \<noteq> 0" and B: "avl B"
  shows "\<exists>h' T. avl_rotation h x (2 * sg s) = Some (True, h') \<and> rep h' (fill fs T) \<and> avl T \<and>
    ht T = ht B + 2 \<and> inorder T = inorder (nd s S x b B) \<and>
    av_numnodes h' = av_numnodes h \<and> av_compar h' = av_compar h"
proof -
  obtain CL c cb CR where SC: "S = nd s CL c cb CR" by (rule nd_exhaust [where T = S and s = s]) (use S(2) in auto)
  have a: "avl CL" "avl CR" "cb = sg s * (int (ht CL) - int (ht CR))" "\<bar>cb\<bar> \<le> 1" "cb \<noteq> 0"
    "max (ht CL) (ht CR) = Suc (ht B)"
    using S SC by (auto simp: avl_nd)
  show ?thesis
  proof (cases "cb = - sg s")
    case False
    then have e: "cb = sg s" "ht CL = Suc (ht B)" "ht CR = ht B" using a by (cases s; auto)+
    have "rep h (fill fs (nd s (nd s CL c cb CR) x b B))" using r SC by simp
    from rotation_single [OF this False] obtain h' where
      "avl_rotation h x (2 * sg s) = Some (cb - sg s = 0, h')"
      "rep h' (fill fs (nd s CL c (cb - sg s) (nd s CR x (sg s - cb) B)))"
      "av_numnodes h' = av_numnodes h" "av_compar h' = av_compar h" by blast
    moreover have "avl (nd s CL c (cb - sg s) (nd s CR x (sg s - cb) B))" using a e B by (simp add: avl_nd)
    moreover have "ht (nd s CL c (cb - sg s) (nd s CR x (sg s - cb) B)) = ht B + 2" using e by simp
    moreover have "inorder (nd s CL c (cb - sg s) (nd s CR x (sg s - cb) B)) = inorder (nd s S x b B)"
      unfolding SC by (rule inorder_single)
    ultimately show ?thesis using e(1) by auto
  next
    case True
    then have e: "ht CL = ht B" "ht CR = Suc (ht B)" using a by (cases s; auto)+
    obtain GL g gb GR where CR: "CR = nd s GL g gb GR" by (rule nd_exhaust [where T = CR and s = s]) (use e(2) in auto)
    have g: "avl GL" "avl GR" "gb = sg s * (int (ht GL) - int (ht GR))" "\<bar>gb\<bar> \<le> 1" "max (ht GL) (ht GR) = ht B"
      using a(2) e(2) CR by (auto simp: avl_nd)
    let ?T = "nd s (nd s CL c (if gb = - sg s then sg s else 0) GL) g 0
      (nd s GR x (if gb = sg s then - sg s else 0) B)"
    have "rep h (fill fs (nd s (nd s CL c (- sg s) (nd s GL g gb GR)) x b B))" using r SC CR True by simp
    from rotation_double [OF this] obtain h' where
      "avl_rotation h x (2 * sg s) = Some (True, h')" "rep h' (fill fs ?T)"
      "av_numnodes h' = av_numnodes h" "av_compar h' = av_compar h" by blast
    moreover have "avl ?T" using a e g B by (cases s; auto simp: avl_nd)
    moreover have "ht ?T = ht B + 2" using e g by auto
    moreover have "inorder ?T = inorder (nd s S x b B)"
      unfolding SC CR by (rule inorder_double)
    ultimately show ?thesis by blast
  qed
qed

lemma insert_loop:
  assumes "rep h (fill fs S)" "avl S" "ht S = Suc k" "cavl fs k" "k \<noteq> 0 \<Longrightarrow> tbal S \<noteq> 0"
    "fs \<noteq> [] \<Longrightarrow> c = fchild fs"
  shows "\<exists>h' T. avl_insert_loop (fparent fs) c h = Some h' \<and> rep h' T \<and> avl T \<and>
    inorder T = inorder (fill fs S) \<and> av_numnodes h' = av_numnodes h \<and> av_compar h' = av_compar h"
  using assms
proof (induction fs arbitrary: h S k c)
  case Nil
  then show ?case by (auto simp: avl_insert_loop.simps)
next
  case (Cons f fs)
  obtain s x b B where f: "f = Fr s x b B" by (cases f)
  have fx: "x \<noteq> 0" "av_balance h x = b" "av_parent h x = fparent fs" "fs \<noteq> [] \<Longrightarrow> av_xchild h x = fchild fs"
    using rep_frame [of h s x b B fs S] Cons.prems(1) unfolding f by blast+
  have r: "rep h (fill fs (nd s S x b B))" using Cons.prems(1) by (simp add: f plug_def)
  have inv: "avl B" "b = sg s * (int k - int (ht B))" "\<bar>b\<bar> \<le> 1" "cavl fs (Suc (max k (ht B)))"
    using Cons.prems(4) unfolding f cavl.simps by blast+
  have c: "c = s" using Cons.prems(6) by (simp add: f)
  have unf: "avl_insert_loop (fparent (f # fs)) c h =
      (if b + sg s = 0 then Some (AVL_SETBALANCE x 0 h)
       else if b \<noteq> 0 then map_option snd (avl_rotation h x (b + sg s))
       else avl_insert_loop (fparent fs) (av_xchild h x) (AVL_SETBALANCE x (b + sg s) h))"
    using fx by (subst avl_insert_loop.simps) (simp add: f c Let_def setter_parent setter_xchild)
  have eq: "inorder (fill (f # fs) S) = inorder (fill fs (nd s S x b' B))" for b'
    by (simp add: f plug_def inorder_setbal [of fs s S x b' B b])
  show ?case
  proof (cases "b + sg s = 0")
    case True
    then have k: "ht B = Suc k" using inv(2) by (cases s) auto
    have "avl (fill fs (nd s S x 0 B))"
      using Cons.prems(2,3) inv k by (simp add: avl_fill avl_nd)
    then show ?thesis using rep_setbal [OF r, of 0] True unf eq [of 0] by auto
  next
    case n0: False
    show ?thesis
    proof (cases "b = 0")
      case False
      then have b: "b = sg s" "k = Suc (ht B)" using n0 inv(2,3) by (cases s; auto)+
      then have "b + sg s = 2 * sg s" by simp
      moreover obtain h' T where "avl_rotation h x (2 * sg s) = Some (True, h')" "rep h' (fill fs T)" "avl T"
        "ht T = ht B + 2" "inorder T = inorder (nd s S x b B)"
        "av_numnodes h' = av_numnodes h" "av_compar h' = av_compar h"
        using rotate_heavy [OF r Cons.prems(2)] Cons.prems(3,5) b inv(1) by auto
      moreover have "avl (fill fs T)" using \<open>avl T\<close> \<open>ht T = ht B + 2\<close> inv(4) b by (simp add: avl_fill)
      moreover have "inorder (fill fs T) = inorder (fill (f # fs) S)"
        using \<open>inorder T = _\<close> eq [of b] by (simp add: inorder_fill)
      ultimately show ?thesis using unf n0 False by auto
    next
      case True
      then have k: "ht B = k" using inv(2) by (cases s) auto
      let ?h = "AVL_SETBALANCE x (sg s) h" and ?S = "nd s S x (sg s) B"
      have "rep ?h (fill fs ?S)" by (rule rep_setbal [OF r])
      moreover have "avl ?S" "ht ?S = Suc (Suc k)" using Cons.prems(2,3) inv k by (simp_all add: avl_nd)
      moreover have "cavl fs (Suc k)" using inv k by simp
      ultimately have "\<exists>h' T. avl_insert_loop (fparent fs) (av_xchild h x) ?h = Some h' \<and> rep h' T \<and> avl T \<and>
          inorder T = inorder (fill fs ?S) \<and> av_numnodes h' = av_numnodes ?h \<and> av_compar h' = av_compar ?h"
        using fx(4) by (intro Cons.IH [of ?h ?S "Suc k"]) auto
      then show ?thesis using unf True n0 eq [of "sg s"] by simp
    qed
  qed
qed

section \<open>Insertion at a leaf position\<close>

lemma rep_new_leaf:
  fixes n :: nat
  assumes r: "rep h (fill fs Lf)" and e: "e \<noteq> 0" "e \<notin> set (inorder (fill fs Lf))" and c: "fs \<noteq> [] \<Longrightarrow> c = fchild fs"
  defines "h' \<equiv> set_down (fparent fs) c e (AVL_SETPARENT e (fparent fs) (AVL_SETBALANCE e 0 (AVL_SETCHILD e c
    (set_child e True 0 (set_child e False 0 (h\<lparr>av_numnodes := n\<rparr>))))))"
  shows "rep h' (fill fs (nd True Lf e 0 Lf))" "av_numnodes h' = n" "av_compar h' = av_compar h"
proof -
  let ?p = "fparent fs"
  from r have cr: "crep h fs 0" and di: "distinct (inorder (fill fs Lf))"
    by (simp_all add: rep_fill)
  have ne: "e \<notin> fnodes fs" using e(2) by (simp add: set_inorder_fill)
  have fd: "fdist fs" using di by (simp add: distinct_fill)
  have p: "?p = 0 \<longleftrightarrow> fs = []" by (rule crep_fparent [OF cr])
  have px: "?p \<noteq> e" using fparent_in [of fs] ne e(1) by (cases "fs = []") auto
  have ch: "av_child h' y = (if y = ?p \<and> y \<noteq> 0 then (av_child h y)(c := e)
      else if y = e then (av_child h e)(False := 0, True := 0) else av_child h y)" for y
    using px by (auto simp: h'_def setter_child)
  have pa: "av_parent h' y = (if y = e then ?p else av_parent h y)" for y
    by (simp add: h'_def setter_parent)
  have xc: "av_xchild h' y = (if y = e then c else av_xchild h y)" for y
    by (simp add: h'_def setter_xchild)
  have ba: "av_balance h' y = (if y = e then 0 else av_balance h y)" for y
    by (simp add: h'_def setter_balance)
  have ro: "av_root h' = (if ?p = 0 then e else av_root h)" and "av_numnodes h' = n" "av_compar h' = av_compar h"
    by (simp_all add: h'_def setters)
  have ea: "y \<noteq> e" if "y \<in> fnodes fs" for y using that ne by auto
  have "crep h' fs e"
  proof (rule crep_same [OF cr fd])
    show "av_balance h' y = av_balance h y \<and> av_parent h' y = av_parent h y \<and> av_xchild h' y = av_xchild h y"
      if "y \<in> fnodes fs" for y using ea [OF that] by (simp add: pa xc ba)
    show "av_child h' y = av_child h y" if "y \<in> fnodes fs" "y \<noteq> ?p" for y
      using ea [OF that(1)] that(2) by (simp add: ch)
    show "av_child h' ?p = (av_child h ?p)(fchild fs := e)" if "fs \<noteq> []" using that p c by (simp add: ch)
    show "av_root h' = (if fs = [] then e else av_root h)" using p by (simp add: ro)
  qed
  moreover have "uplink h' ?p (fchild fs) (nd True Lf e 0 Lf)" using c p by (auto simp: uplink_def pa xc)
  moreover have "core h' (nd True Lf e 0 Lf)" using e(1) px by (simp add: core_nd ba ch)
  moreover have "distinct (inorder (fill fs (nd True Lf e 0 Lf)))"
    using di ne by (simp add: distinct_fill)
  ultimately show "rep h' (fill fs (nd True Lf e 0 Lf))" by (simp add: rep_fill)
  show "av_numnodes h' = n" "av_compar h' = av_compar h" by fact+
qed

lemma insert_at:
  assumes "rep h (fill fs Lf)" "avl (fill fs Lf)" "e \<noteq> 0" "e \<notin> set (inorder (fill fs Lf))"
    "fs \<noteq> [] \<Longrightarrow> c = fchild fs"
  shows "\<exists>h' T. avl_insert h e (fparent fs, c) = Some h' \<and> rep h' T \<and> avl T \<and>
    inorder T = prio True fs @ e # post True fs \<and> av_numnodes h' = av_numnodes h + 1 \<and>
    av_compar h' = av_compar h"
proof -
  let ?h = "set_down (fparent fs) c e (AVL_SETPARENT e (fparent fs) (AVL_SETBALANCE e 0 (AVL_SETCHILD e c
    (set_child e True 0 (set_child e False 0 (h\<lparr>av_numnodes := av_numnodes h + 1\<rparr>))))))"
  note n = rep_new_leaf [OF assms(1,3,4,5), where n = "av_numnodes h + 1"]
  have "\<exists>h' T. avl_insert_loop (fparent fs) c ?h = Some h' \<and> rep h' T \<and> avl T \<and>
      inorder T = inorder (fill fs (nd True Lf e 0 Lf)) \<and> av_numnodes h' = av_numnodes ?h \<and>
      av_compar h' = av_compar ?h"
    by (rule insert_loop [where k = 0, OF n(1)]) (use assms(2,5) in \<open>simp_all add: avl_nd avl_fill\<close>)
  moreover have "avl_insert h e (fparent fs, c) = avl_insert_loop (fparent fs) c ?h"
    using assms(3) by (simp add: avl_insert_def Let_def)
  moreover have "inorder (fill fs (nd True Lf e 0 Lf)) = prio True fs @ e # post True fs"
    by (simp add: inorder_fill nd_def)
  ultimately show ?thesis using n(2,3) by (simp del: fun_upd_apply)
qed

section \<open>Searching\<close>

text \<open>The comparisons with a value fall along the tree: 1 for the nodes before it, then 0, then -1.\<close>

definition ordered :: "(aptr \<Rightarrow> int) \<Rightarrow> aptr list \<Rightarrow> bool" where
  "ordered diff ns \<longleftrightarrow> (\<forall>n \<in> set ns. diff n \<in> {-1, 0, 1}) \<and> sorted (map (\<lambda>n. - diff n) ns)"

lemma ordered_append: "ordered diff (xs @ ys) \<longleftrightarrow> ordered diff xs \<and> ordered diff ys \<and>
    (\<forall>x \<in> set xs. \<forall>y \<in> set ys. diff y \<le> diff x)"
  by (auto simp: ordered_def sorted_append)

lemma ordered_Cons: "ordered diff (x # xs) \<longleftrightarrow> diff x \<in> {-1, 0, 1} \<and> ordered diff xs \<and>
    (\<forall>y \<in> set xs. diff y \<le> diff x)"
  by (auto simp: ordered_def)

lemma find_loop:
  assumes "rep h (fill fs S)" "ordered diff (inorder (fill fs S))"
    "\<forall>n \<in> set (prio True fs). diff n = 1" "\<forall>n \<in> set (post True fs). diff n = -1" "fs \<noteq> [] \<Longrightarrow> c = fchild fs"
  shows "(\<exists>n \<in> set (inorder S). diff n = 0 \<and> avl_find_loop h diff (pt S) (fparent fs) c = Some (n, None)) \<or>
    (\<exists>gs c'. fill fs S = fill gs Lf \<and> (gs \<noteq> [] \<longrightarrow> c' = fchild gs) \<and>
      (\<forall>n \<in> set (prio True gs). diff n = 1) \<and> (\<forall>n \<in> set (post True gs). diff n = -1) \<and>
      avl_find_loop h diff (pt S) (fparent fs) c = Some (0, Some (fparent gs, c')))"
  using assms
proof (induction S arbitrary: fs c)
  case Lf
  show ?case
    by (rule disjI2, rule exI [of _ fs], rule exI [of _ c]) (use Lf in \<open>simp add: avl_find_loop.simps\<close>)
next
  case (Nd A x b B)
  let ?T = "Nd A x b B"
  have x: "x \<noteq> 0" "av_child h x False = pt A" "av_child h x True = pt B"
    using Nd.prems(1) by (auto simp: rep_fill)
  have o: "ordered diff (inorder A @ x # inorder B)"
    using Nd.prems(2) by (simp add: inorder_fill ordered_append ordered_Cons)
  then have d: "diff x = -1 \<or> diff x = 0 \<or> diff x = 1"
    and le: "\<forall>n \<in> set (inorder B). diff n \<le> diff x" "\<forall>n \<in> set (inorder A). diff x \<le> diff n"
    and oAB: "ordered diff (inorder A)" "ordered diff (inorder B)"
    by (simp_all add: ordered_append ordered_Cons)
  have dAB: "\<forall>n \<in> set (inorder A) \<union> set (inorder B). diff n \<in> {-1, 0, 1}"
    using oAB by (auto simp: ordered_def)
  have unf: "avl_find_loop h diff (pt ?T) (fparent fs) c = (if diff x = 0 then Some (x, None)
      else avl_find_loop h diff (if diff x = 1 then pt B else pt A) x (diff x = 1))"
    using x d by (subst avl_find_loop.simps) (auto simp: avl_balance2child_def)
  consider "diff x = 0" | "diff x = -1" | "diff x = 1" using d by auto
  then show ?case
  proof cases
    case 1
    then show ?thesis using unf by auto
  next
    case 2
    let ?fs = "Fr False x b B # fs"
    have fl: "fill ?fs A = fill fs ?T" by (simp add: plug_def nd_def)
    have "\<forall>n \<in> set (inorder B). diff n = -1"
    proof
      fix n assume n: "n \<in> set (inorder B)"
      then have "diff n = -1 \<or> diff n = 0 \<or> diff n = 1" using dAB by auto
      moreover have "diff n \<le> -1" using le(1) n 2 by auto
      ultimately show "diff n = -1" by linarith
    qed
    then have "\<forall>n \<in> set (post True ?fs). diff n = -1" "\<forall>n \<in> set (prio True ?fs). diff n = 1"
      using Nd.prems(3,4) 2 by (auto simp: ord_def)
    with Nd.IH(1) [of ?fs False] Nd.prems(1,2) fl unf 2 show ?thesis by auto
  next
    case 3
    let ?fs = "Fr True x b A # fs"
    have fl: "fill ?fs B = fill fs ?T" by (simp add: plug_def nd_def)
    have "\<forall>n \<in> set (inorder A). diff n = 1"
    proof
      fix n assume n: "n \<in> set (inorder A)"
      then have "diff n = -1 \<or> diff n = 0 \<or> diff n = 1" using dAB by auto
      moreover have "1 \<le> diff n" using le(2) n 3 by auto
      ultimately show "diff n = 1" by linarith
    qed
    then have "\<forall>n \<in> set (post True ?fs). diff n = -1" "\<forall>n \<in> set (prio True ?fs). diff n = 1"
      using Nd.prems(3,4) 3 by (auto simp: ord_def)
    with Nd.IH(2) [of ?fs True] Nd.prems(1,2) fl unf 3 show ?thesis by auto
  qed
qed

text \<open>A search finds a node that compares equal, or the place between the smaller and the
  greater nodes.\<close>

lemma avl_find_spec:
  assumes "rep h T" "ordered (cmp v) (inorder T)"
    "cmp = (case compare of None \<Rightarrow> av_compar h | Some f \<Rightarrow> f)"
  shows "(\<exists>n \<in> set (inorder T). cmp v n = 0 \<and> avl_find h compare v = Some (n, None)) \<or>
    (\<exists>gs c. T = fill gs Lf \<and> (gs \<noteq> [] \<longrightarrow> c = fchild gs) \<and>
      (\<forall>n \<in> set (prio True gs). cmp v n = 1) \<and> (\<forall>n \<in> set (post True gs). cmp v n = -1) \<and>
      avl_find h compare v = Some (0, Some (fparent gs, c)))"
proof -
  have e: "avl_find h compare v = avl_find_loop h (cmp v) (pt T) (fparent []) False"
    using assms(1,3) by (cases compare) (simp_all add: avl_find_def rep_def)
  have "(\<exists>n \<in> set (inorder T). cmp v n = 0 \<and> avl_find_loop h (cmp v) (pt T) (fparent []) False = Some (n, None)) \<or>
    (\<exists>gs c'. fill [] T = fill gs Lf \<and> (gs \<noteq> [] \<longrightarrow> c' = fchild gs) \<and>
      (\<forall>n \<in> set (prio True gs). cmp v n = 1) \<and> (\<forall>n \<in> set (post True gs). cmp v n = -1) \<and>
      avl_find_loop h (cmp v) (pt T) (fparent []) False = Some (0, Some (fparent gs, c')))"
    by (rule find_loop) (use assms in simp_all)
  then show ?thesis unfolding e by simp
qed

end
