(* ===== verification/Avl_Walk.thy ===== *)
theory Avl_Walk imports Avl_Rep
begin

text \<open>
  Walking a represented tree: the first and last node, the neighbour of a node in either
  direction, and the walk over all nodes.
\<close>

lemma descend_spec:
  "core h S \<Longrightarrow> S \<noteq> Lf \<Longrightarrow>
   descend h (\<not> d) (pt S) = Some (hd (ord d S)) \<and> av_child h (hd (ord d S)) (\<not> d) = 0 \<and>
   hd (ord d S) \<in> set (inorder S)"
proof (induction S)
  case (Nd L x b R)
  define A where "A = (if d then R else L)"
  define B where "B = (if d then L else R)"
  have T: "Nd L x b R = nd d A x b B" by (simp add: nd_def A_def B_def)
  have c: "x \<noteq> 0" "av_child h x (\<not> d) = pt B" "core h B"
    using Nd.prems(1) unfolding T core_nd by simp_all
  have IH: "B \<noteq> Lf \<Longrightarrow> descend h (\<not> d) (pt B) = Some (hd (ord d B)) \<and> av_child h (hd (ord d B)) (\<not> d) = 0 \<and>
      hd (ord d B) \<in> set (inorder B)"
    using Nd.IH c(3) by (cases d) (simp_all add: B_def)
  show ?case
  proof (cases "B = Lf")
    case True
    then show ?thesis unfolding T using c by (subst descend.simps) simp
  next
    case False
    then have "ord d B \<noteq> []" by (cases B) (auto simp: ord_def)
    then show ?thesis unfolding T using c IH [OF False] core_pt [OF c(3)] False
      by (subst descend.simps) simp
  qed
qed simp

definition first_of :: "aptr list \<Rightarrow> aptr" where
  "first_of xs = (case xs of [] \<Rightarrow> 0 | x # _ \<Rightarrow> x)"

lemma first_of_simps [simp]: "first_of [] = 0" "first_of (x # xs) = x"
  by (simp_all add: first_of_def)

lemma first_of_append: "xs \<noteq> [] \<Longrightarrow> first_of (xs @ ys) = hd xs"
  by (cases xs) auto

lemma ascend_spec:
  assumes "rep h (fill fs S)" "S \<noteq> Lf"
  shows "ascend h (\<not> d) (pt S) = Some (first_of (post d fs))"
  using assms
proof (induction fs arbitrary: S)
  case Nil
  then show ?case by (subst ascend.simps) (simp add: rep_def uplink_def)
next
  case (Cons f fs)
  obtain s x b B where f: "f = Fr s x b B" by (cases f)
  have "x \<noteq> 0" "av_parent h (pt S) = x" "av_xchild h (pt S) = s"
    using Cons.prems unfolding rep_fill by (auto simp: f uplink_def)
  moreover have "ascend h (\<not> d) x = Some (first_of (post d fs))"
    using Cons.IH [of "nd s S x b B"] Cons.prems(1) by (simp add: f plug_def)
  ultimately show ?case by (subst ascend.simps) (auto simp: f)
qed

text \<open>\<^verbatim>\<open>avl_walk\<close> goes to the next node in its direction, or to no node.\<close>

lemma avl_walk_focus:
  assumes r: "rep h (fill fs (nd d A x b B))"
  shows "avl_walk h x d = Some (first_of (ord d A @ post d fs))"
proof -
  have c: "x \<noteq> 0" "av_child h x d = pt A" "core h A" using r by (simp_all add: rep_fill core_nd)
  show ?thesis
  proof (cases "A = Lf")
    case True
    then show ?thesis using c ascend_spec [OF r, of d] by (simp add: avl_walk_def)
  next
    case False
    then have "ord d A \<noteq> []" by (cases A) (auto simp: ord_def)
    then show ?thesis using c core_pt [OF c(3)] descend_spec [OF c(3) False, of d] False
      by (simp add: avl_walk_def first_of_append)
  qed
qed

lemma avl_walk_spec:
  assumes "rep h T" "ord d T = xs @ x # ys"
  shows "avl_walk h x d = Some (first_of ys)"
proof -
  have "x \<in> set (ord d T)" using assms(2) by simp
  then have "x \<in> set (inorder T)" by (simp add: ord_def split: if_splits)
  from fill_at [OF this, where s = d] obtain fs A b B where T: "T = fill fs (nd d A x b B)" by blast
  have "distinct (ord d T)" using assms(1) by (simp add: rep_def ord_def)
  moreover have "ord d T = (prio d fs @ ord d B) @ x # (ord d A @ post d fs)" by (simp add: T ord_fill)
  ultimately have "ys = ord d A @ post d fs"
    using assms(2) by (metis append_Cons_eq_iff distinct_append distinct.simps(2) disjoint_iff list.set_intros(1))
  with avl_walk_focus assms(1) T show ?thesis by simp
qed

lemma avl_end_spec:
  "core h S \<Longrightarrow> avl_end_loop h (\<not> d) (pt S) prev = Some (if S = Lf then prev else hd (ord d S))"
proof (induction S arbitrary: prev)
  case Lf
  then show ?case by (simp add: avl_end_loop.simps)
next
  case (Nd L x b R)
  define A where "A = (if d then R else L)"
  define B where "B = (if d then L else R)"
  have T: "Nd L x b R = nd d A x b B" by (simp add: nd_def A_def B_def)
  have c: "x \<noteq> 0" "av_child h x (\<not> d) = pt B" "core h B"
    using Nd.prems(1) unfolding T core_nd by simp_all
  have IH: "avl_end_loop h (\<not> d) (pt B) p = Some (if B = Lf then p else hd (ord d B))" for p
    using Nd.IH c(3) by (cases d) (simp_all add: B_def)
  have "B \<noteq> Lf \<Longrightarrow> ord d B \<noteq> []" by (cases B) (auto simp: ord_def)
  then show ?case unfolding T using c IH by (subst avl_end_loop.simps) simp
qed

lemma hd_ord: "first_of (ord d T) = (if T = Lf then 0 else hd (ord d T))"
  by (cases T; cases d) (auto simp: ord_def first_of_def split: list.split)

lemma avl_first_spec: "rep h T \<Longrightarrow> avl_first h = Some (first_of (inorder T))"
  using avl_end_spec [of h T True 0] hd_ord [of True T] by (simp add: avl_first_def rep_def ord_def)

lemma avl_last_spec: "rep h T \<Longrightarrow> avl_last h = Some (first_of (rev (inorder T)))"
  using avl_end_spec [of h T False 0] hd_ord [of False T] by (simp add: avl_last_def rep_def ord_def)

lemma avl_walk_all_loop_spec:
  assumes "rep h T" "inorder T = xs @ ys"
  shows "avl_walk_all_loop (\<lambda>n (h, s). let (r, s') = f n s in (r, h, s')) (first_of ys) (h, s) =
    Some (let (r, s') = walk_list f 0 ys s in (r, h, s'))"
  using assms(2)
proof (induction ys arbitrary: xs s)
  case Nil
  then show ?case by (simp add: avl_walk_all_loop.simps)
next
  case (Cons y ys)
  have "0 \<notin> set (inorder T)" using assms(1) core_nonzero by (auto simp: rep_def)
  then have y: "y \<noteq> 0" using Cons.prems by auto
  have w: "avl_walk h y True = Some (first_of ys)"
    using avl_walk_spec [OF assms(1), of True xs y ys] Cons.prems by (simp add: ord_def)
  obtain r s' where fs: "f y s = (r, s')" by (cases "f y s")
  show ?case
    using y w fs Cons.IH [of "xs @ [y]" s'] Cons.prems
    by (subst avl_walk_all_loop.simps) (auto split: prod.splits)
qed

end
