(* ===== verification/Avl_Remove.thy ===== *)
theory Avl_Remove imports Avl_Insert Avl_Walk
begin

text \<open>
  \<^verbatim>\<open>avl_remove\<close> on represented trees. The exchange of an inner node with its
  neighbour is a renaming of addresses; what follows removes a node with at most one child and
  restores the balance on the way up.
\<close>

section \<open>Restoring the balance after a removal\<close>

text \<open>A rotation whose heavy child is balanced keeps the height.\<close>

lemma rotate_balanced:
  assumes r: "rep h (fill fs (nd s S x b B))" and S: "avl S" "ht S = ht B + 2" "tbal S = 0" and B: "avl B"
  shows "\<exists>h' T. avl_rotation h x (2 * sg s) = Some (False, h') \<and> rep h' (fill fs T) \<and> avl T \<and>
    ht T = ht B + 3 \<and> inorder T = inorder (nd s S x b B) \<and>
    av_numnodes h' = av_numnodes h \<and> av_compar h' = av_compar h"
proof -
  obtain CL c cb CR where SC: "S = nd s CL c cb CR"
    by (rule nd_exhaust [where T = S and s = s]) (use S(2) in auto)
  have a: "avl CL" "avl CR" "cb = 0" "ht CL = Suc (ht B)" "ht CR = Suc (ht B)"
    using S SC by (auto simp: avl_nd)
  have "rep h (fill fs (nd s (nd s CL c cb CR) x b B))" using r SC by simp
  from rotation_single [OF this] a(3) obtain h' where
    "avl_rotation h x (2 * sg s) = Some (False, h')"
    "rep h' (fill fs (nd s CL c (- sg s) (nd s CR x (sg s) B)))"
    "av_numnodes h' = av_numnodes h" "av_compar h' = av_compar h" by auto
  moreover have "avl (nd s CL c (- sg s) (nd s CR x (sg s) B))" using a B by (simp add: avl_nd)
  moreover have "ht (nd s CL c (- sg s) (nd s CR x (sg s) B)) = ht B + 3" using a by simp
  moreover have "inorder (nd s CL c (- sg s) (nd s CR x (sg s) B)) = inorder (nd s S x b B)"
    unfolding SC by (rule inorder_single)
  ultimately show ?thesis by blast
qed

lemma remove_loop:
  assumes "rep h (fill fs S)" "avl S" "ht S = k" "cavl fs (Suc k)" "fs \<noteq> []" "c = fchild fs"
  shows "\<exists>h' T. avl_remove_loop (fparent fs) c h = Some h' \<and> rep h' T \<and> avl T \<and>
    inorder T = inorder (fill fs S) \<and> av_numnodes h' = av_numnodes h \<and> av_compar h' = av_compar h"
  using assms
proof (induction fs arbitrary: h S k c)
  case (Cons f fs)
  obtain s x b B where f: "f = Fr s x b B" by (cases f)
  note fx = rep_frame [OF Cons.prems(1) [unfolded f]]
  have r: "rep h (fill fs (nd s S x b B))" using Cons.prems(1) by (simp add: f plug_def)
  have inv: "avl B" "b = sg s * (int (Suc k) - int (ht B))" "\<bar>b\<bar> \<le> 1" "cavl fs (Suc (max (Suc k) (ht B)))"
    using Cons.prems(4) unfolding f cavl.simps by blast+
  have c: "c = s" using Cons.prems(6) by (simp add: f)
  have eq: "inorder (fill (f # fs) S) = inorder (fill fs (nd s S x b' B))" for b'
    by (simp add: f plug_def inorder_setbal [of fs s S x b' B b])
  have up: "\<exists>h'' T'. (if fparent fs \<noteq> 0 then avl_remove_loop (fparent fs) (av_xchild h x) h' else Some h') = Some h'' \<and>
      rep h'' T' \<and> avl T' \<and> inorder T' = inorder (fill (f # fs) S) \<and>
      av_numnodes h'' = av_numnodes h \<and> av_compar h'' = av_compar h"
    if "rep h' (fill fs T)" "avl T" "Suc (ht T) = Suc (max (Suc k) (ht B))"
      "inorder (fill fs T) = inorder (fill (f # fs) S)" "av_numnodes h' = av_numnodes h" "av_compar h' = av_compar h"
    for h' T
  proof (cases "fs = []")
    case True
    then show ?thesis using that by auto
  next
    case False
    have "\<exists>h'' T'. avl_remove_loop (fparent fs) (av_xchild h x) h' = Some h'' \<and> rep h'' T' \<and> avl T' \<and>
        inorder T' = inorder (fill fs T) \<and> av_numnodes h'' = av_numnodes h' \<and> av_compar h'' = av_compar h'"
      by (rule Cons.IH [OF that(1,2) refl]) (use that(3) inv(4) False fx(4) in simp_all)
    then show ?thesis using that False fx(5) by auto
  qed
  show ?case
  proof (cases "b = 0")
    case True
    then have k: "ht B = Suc k" using inv(2) by (cases s) auto
    have "avl (fill fs (nd s S x (- sg s) B))"
      using Cons.prems(2,3) inv k by (simp add: avl_fill avl_nd)
    moreover have "avl_remove_loop (fparent (f # fs)) c h = Some (AVL_SETBALANCE x (- sg s) h)"
      using fx(2) True by (subst avl_remove_loop.simps) (simp add: f c Let_def)
    ultimately show ?thesis using rep_setbal [OF r, of "- sg s"] eq [of "- sg s"] by auto
  next
    case b0: False
    show ?thesis
    proof (cases "b = sg s")
      case True
      then have k: "ht B = k" using inv(2) by (cases s) auto
      have "avl_remove_loop (fparent (f # fs)) c h = (if fparent fs \<noteq> 0
          then avl_remove_loop (fparent fs) (av_xchild h x) (AVL_SETBALANCE x 0 h) else Some (AVL_SETBALANCE x 0 h))"
        using fx(2,3) True b0 by (subst avl_remove_loop.simps) (simp add: f c Let_def)
      moreover have "avl (nd s S x 0 B)" using Cons.prems(2,3) inv(1) k by (simp add: avl_nd)
      ultimately show ?thesis
        using up [OF rep_setbal [OF r, of 0]] Cons.prems(3) eq [of 0] k by simp
    next
      case False
      then have b: "b = - sg s" "ht B = k + 2" using b0 inv(2,3) by (cases s; auto)+
      have r': "rep h (fill fs (nd (\<not> s) B x b S))" using r by (simp add: nd_flip)
      have unf: "avl_remove_loop (fparent (f # fs)) c h = (case avl_rotation h x (2 * sg (\<not> s)) of None \<Rightarrow> None
           | Some (shorter, h') \<Rightarrow> if \<not> shorter then Some h'
             else if fparent fs \<noteq> 0 then avl_remove_loop (fparent fs) (av_xchild h x) h' else Some h')"
        using fx(2,3) b0 b(1) by (subst avl_remove_loop.simps) (simp add: f c Let_def)
      have io: "inorder (nd (\<not> s) B x b S) = inorder (nd s S x b B)" by (simp add: nd_flip)
      show ?thesis
      proof (cases "tbal B = 0")
        case True
        from rotate_balanced [OF r' inv(1) _ True Cons.prems(2)] b(2) Cons.prems(3)
        obtain h' T where h': "avl_rotation h x (2 * sg (\<not> s)) = Some (False, h')" "rep h' (fill fs T)" "avl T"
          "ht T = k + 3" "inorder T = inorder (nd s S x b B)"
          "av_numnodes h' = av_numnodes h" "av_compar h' = av_compar h" unfolding io by auto
        moreover have "avl (fill fs T)" using h'(3,4) inv(4) b(2) by (simp add: avl_fill numeral_3_eq_3)
        moreover have "inorder (fill fs T) = inorder (fill (f # fs) S)"
          using h'(5) eq [of b] by (simp add: inorder_fill)
        ultimately show ?thesis using unf by auto
      next
        case False
        from rotate_heavy [OF r' inv(1) _ False Cons.prems(2)] b(2) Cons.prems(3)
        obtain h' T where h': "avl_rotation h x (2 * sg (\<not> s)) = Some (True, h')" "rep h' (fill fs T)" "avl T"
          "ht T = k + 2" "inorder T = inorder (nd s S x b B)"
          "av_numnodes h' = av_numnodes h" "av_compar h' = av_compar h" unfolding io by auto
        have "inorder (fill fs T) = inorder (fill (f # fs) S)"
          using h'(5) eq [of b] by (simp add: inorder_fill)
        then show ?thesis using up [OF h'(2,3) _ _ h'(6,7)] unf h'(1,4) b(2) by simp
      qed
    qed
  qed
qed simp

section \<open>Taking a node with at most one child out\<close>

text \<open>Splicing: the subtree \<open>A\<close> takes the place of its parent \<open>x\<close>.\<close>

lemma rep_splice:
  assumes r: "rep h (fill fs (nd s A x b Lf))" and c: "fs \<noteq> [] \<Longrightarrow> c = fchild fs"
  defines "h' \<equiv> set_down (fparent fs) c (pt A) (set_up (pt A) (fparent fs) c h)"
  shows "rep h' (fill fs A)" "av_numnodes h' = av_numnodes h" "av_compar h' = av_compar h"
proof -
  let ?p = "fparent fs" and ?T = "nd s A x b Lf"
  from r have cr: "crep h fs x" and co: "core h ?T" and di: "distinct (inorder (fill fs ?T))"
    by (simp_all add: rep_fill)
  from di have d: "distinct (inorder ?T)" "fdist fs" "set (inorder ?T) \<inter> fnodes fs = {}"
    by (simp_all add: distinct_fill)
  have A: "core h A" "uplink h x s A" using co by (simp_all add: core_nd)
  have p: "?p = 0 \<longleftrightarrow> fs = []" by (rule crep_fparent [OF cr])
  have nA: "pt A \<noteq> 0 \<Longrightarrow> pt A \<in> set (inorder A)" using pt_in core_pt [OF A(1)] by auto
  have ch: "av_child h' y = (if y = ?p \<and> y \<noteq> 0 then (av_child h y)(c := pt A) else av_child h y)" for y
    by (auto simp: h'_def setter_child)
  have pa: "av_parent h' y = (if y = pt A \<and> y \<noteq> 0 then ?p else av_parent h y)" for y
    by (simp add: h'_def setter_parent)
  have xc: "av_xchild h' y = (if y = pt A \<and> y \<noteq> 0 then c else av_xchild h y)" for y
    by (simp add: h'_def setter_xchild)
  have ba: "av_balance h' y = av_balance h y" for y
    by (simp add: h'_def setter_balance)
  have ro: "av_root h' = (if ?p = 0 then pt A else av_root h)" and "av_numnodes h' = av_numnodes h" "av_compar h' = av_compar h"
    by (simp_all add: h'_def setters)
  have nF: "y \<noteq> pt A \<or> y = 0" if "y \<in> fnodes fs" for y using that d(3) nA by auto
  have pA: "?p \<notin> set (inorder A) \<or> ?p = 0" using p fparent_in [of fs] d(3) by auto
  have "crep h' fs (pt A)"
  proof (rule crep_same [OF cr d(2)])
    show "av_balance h' y = av_balance h y \<and> av_parent h' y = av_parent h y \<and> av_xchild h' y = av_xchild h y"
      if "y \<in> fnodes fs" for y using nF [OF that] by (auto simp: pa xc ba)
    show "av_child h' y = av_child h y" if "y \<in> fnodes fs" "y \<noteq> ?p" for y
      using that(2) by (simp add: ch)
    show "av_child h' ?p = (av_child h ?p)(fchild fs := pt A)" if "fs \<noteq> []" using that p c by (simp add: ch)
    show "av_root h' = (if fs = [] then pt A else av_root h)" using p by (simp add: ro)
  qed
  moreover have "uplink h' ?p (fchild fs) A"
    using c p core_pt [OF A(1)] by (auto simp: uplink_def pa xc)
  moreover have "core h' A"
    by (rule core_same [OF A(1)]) (use d(1) pA in \<open>auto simp: ch pa xc ba\<close>)
  moreover have "distinct (inorder (fill fs A))" using di by (auto simp: distinct_fill)
  ultimately show "rep h' (fill fs A)" by (simp add: rep_fill)
  show "av_numnodes h' = av_numnodes h" "av_compar h' = av_compar h" by fact+
qed

lemma rep_more [simp]: "rep (h\<lparr>av_numnodes := n\<rparr>) T = rep h T"
proof -
  have "core (h\<lparr>av_numnodes := n\<rparr>) T = core h T"
    by (induction T) (simp_all add: uplink_def)
  then show ?thesis by (simp add: rep_def uplink_def)
qed

lemma remove_leaf:
  assumes r: "rep h (fill fs (nd s A x b Lf))" and a: "avl (fill fs (nd s A x b Lf))"
  shows "\<exists>h' T. avl_remove_splice x h = Some h' \<and> rep h' T \<and> avl T \<and> inorder T = inorder (fill fs A) \<and>
    av_numnodes h' = av_numnodes h - 1 \<and> av_compar h' = av_compar h"
proof -
  let ?h = "h\<lparr>av_numnodes := av_numnodes h - 1\<rparr>" and ?p = "fparent fs" and ?c = "av_xchild h x"
  let ?h' = "set_down ?p ?c (pt A) (set_up (pt A) ?p ?c ?h)"
  have x: "av_parent h x = ?p" "?p \<noteq> 0 \<Longrightarrow> ?c = fchild fs" "av_child h x s = pt A" "av_child h x (\<not> s) = 0"
    and cr: "crep h fs x"
    using r by (simp_all add: rep_fill uplink_def core_nd)
  have p: "?p = 0 \<longleftrightarrow> fs = []" by (rule crep_fparent [OF cr])
  have node: "(if av_child ?h x False \<noteq> 0 then av_child ?h x False else av_child ?h x True) = pt A"
    using x(3,4) by (cases s) auto
  have r': "rep ?h (fill fs (nd s A x b Lf))" using r by simp
  note sp = rep_splice [OF r', of ?c, unfolded p] 
  have h': "rep ?h' (fill fs A)" "av_numnodes ?h' = av_numnodes h - 1" "av_compar ?h' = av_compar h"
    using sp x(2) p by auto
  have aA: "avl A" "cavl fs (Suc (ht A))" using a by (auto simp: avl_fill avl_nd)
  show ?thesis
  proof (cases "fs = []")
    case True
    then have "avl_remove_splice x h = Some ?h'"
      using p x(1) unfolding avl_remove_splice_def Let_def node
      by (simp add: set_down_def)
    then show ?thesis using h' aA(1) True by auto
  next
    case False
    then have e: "avl_remove_splice x h = avl_remove_loop ?p ?c ?h'"
      using p x(1) unfolding avl_remove_splice_def Let_def node
      by (simp add: set_down_def)
    have "\<exists>h'' T. avl_remove_loop ?p ?c ?h' = Some h'' \<and> rep h'' T \<and> avl T \<and>
        inorder T = inorder (fill fs A) \<and> av_numnodes h'' = av_numnodes ?h' \<and> av_compar h'' = av_compar ?h'"
      by (rule remove_loop [OF h'(1) aA(1) refl aA(2) False]) (use False p x(2) in simp)
    then show ?thesis unfolding e h'(2,3) .
  qed
qed

end
