(* ===== verification/Avl_Swap.thy ===== *)
theory Avl_Swap imports Avl_Remove
begin

text \<open>
  The exchange \<^verbatim>\<open>avl_remove\<close> makes of a node with two children and its neighbour,
  as a renaming of addresses, and the correctness of \<^verbatim>\<open>avl_remove\<close>.
\<close>

section \<open>Renaming the nodes of a represented tree\<close>

fun mapt :: "(aptr \<Rightarrow> aptr) \<Rightarrow> tree \<Rightarrow> tree" where
  "mapt r Lf = Lf"
| "mapt r (Nd A x b B) = Nd (mapt r A) (r x) b (mapt r B)"

lemma mapt_simps [simp]: "inorder (mapt r T) = map r (inorder T)" "ht (mapt r T) = ht T"
  "mapt r T = Lf \<longleftrightarrow> T = Lf" "r 0 = 0 \<Longrightarrow> pt (mapt r T) = r (pt T)"
  by (induction T) simp_all

lemma avl_mapt [simp]: "avl (mapt r T) = avl T"
  by (induction T) simp_all

lemma core_rename:
  assumes "core h T" "r 0 = 0" "\<And>y. y \<in> set (inorder T) \<Longrightarrow> r y \<noteq> 0"
    "\<And>y c. y \<in> set (inorder T) \<Longrightarrow> av_child h' (r y) c = r (av_child h y c)"
    "\<And>y. y \<in> set (inorder T) \<Longrightarrow> av_parent h' (r y) = r (av_parent h y) \<and>
       av_xchild h' (r y) = av_xchild h y \<and> av_balance h' (r y) = av_balance h y"
  shows "core h' (mapt r T)"
  using assms
proof (induction T)
  case (Nd A x b B)
  have up: "uplink h' (r x) c (mapt r S)" if "uplink h x c S" "set (inorder S) \<subseteq> set (inorder (Nd A x b B))" for c S
  proof (cases S)
    case (Nd L y b' R)
    then have "y \<in> set (inorder (Nd A x b B))" using that(2) by auto
    then show ?thesis using that(1) Nd.prems(1,2,5) by (simp add: uplink_def Nd)
  qed simp
  have "uplink h' (r x) False (mapt r A)" "uplink h' (r x) True (mapt r B)"
    by (rule up; use Nd.prems(1) in auto)+
  moreover have "core h' (mapt r A)" by (rule Nd.IH(1)) (use Nd.prems in auto)
  moreover have "core h' (mapt r B)" by (rule Nd.IH(2)) (use Nd.prems in auto)
  ultimately show ?case using Nd.prems(1-4) Nd.prems(5) [of x] by simp
qed simp

lemma rep_rename:
  assumes "rep h T" "r 0 = 0" "\<And>y. y \<in> set (inorder T) \<Longrightarrow> r y \<noteq> 0" "inj_on r (set (inorder T))"
    "\<And>y c. y \<in> set (inorder T) \<Longrightarrow> av_child h' (r y) c = r (av_child h y c)"
    "\<And>y. y \<in> set (inorder T) \<Longrightarrow> av_parent h' (r y) = r (av_parent h y) \<and>
       av_xchild h' (r y) = av_xchild h y \<and> av_balance h' (r y) = av_balance h y"
    "av_root h' = r (av_root h)"
  shows "rep h' (mapt r T)"
proof -
  have "core h' (mapt r T)" by (rule core_rename [OF _ assms(2,3,5,6)]) (use assms(1) in \<open>simp_all add: rep_def\<close>)
  moreover have "uplink h' 0 False (mapt r T)"
  proof (cases T)
    case (Nd A x b B)
    then show ?thesis using assms(1,2,6) by (simp add: rep_def uplink_def)
  qed simp
  ultimately show ?thesis using assms(1,2,4,7) by (simp add: rep_def distinct_map)
qed

text \<open>The links of a represented tree go both ways.\<close>

lemma core_child:
  "core h T \<Longrightarrow> y \<in> set (inorder T) \<Longrightarrow> av_child h y c \<noteq> 0 \<Longrightarrow>
   av_child h y c \<in> set (inorder T) \<and> av_parent h (av_child h y c) = y \<and> av_xchild h (av_child h y c) = c"
proof (induction T)
  case (Nd A x b B)
  show ?case
  proof (cases "y = x")
    case True
    show ?thesis
    proof (cases c)
      case True
      then have "B \<noteq> Lf" using Nd.prems \<open>y = x\<close> by auto
      then show ?thesis using Nd.prems True \<open>y = x\<close> pt_in [of B] by (auto simp: uplink_def)
    next
      case False
      then have "A \<noteq> Lf" using Nd.prems \<open>y = x\<close> by auto
      then show ?thesis using Nd.prems False \<open>y = x\<close> pt_in [of A] by (auto simp: uplink_def)
    qed
  next
    case False
    then show ?thesis using Nd by auto
  qed
qed simp

lemma crep_root: "crep h fs r \<Longrightarrow> av_root h = r \<or> av_root h \<in> fnodes fs"
proof (induction fs arbitrary: r)
  case (Cons f fs)
  then show ?case by (cases f) auto
qed simp

lemma rep_parent:
  assumes "rep h T" "y \<in> set (inorder T)"
  shows "(av_parent h y = 0 \<and> av_root h = y) \<or>
    (av_parent h y \<in> set (inorder T) \<and> av_parent h y \<noteq> y \<and> av_root h \<noteq> y \<and> av_child h (av_parent h y) (av_xchild h y) = y)"
proof -
  from fill_at [OF assms(2), where s = True] obtain fs A b B where T: "T = fill fs (nd True A y b B)" by blast
  have r: "crep h fs y" "uplink h (fparent fs) (fchild fs) (nd True A y b B)" "y \<notin> fnodes fs"
    "set (inorder T) = fnodes fs \<union> set (inorder (nd True A y b B))"
    using assms(1) unfolding T by (simp_all add: rep_fill distinct_fill set_inorder_fill)
  show ?thesis
  proof (cases fs)
    case Nil
    then show ?thesis using r by (simp add: uplink_def)
  next
    case (Cons f gs)
    obtain s z bz C where f: "f = Fr s z bz C" by (cases f)
    have "av_root h \<noteq> y" using crep_root [OF r(1)] r Cons f by (auto dest: crep_root)
    then show ?thesis using r by (auto simp: Cons f uplink_def)
  qed
qed

lemma rep_child_iff:
  assumes "rep h T" "y \<in> set (inorder T)" "z \<in> set (inorder T)"
  shows "av_child h y c = z \<longleftrightarrow> av_parent h z = y \<and> av_xchild h z = c"
proof
  have nz: "y \<noteq> 0" "z \<noteq> 0" using assms core_nonzero [of h T] unfolding rep_def by metis+
  show "av_parent h z = y \<and> av_xchild h z = c" if "av_child h y c = z"
    using core_child [of h T y c] assms nz that by (simp add: rep_def)
  show "av_child h y c = z" if "av_parent h z = y \<and> av_xchild h z = c"
    using rep_parent [OF assms(1,3)] nz that by auto
qed

lemma rep_inner:
  assumes "rep h T" "x \<in> set (inorder T)" 
  obtains fs A b B where "T = fill fs (nd s A x b B)" "core h A" "core h B" "av_child h x s = pt A"
    "av_child h x (\<not> s) = pt B" "x \<notin> set (inorder A)" "x \<notin> set (inorder B)"
    "set (inorder A) \<inter> set (inorder B) = {}" "av_parent h x \<notin> set (inorder A)" "av_balance h x = b"
    "set (inorder A) \<subseteq> set (inorder T)" "set (inorder B) \<subseteq> set (inorder T)" "x \<noteq> 0"
    "av_root h \<notin> set (inorder A)"
proof -
  from fill_at [OF assms(2), of s] obtain fs A b B where T: "T = fill fs (nd s A x b B)" by blast
  have r: "core h (nd s A x b B)" "crep h fs x" "uplink h (fparent fs) (fchild fs) (nd s A x b B)"
    "distinct (inorder (nd s A x b B))" "set (inorder (nd s A x b B)) \<inter> fnodes fs = {}"
    using assms(1) unfolding T by (simp_all add: rep_fill distinct_fill)
  have "0 \<notin> set (inorder A)" using r(1) core_nonzero [of h A] by (simp add: core_nd)
  then have "fparent fs \<notin> set (inorder A)" using r(5) fparent_in [of fs] by (cases "fs = []") auto
  moreover have "av_root h \<notin> set (inorder A)" using crep_root [OF r(2)] r(4,5) by auto
  ultimately show ?thesis
    by (intro that [OF T]) (use r in \<open>auto simp: core_nd T set_inorder_fill uplink_def\<close>)
qed

text \<open>The swap puts \<open>n\<close>, the neighbour of \<open>x\<close> on its side \<open>l\<close>, in the place of
  \<open>x\<close>, and the local variable in the place of \<open>n\<close>.\<close>

lemma swap_rename:
  assumes r: "rep h T" and x: "x \<in> set (inorder T)" "av_child h x False \<noteq> 0" "av_child h x True \<noteq> 0"
    and tmp: "tmp \<noteq> 0" "tmp \<notin> set (inorder T)"
  defines "l \<equiv> avl_balance2child (av_balance h x + 1)"
  shows "\<exists>h' n us vs. avl_remove_swap tmp x h = Some (tmp, h') \<and> ord l T = us @ x # n # vs \<and>
    rep h' (mapt (id(n := tmp, x := n)) T) \<and> av_child h' tmp (\<not> l) = 0 \<and>
    av_numnodes h' = av_numnodes h \<and> av_compar h' = av_compar h"
proof -
  from rep_inner [OF r x(1)] obtain fs A b B where T: "T = fill fs (nd l A x b B)"
    and A: "core h A" "av_child h x l = pt A" "x \<notin> set (inorder A)" "av_parent h x \<notin> set (inorder A)"
      "set (inorder A) \<subseteq> set (inorder T)" "av_root h \<notin> set (inorder A)"
    and B: "core h B" "av_child h x (\<not> l) = pt B" "x \<notin> set (inorder B)"  "set (inorder B) \<subseteq> set (inorder T)"
    and AB: "set (inorder A) \<inter> set (inorder B) = {}" and x0: "x \<noteq> 0"
    by metis
  have chx: "av_child h x c \<noteq> 0" for c using x by (cases c) auto
  then have "A \<noteq> Lf" "B \<noteq> Lf" using A(2) B(2) core_pt A(1) B(1) by (metis pt.simps(1))+
  define n where "n = hd (ord l A)"
  from descend_spec [OF A(1) \<open>A \<noteq> Lf\<close>, of l]
  have n: "descend h (\<not> l) (av_child h x l) = Some n" "av_child h n (\<not> l) = 0" "n \<in> set (inorder A)"
    by (simp_all add: n_def A(2))
  have N: "0 \<notin> set (inorder T)" using r core_nonzero [of h T] by (simp add: rep_def)
  have nn: "n \<in> set (inorder T)" "n \<noteq> x" "n \<noteq> 0" "n \<noteq> tmp" "x \<noteq> tmp" "av_child h x (\<not> l) \<noteq> n"
    using n(3) A(3,5) N tmp x(1) B(1,2) AB pt_in [OF \<open>B \<noteq> Lf\<close>] by auto
  have link: "av_child h y c \<in> set (inorder T) \<and> av_parent h (av_child h y c) = y \<and> av_xchild h (av_child h y c) = c"
    if "y \<in> set (inorder T)" "av_child h y c \<noteq> 0" for y c
    using core_child [of h T y c] r that by (simp add: rep_def)
  note up = rep_parent [OF r]
  have nch: "av_child h n c \<noteq> x" "av_child h n c \<noteq> n" for c
    using core_child [OF A(1) n(3), of c] A(3) x0 link [OF nn(1), of c] up [OF nn(1)] nn by metis+
  define w where "w = (av_child h n True \<noteq> 0)"
  define imm where "imm = (av_child h x l = n)"
  let ?p = "av_parent h x" and ?q = "if imm then n else av_parent h n"
  have wl: "av_child h n w \<noteq> 0 \<Longrightarrow> w = l" using n(2) by (cases l; cases w) auto
  have lw: "av_child h n l \<noteq> 0 \<Longrightarrow> w = l" using n(2) by (cases l) (auto simp: w_def)
  have parn: "av_parent h n \<noteq> 0" using up [OF nn(1)] n(3) A(6) N by metis
  have xn: "av_parent h n \<in> set (inorder T)" "av_child h (av_parent h n) (av_xchild h n) = n" "av_root h \<noteq> n" 
      "av_parent h n \<noteq> n"
    using up [OF nn(1)] parn by auto
  have imm: "imm \<Longrightarrow> av_parent h n = x \<and> av_xchild h n = l"
    using link [OF x(1) chx, of l] by (auto simp: imm_def)
  have nimm: "\<not> imm \<Longrightarrow> av_parent h n \<noteq> x"
    using xn(2) nn(6) unfolding imm_def by (cases "av_xchild h n = l") auto
  have pp: "?p \<noteq> n" "?p \<noteq> x" "?p \<noteq> tmp" "?q \<noteq> tmp" "?q \<noteq> 0" "\<not> imm \<Longrightarrow> ?q \<noteq> n"
    using A(4) n(3) xn(1,4) tmp N up [OF x(1)] nn(3,4) x0 parn by metis+
  have xp: "?p \<noteq> 0 \<Longrightarrow> av_child h ?p (av_xchild h x) = x" "?p = 0 \<longleftrightarrow> av_root h = x"
    using up [OF x(1)] N by auto
  define h1 where "h1 = copy_node n x (copy_node tmp n h)"
  define h2 where "h2 = (if imm then set_child n l tmp h1 else h1)"
  define h3 where "h3 = set_down ?p (av_xchild h x) n h2"
  define h4 where "h4 = AVL_SETPARENT (av_child h x (\<not> l)) n (AVL_SETPARENT (if imm then tmp else av_child h x l) n h3)"
  define h5 where "h5 = set_child ?q (av_xchild h n) tmp h4"
  define h6 where "h6 = (if av_child h n w \<noteq> 0 then AVL_SETPARENT (av_child h n w) tmp h5 else h5)"
  have ch1: "av_child h1 y = (if y = n then av_child h x else if y = tmp then av_child h n else av_child h y)" for y
    using nn by (simp add: h1_def copy_node_def)
  have pa1: "av_parent h1 y = (if y = n then ?p else if y = tmp then av_parent h n else av_parent h y)" for y
    using nn by (simp add: h1_def copy_node_def)
  have xc1: "av_xchild h1 y = (if y = n then av_xchild h x else if y = tmp then av_xchild h n else av_xchild h y)" for y
    using nn by (simp add: h1_def copy_node_def)
  have ba1: "av_balance h1 y = (if y = n then av_balance h x else if y = tmp then av_balance h n else av_balance h y)" for y
    using nn by (simp add: h1_def copy_node_def)
  have tx: "av_child h x c \<noteq> tmp" for c using link [OF x(1) chx, of c] tmp by auto
  have tn: "av_child h n c \<noteq> tmp" for c using link [OF nn(1), of c] tmp by auto
  have ch2: "av_child h2 y = (if y = n then (if imm then (av_child h x)(l := tmp) else av_child h x)
      else if y = tmp then av_child h n else av_child h y)" for y
    by (simp add: h2_def setter_child ch1)
  have ch3: "av_child h3 y = (if y = ?p \<and> y \<noteq> 0 then (av_child h y)(av_xchild h x := n) else av_child h2 y)" for y
    using pp(1,3) by (simp add: h3_def setter_child ch2)
  have ch4: "av_child h4 = av_child h3" by (simp add: h4_def setter_child)
  have ch5: "av_child h5 y = (if y = ?q then (av_child h3 y)(av_xchild h n := tmp) else av_child h3 y)" for y
    by (simp add: h5_def setter_child ch4)
  have ch6: "av_child h6 = av_child h5" by (simp add: h6_def setter_child)
  have pa3: "av_parent h3 = av_parent h1" by (simp add: h3_def h2_def setter_parent)
  have pa4: "av_parent h4 y = (if y = av_child h x (\<not> l) \<or> y = (if imm then tmp else av_child h x l) then n
      else av_parent h1 y)" for y by (simp add: h4_def setter_parent pa3)
  have pa6: "av_parent h6 y = (if y = av_child h n w \<and> y \<noteq> 0 then tmp else av_parent h4 y)" for y
    by (simp add: h6_def h5_def setter_parent)
  have xc6: "av_xchild h6 = av_xchild h1"
    by (simp add: h6_def h5_def h4_def h3_def h2_def setter_xchild)
  have ba6: "av_balance h6 = av_balance h1"
    by (simp add: h6_def h5_def h4_def h3_def h2_def setter_balance)
  have ro6: "av_root h6 = (if ?p = 0 then n else av_root h)"
    by (simp add: h6_def h5_def h4_def h3_def h2_def h1_def copy_node_def setters)
  have keep: "av_numnodes h6 = av_numnodes h" "av_compar h6 = av_compar h"
    by (simp_all add: h6_def h5_def h4_def h3_def h2_def h1_def copy_node_def setters)
  have e: "avl_remove_swap tmp x h = Some (tmp, h6)"
  proof -
    have i1: "(av_child h1 n l = n) = imm" by (simp add: ch1 imm_def)
    have i2: "av_parent h2 n = ?p" "av_xchild h2 n = av_xchild h x"
      using nn by (simp_all add: h2_def setter_parent setter_xchild pa1 xc1)
    have i3: "av_child h3 n (\<not> l) = av_child h x (\<not> l)" "av_child h3 n l = (if imm then tmp else av_child h x l)"
      using pp(1) by (simp_all add: ch3 ch2)
    have i4: "av_parent h4 tmp = ?q" using tx [of "\<not> l"] tx [of l] nn by (auto simp: pa4 pa1)
    have i4': "av_xchild h4 tmp = av_xchild h n" using nn by (simp add: h4_def h3_def h2_def setter_xchild xc1)
    have i5: "av_child h5 tmp = av_child h n" using pp(3,4) nn(4) by (simp add: ch5 ch3 ch2)
    have c5: "av_child (AVL_SETPARENT a b k) = av_child k" for a b k by (simp add: setter_child)
    have t: "(av_child h x False \<noteq> 0 \<and> av_child h x True \<noteq> 0) = True" using x by simp
    show ?thesis
      unfolding avl_remove_swap_def l_def [symmetric] Let_def
      by (simp only: t if_True n(1) Option.bind.simps h1_def [symmetric] i1 h2_def [symmetric] i2 h3_def [symmetric] c5 i3
          h4_def [symmetric] i4 i4' h5_def [symmetric] i5 w_def [symmetric] h6_def [symmetric])
  qed
  let ?r = "id(n := tmp, x := n)"
  have ord: "\<exists>us vs. ord l T = us @ x # n # vs"
  proof -
    have "ord l A \<noteq> []" using \<open>A \<noteq> Lf\<close> by (cases A) (auto simp: ord_def)
    then obtain vs where "ord l A = n # vs" by (cases "ord l A") (simp_all add: n_def)
    then have "ord l T = (prio l fs @ ord l B) @ x # n # (vs @ post l fs)" by (simp add: T ord_fill)
    then show ?thesis by blast
  qed
  have chl: "av_child h6 (?r y) c = ?r (av_child h y c)" if y: "y \<in> set (inorder T)" for y c
  proof -
    consider "y = n" | "y = x" | "y \<noteq> n" "y \<noteq> x" by blast
    then show ?thesis
    proof cases
      case 1
      then show ?thesis using nch [of c] pp(3,4) nn by (simp add: ch6 ch5 ch3 ch2)
    next
      case 2
      have "av_child h x c \<noteq> x" using link [OF x(1) chx, of c] pp(2) by metis
      moreover have "c \<noteq> l \<Longrightarrow> av_child h x c \<noteq> n" using nn(6) by (cases c; cases l) auto
      moreover have "av_child h6 n c = (if imm \<and> c = l then tmp else av_child h x c)"
      proof (cases imm)
        case True
        then show ?thesis using pp(1) imm by (simp add: ch6 ch5 ch3 ch2)
      next
        case False
        then show ?thesis using pp(1) xn(4) by (simp add: ch6 ch5 ch3 ch2)
      qed
      ultimately show ?thesis using 2 by (cases "c = l") (auto simp: imm_def)
    next
      case 3
      have "y \<noteq> tmp" "y \<noteq> 0" using y tmp N by metis+
      have 1: "av_child h y c = n \<longleftrightarrow> y = av_parent h n \<and> c = av_xchild h n"
        using rep_child_iff [OF r y nn(1), of c] by auto
      have 2: "av_child h y c = x \<longleftrightarrow> y = ?p \<and> c = av_xchild h x"
        using rep_child_iff [OF r y x(1), of c] by auto
      have "imm \<Longrightarrow> y \<noteq> av_parent h n" using 3 imm by auto
      then show ?thesis using 3 1 2 nn \<open>y \<noteq> tmp\<close> \<open>y \<noteq> 0\<close> by (auto simp: ch6 ch5 ch3 ch2)
    qed
  qed
  have par: "av_parent h6 (?r y) = ?r (av_parent h y)" if y: "y \<in> set (inorder T)" for y
  proof -
    have "y \<noteq> tmp" "y \<noteq> 0" using y tmp N by metis+
    consider "y = n" | "y = x" | "y \<noteq> n" "y \<noteq> x" by blast
    then show ?thesis
    proof cases
      case 1
      then show ?thesis using nn tn [of w] tx [of "\<not> l"] tx [of l] imm nimm xn(4) by (auto simp: pa6 pa4 pa1)
    next
      case 2
      then show ?thesis using nn nch(2) [of w] pp by (auto simp: pa6 pa4 pa1 imm_def)
    next
      case 3
      have "av_parent h y = n \<longleftrightarrow> y = av_child h n w"
      proof -
        have "c = w \<longleftrightarrow> av_child h n c \<noteq> 0" if "av_child h n c = y" for c
          using that \<open>y \<noteq> 0\<close> lw n(2) by (cases c; cases l; cases w) auto
        from this [of "av_xchild h y"] show ?thesis
          using rep_child_iff [OF r nn(1) y, of w] rep_child_iff [OF r nn(1) y, of "av_xchild h y"] \<open>y \<noteq> 0\<close>
          by (cases "av_xchild h y = w") auto
      qed
      moreover have "av_parent h y = x \<longleftrightarrow> y = av_child h x (\<not> l) \<or> y = av_child h x l"
        using rep_child_iff [OF r x(1) y, of l] rep_child_iff [OF r x(1) y, of "\<not> l"] by auto
      ultimately show ?thesis using 3 nn \<open>y \<noteq> tmp\<close> \<open>y \<noteq> 0\<close> by (auto simp: pa6 pa4 pa1 imm_def)
    qed
  qed
  have rest: "av_xchild h6 (?r y) = av_xchild h y \<and> av_balance h6 (?r y) = av_balance h y"
    if y: "y \<in> set (inorder T)" for y
    using nn y tmp by (auto simp: xc6 ba6 xc1 ba1)
  have "av_root h6 = ?r (av_root h)" using xp(2) xn(3) by (auto simp: ro6)
  have nz: "?r y \<noteq> 0" if "y \<in> set (inorder T)" for y
    using that nn(3) tmp(1) N by (metis fun_upd_apply id_apply)
  have inj: "inj_on ?r (set (inorder T))"
    unfolding inj_on_def using nn tmp by auto
  have "?r 0 = 0" using nn(3) x0 by simp
  from rep_rename [where r = ?r, OF r this nz inj chl _ \<open>av_root h6 = ?r (av_root h)\<close>]
  have "rep h6 (mapt ?r T)" using par rest by blast
  moreover have "av_child h6 tmp (\<not> l) = 0" using chl [OF nn(1), of "\<not> l"] nn x0 n(2) by simp
  ultimately show ?thesis using e ord keep by blast
qed

section \<open>Removal\<close>

lemma filter_other: "x \<notin> set xs \<Longrightarrow> filter (\<lambda>y. y \<noteq> x) xs = xs"
  by (induction xs) auto

lemma remove_end:
  assumes r: "rep h T" and a: "avl T" and x: "x \<in> set (inorder T)" and c: "av_child h x (\<not> s) = 0"
  shows "\<exists>h' T'. avl_remove_splice x h = Some h' \<and> rep h' T' \<and> avl T' \<and>
    inorder T' = filter (\<lambda>y. y \<noteq> x) (inorder T) \<and>
    av_numnodes h' = av_numnodes h - 1 \<and> av_compar h' = av_compar h"
proof -
  from rep_inner [OF r x] obtain fs A b B where T: "T = fill fs (nd s A x b B)"
    and B: "core h B" "av_child h x (\<not> s) = pt B" by metis
  then have "B = Lf" using core_pt [OF B(1)] c by simp
  have "distinct (inorder T)" using r by (simp add: rep_def)
  then have "filter (\<lambda>y. y \<noteq> x) (inorder T) = inorder (fill fs A)"
    by (cases s) (auto simp: T \<open>B = Lf\<close> inorder_fill nd_def filter_other)
  then show ?thesis using remove_leaf [of h fs s A x b] r a by (simp add: T \<open>B = Lf\<close>)
qed

lemma filter_mid: "distinct (us @ x # n # vs) \<Longrightarrow> tmp \<notin> set (us @ x # n # vs) \<Longrightarrow>
    filter (\<lambda>y. y \<noteq> tmp) (map (id(n := tmp, x := n)) (us @ x # n # vs)) = us @ n # vs"
proof -
  assume d: "distinct (us @ x # n # vs)" and t: "tmp \<notin> set (us @ x # n # vs)"
  have "map (id(n := tmp, x := n)) us = us" "map (id(n := tmp, x := n)) vs = vs"
    using d by (auto intro!: map_idI)
  then show ?thesis using d t by (auto simp: filter_other)
qed

lemma avl_remove_spec:
  assumes r: "rep h T" and a: "avl T" and x: "x \<in> set (inorder T)" and tmp: "tmp \<noteq> 0" "tmp \<notin> set (inorder T)"
  shows "\<exists>h' T'. avl_remove tmp h x = Some h' \<and> rep h' T' \<and> avl T' \<and>
    inorder T' = filter (\<lambda>y. y \<noteq> x) (inorder T) \<and>
    av_numnodes h' = av_numnodes h - 1 \<and> av_compar h' = av_compar h"
proof -
  have "x \<noteq> 0" using r x core_nonzero [of h T] unfolding rep_def by metis
  show ?thesis
  proof (cases "av_child h x False \<noteq> 0 \<and> av_child h x True \<noteq> 0")
    case False
    then obtain s where "av_child h x (\<not> s) = 0" by (metis (full_types))
    moreover have "avl_remove tmp h x = avl_remove_splice x h"
      using False \<open>x \<noteq> 0\<close> by (auto simp: avl_remove_def avl_remove_swap_def)
    ultimately show ?thesis using remove_end [OF r a x] by metis
  next
    case True
    let ?l = "avl_balance2child (av_balance h x + 1)"
    from swap_rename [OF r x _ _ tmp] True obtain h' n us vs where
      sw: "avl_remove_swap tmp x h = Some (tmp, h')" and o: "ord ?l T = us @ x # n # vs"
      and r': "rep h' (mapt (id(n := tmp, x := n)) T)" and c: "av_child h' tmp (\<not> ?l) = 0"
      and k: "av_numnodes h' = av_numnodes h" "av_compar h' = av_compar h" by blast
    let ?T = "mapt (id(n := tmp, x := n)) T"
    have so: "set (ord d T) = set (inorder T)" for d by (simp add: ord_def)
    have d: "distinct (us @ x # n # vs)" using r unfolding o [symmetric] by (simp add: rep_def ord_def)
    have t: "tmp \<notin> set (us @ x # n # vs)" using tmp(2) unfolding o [symmetric] so .
    have "n \<in> set (inorder T)" using so [of ?l] unfolding o by auto
    then have "tmp \<in> set (inorder ?T)" using d by (simp add: image_iff)
    from remove_end [OF r' _ this c] a obtain h'' T' where
      R: "avl_remove_splice tmp h' = Some h''" "rep h'' T'" "avl T'"
        "inorder T' = filter (\<lambda>y. y \<noteq> tmp) (inorder ?T)"
        "av_numnodes h'' = av_numnodes h' - 1" "av_compar h'' = av_compar h'" by auto
    have "filter (\<lambda>y. y \<noteq> tmp) (map (id(n := tmp, x := n)) (ord ?l T)) = filter (\<lambda>y. y \<noteq> x) (ord ?l T)"
      unfolding o using d by (simp only: filter_mid [OF d t]) (auto simp: filter_other)
    then have "inorder T' = filter (\<lambda>y. y \<noteq> x) (inorder T)"
      unfolding R(4) by (cases ?l) (simp_all add: ord_def rev_map [symmetric] rev_filter [symmetric])
    moreover have "avl_remove tmp h x = Some h''" using R(1) sw \<open>x \<noteq> 0\<close> by (simp add: avl_remove_def)
    ultimately show ?thesis using R(2,3,5,6) k by auto
  qed
qed

end
