(* ===== verification/Avl_Spec.thy ===== *)
theory Avl_Spec imports Avl_Swap
begin

text \<open>
  What a client of the AVL tree sees: an ordered sequence of nodes. \<open>avl_index h ns\<close> says that
  the store holds a balanced tree whose nodes are \<open>ns\<close> in order; the operations are stated on
  the sequence. The interface a walk relies on is the locale \<open>ordered_index\<close>.
\<close>

section \<open>The abstraction\<close>

definition avl_index :: "avl \<Rightarrow> aptr list \<Rightarrow> bool" where
  "avl_index h ns \<longleftrightarrow> (\<exists>T. rep h T \<and> avl T \<and> inorder T = ns) \<and> av_numnodes h = length ns"

lemma avl_indexE:
  assumes "avl_index h ns"
  obtains T where "rep h T" "avl T" "inorder T = ns" "av_numnodes h = length ns" "distinct ns" "0 \<notin> set ns"
proof -
  from assms obtain T where T: "rep h T" "avl T" "inorder T = ns" "av_numnodes h = length ns"
    by (auto simp: avl_index_def)
  moreover have "distinct ns" "0 \<notin> set ns" using T core_nonzero [of h T] unfolding rep_def by metis+
  ultimately show ?thesis using that by blast
qed

lemma avl_index_distinct: "avl_index h ns \<Longrightarrow> distinct ns \<and> 0 \<notin> set ns"
  by (elim avl_indexE) simp

lemma avl_index_empty: "av_root h = 0 \<Longrightarrow> av_numnodes h = 0 \<Longrightarrow> avl_index h []"
  unfolding avl_index_def by (rule conjI, rule exI [of _ Lf]) (simp_all add: rep_def)

lemma length_filter_other: "distinct ns \<Longrightarrow> x \<in> set ns \<Longrightarrow> length (filter (\<lambda>y. y \<noteq> x) ns) = length ns - 1"
  by (induction ns) (auto simp: filter_other Suc_pred [OF length_pos_if_in_set])

lemma avl_index_remove:
  assumes "avl_index h ns" "x \<in> set ns" "tmp \<noteq> 0" "tmp \<notin> set ns"
  obtains h' where "avl_remove tmp h x = Some h'" "avl_index h' (filter (\<lambda>y. y \<noteq> x) ns)" "av_compar h' = av_compar h"
proof -
  from assms(1) obtain T where T: "rep h T" "avl T" "inorder T = ns" "av_numnodes h = length ns" "distinct ns"
    by (rule avl_indexE)
  from avl_remove_spec [OF T(1,2)] assms(2-4) T(3) obtain h' T' where
    "avl_remove tmp h x = Some h'" "rep h' T'" "avl T'" "inorder T' = filter (\<lambda>y. y \<noteq> x) ns"
    "av_numnodes h' = av_numnodes h - 1" "av_compar h' = av_compar h" by blast
  with T(4,5) assms(2) show ?thesis
    by (intro that [of h']) (auto simp: avl_index_def length_filter_other)
qed

text \<open>The insertion point the search returns splits the nodes into the smaller and the greater.\<close>

lemma avl_index_find:
  assumes "avl_index h ns" "ordered (cmp v) ns" "cmp = (case compare of None \<Rightarrow> av_compar h | Some f \<Rightarrow> f)"
  obtains (found) n where "n \<in> set ns" "cmp v n = 0" "avl_find h compare v = Some (n, None)"
  | (absent) wh xs ys where "avl_find h compare v = Some (0, Some wh)" "ns = xs @ ys"
      "\<forall>n \<in> set xs. cmp v n = 1" "\<forall>n \<in> set ys. cmp v n = -1"
      "\<And>e. e \<noteq> 0 \<Longrightarrow> e \<notin> set ns \<Longrightarrow> \<exists>h'. avl_insert h e wh = Some h' \<and> avl_index h' (xs @ e # ys) \<and> av_compar h' = av_compar h"
proof -
  from assms(1) obtain T where T: "rep h T" "avl T" "inorder T = ns" "av_numnodes h = length ns" by (rule avl_indexE)
  from avl_find_spec [OF T(1) _ assms(3), of v] assms(2) T(3) consider
    n where "n \<in> set ns" "cmp v n = 0" "avl_find h compare v = Some (n, None)"
  | gs c where "T = fill gs Lf" "gs \<noteq> [] \<longrightarrow> c = fchild gs" "\<forall>n \<in> set (prio True gs). cmp v n = 1"
      "\<forall>n \<in> set (post True gs). cmp v n = -1" "avl_find h compare v = Some (0, Some (fparent gs, c))"
    by auto
  then show ?thesis
  proof cases
    case 1
    then show ?thesis by (rule found)
  next
    case (2 gs c)
    have ns: "ns = prio True gs @ post True gs" using T(3) 2(1) by (simp add: inorder_fill)
    have "\<exists>h'. avl_insert h e (fparent gs, c) = Some h' \<and> avl_index h' (prio True gs @ e # post True gs) \<and>
        av_compar h' = av_compar h" if "e \<noteq> 0" "e \<notin> set ns" for e
    proof -
      from insert_at [of h gs e c] that T 2 obtain h' T' where "avl_insert h e (fparent gs, c) = Some h'"
        "rep h' T'" "avl T'" "inorder T' = prio True gs @ e # post True gs" "av_numnodes h' = av_numnodes h + 1"
        "av_compar h' = av_compar h" by auto
      then show ?thesis using T(4) ns by (auto simp: avl_index_def)
    qed
    then show ?thesis by (rule absent [OF 2(5) ns 2(3,4)])
  qed
qed

lemma filter_split:
  assumes "\<forall>n \<in> set xs. d n = (1::int)" "\<forall>n \<in> set ys. d n = -1"
  shows "filter (\<lambda>n. d n = 1) (xs @ ys) = xs" "filter (\<lambda>n. d n = -1) (xs @ ys) = ys"
  using assms by (auto simp: filter_empty_conv filter_id_conv)

lemma avl_index_add:
  assumes "avl_index h ns" "ordered (av_compar h e) ns" "\<forall>n \<in> set ns. av_compar h e n \<noteq> 0"
    "e \<noteq> 0" "e \<notin> set ns"
  obtains h' where "avl_add h e = Some h'" "av_compar h' = av_compar h"
    "avl_index h' (filter (\<lambda>n. av_compar h e n = 1) ns @ e # filter (\<lambda>n. av_compar h e n = -1) ns)"
proof -
  have "\<exists>h'. avl_add h e = Some h' \<and> av_compar h' = av_compar h \<and>
      avl_index h' (filter (\<lambda>n. av_compar h e n = 1) ns @ e # filter (\<lambda>n. av_compar h e n = -1) ns)"
  proof (rule avl_index_find [OF assms(1), where cmp = "av_compar h" and compare = None and v = e])
    fix wh xs ys
    assume f: "avl_find h None e = Some (0, Some wh)" "ns = xs @ ys" "\<forall>n \<in> set xs. av_compar h e n = 1"
      "\<forall>n \<in> set ys. av_compar h e n = -1"
      "\<And>e. e \<noteq> 0 \<Longrightarrow> e \<notin> set ns \<Longrightarrow> \<exists>h'. avl_insert h e wh = Some h' \<and> avl_index h' (xs @ e # ys) \<and> av_compar h' = av_compar h"
    from f(5) [OF assms(4,5)] show ?thesis
      unfolding f(2) filter_split [OF f(3,4)] by (auto simp: avl_add_def f(1))
  qed (use assms in auto)
  then show ?thesis using that by blast
qed

lemma avl_index_ends:
  assumes "avl_index h ns"
  shows "avl_first h = Some (first_of ns)" "avl_last h = Some (first_of (rev ns))"
  using assms avl_first_spec avl_last_spec by (auto elim!: avl_indexE)

lemma avl_index_walk:
  assumes "avl_index h (xs @ x # ys)"
  shows "avl_walk h x True = Some (first_of ys)" "avl_walk h x False = Some (first_of (rev xs))"
proof -
  from assms obtain T where T: "rep h T" "inorder T = xs @ x # ys" by (rule avl_indexE)
  show "avl_walk h x True = Some (first_of ys)"
    by (rule avl_walk_spec [OF T(1)]) (simp add: ord_def T)
  show "avl_walk h x False = Some (first_of (rev xs))"
    by (rule avl_walk_spec [OF T(1), where xs = "rev ys"]) (simp add: ord_def T)
qed

section \<open>The interface of a walk that removes\<close>

locale ordered_index =
  fixes index :: "'s \<Rightarrow> aptr list \<Rightarrow> bool"
    and first_node :: "'s \<Rightarrow> aptr option"
    and next_node :: "'s \<Rightarrow> aptr \<Rightarrow> aptr option"
    and remove_node :: "'s \<Rightarrow> aptr \<Rightarrow> 's option"
  assumes first_law: "index s ns \<Longrightarrow> first_node s = Some (first_of ns)"
    and next_law: "index s (xs @ x # ys) \<Longrightarrow> next_node s x = Some (first_of ys)"
    and remove_law: "index s (xs @ x # ys) \<Longrightarrow> \<exists>s'. remove_node s x = Some s' \<and> index s' (xs @ ys)"
    and null_law: "index s ns \<Longrightarrow> 0 \<notin> set ns"
begin

text \<open>One step of a walk whose callback keeps some nodes and removes the others: the node after
  the current one is read before the removal and is still there after it.\<close>

lemma sweep_step:
  assumes "index s (filter keep xs @ y # ys)"
  shows "y \<noteq> 0 \<and> next_node s y = Some (first_of ys) \<and>
    (\<exists>s'. (if keep y then Some s else remove_node s y) = Some s' \<and> index s' (filter keep (xs @ [y]) @ ys))"
  using next_law [OF assms] remove_law [OF assms] null_law [OF assms] assms by auto

end

interpretation ix: ordered_index "\<lambda>h ns. avl_index h ns \<and> tmp \<noteq> 0 \<and> tmp \<notin> set ns" avl_first "\<lambda>h x. avl_walk h x True"
  "avl_remove tmp" for tmp
proof
  show "avl_first s = Some (first_of ns)" if "avl_index s ns \<and> tmp \<noteq> 0 \<and> tmp \<notin> set ns" for s ns
    using that avl_index_ends by blast
  show "avl_walk s x True = Some (first_of ys)" if "avl_index s (xs @ x # ys) \<and> tmp \<noteq> 0 \<and> tmp \<notin> set (xs @ x # ys)" for s xs x ys
    using that avl_index_walk by blast
  show "\<exists>s'. avl_remove tmp s x = Some s' \<and> avl_index s' (xs @ ys) \<and> tmp \<noteq> 0 \<and> tmp \<notin> set (xs @ ys)"
    if i: "avl_index s (xs @ x # ys) \<and> tmp \<noteq> 0 \<and> tmp \<notin> set (xs @ x # ys)" for s xs x ys
  proof -
    from i obtain s' where "avl_remove tmp s x = Some s'" "avl_index s' (filter (\<lambda>y. y \<noteq> x) (xs @ x # ys))"
      by (metis avl_index_remove in_set_conv_decomp)
    moreover have "filter (\<lambda>y. y \<noteq> x) (xs @ x # ys) = xs @ ys"
      using avl_index_distinct [of s "xs @ x # ys"] i by (simp add: filter_other)
    ultimately show ?thesis using i by auto
  qed
  show "0 \<notin> set ns" if "avl_index s ns \<and> tmp \<noteq> 0 \<and> tmp \<notin> set ns" for s ns
    using that avl_index_distinct by blast
qed

text \<open>The callback of such a walk over an AVL tree; it records the nodes it is given.\<close>

definition sweep_cb :: "aptr \<Rightarrow> (aptr \<Rightarrow> bool) \<Rightarrow> aptr \<Rightarrow> avl \<times> aptr list \<Rightarrow> int \<times> avl \<times> aptr list" where
  "sweep_cb tmp keep node s =
     (case (if keep node then Some (fst s) else avl_remove tmp (fst s) node) of
        None \<Rightarrow> (-1, s)
      | Some h \<Rightarrow> (0, h, snd s @ [node]))"

lemma sweep_loop:
  assumes "avl_index h (filter keep xs @ ys)" "tmp \<noteq> 0" "tmp \<notin> set (filter keep xs @ ys)"
  shows "\<exists>h'. avl_walk_all_loop (sweep_cb tmp keep) (first_of ys) (h, vs) = Some (0, h', vs @ ys) \<and>
    avl_index h' (filter keep (xs @ ys))"
  using assms
proof (induction ys arbitrary: xs h vs)
  case Nil
  then show ?case by (simp add: avl_walk_all_loop.simps)
next
  case (Cons y ys)
  from ix.sweep_step [of h keep xs y ys tmp] Cons.prems obtain h' where
    st: "y \<noteq> 0" "avl_walk h y True = Some (first_of ys)"
      "(if keep y then Some h else avl_remove tmp h y) = Some h'"
      "avl_index h' (filter keep (xs @ [y]) @ ys)" "tmp \<notin> set (filter keep (xs @ [y]) @ ys)" by auto
  have cb: "sweep_cb tmp keep y (h, vs) = (0, h', vs @ [y])" unfolding sweep_cb_def fst_conv st(3) by simp
  from Cons.IH [OF st(4) assms(2) st(5), of "vs @ [y]"]
  show ?case using st(1,2) cb by (subst avl_walk_all_loop.simps) auto
qed

section \<open>Depth\<close>





section \<open>Properties\<close>

text \<open>A small tree for the witnesses: the nodes 2, 3, 4 compared by their addresses.\<close>

definition ex3 :: avl where
  "ex3 = \<lparr>av_root = 3, av_numnodes = 3, av_compar = (\<lambda>a b. sgn (int a - int b)),
     av_child = (\<lambda>n c. if n = 3 then (if c then 4 else 2) else 0),
     av_parent = (\<lambda>n. if n = 2 \<or> n = 4 then 3 else 0), av_xchild = (\<lambda>n. n = 4), av_balance = (\<lambda>n. 0)\<rparr>"

lemma ex3_index: "avl_index ex3 [2, 3, 4]"
proof -
  let ?T = "Nd (Nd Lf 2 0 Lf) 3 0 (Nd Lf 4 0 Lf)"
  have "rep ex3 ?T" "avl ?T" "inorder ?T = [2, 3, 4]" by (simp_all add: rep_def ex3_def uplink_def)
  then show ?thesis unfolding avl_index_def by (intro conjI exI [of _ ?T]) (simp_all add: ex3_def)
qed

text \<open>C11. Adding a node that compares different from all nodes of an ordered tree puts it between
  the smaller and the greater ones and keeps the tree balanced and counted.\<close>

theorem avl_add_sorted:
  assumes "avl_index h ns" "ordered (av_compar h e) ns" "\<forall>n \<in> set ns. av_compar h e n \<noteq> 0"
    "e \<noteq> 0" "e \<notin> set ns"
  shows "\<exists>h'. avl_add h e = Some h' \<and> av_compar h' = av_compar h \<and>
    avl_index h' (filter (\<lambda>n. av_compar h e n = 1) ns @ e # filter (\<lambda>n. av_compar h e n = -1) ns)"
  using avl_index_add [OF assms] by blast

lemma avl_add_sorted_witness: "\<exists>h'. avl_add ex3 5 = Some h' \<and> av_compar h' = av_compar ex3 \<and>
    avl_index h' (filter (\<lambda>n. av_compar ex3 5 n = 1) [2, 3, 4] @ 5 # filter (\<lambda>n. av_compar ex3 5 n = -1) [2, 3, 4])"
  by (rule avl_add_sorted [OF ex3_index]) (simp_all add: ex3_def ordered_def)

text \<open>C35. A search finds a node that compares equal, when there is one; otherwise it returns the
  place where \<^verbatim>\<open>avl_insert\<close> puts a new node between the smaller and the greater nodes.\<close>

theorem avl_find_insert:
  assumes "avl_index h ns" "ordered (cmp v) ns"
  shows "(\<exists>n \<in> set ns. cmp v n = 0 \<and> avl_find h (Some cmp) v = Some (n, None)) \<or>
    ((\<forall>n \<in> set ns. cmp v n \<noteq> 0) \<and> (\<exists>wh. avl_find h (Some cmp) v = Some (0, Some wh) \<and>
      (\<forall>e. e \<noteq> 0 \<and> e \<notin> set ns \<longrightarrow> (\<exists>h'. avl_insert h e wh = Some h' \<and> 
        avl_index h' (filter (\<lambda>n. cmp v n = 1) ns @ e # filter (\<lambda>n. cmp v n = -1) ns)))))"
proof (rule avl_index_find [OF assms(1), where cmp = cmp and v = v and compare = "Some cmp"])
  fix wh xs ys
  assume f: "avl_find h (Some cmp) v = Some (0, Some wh)" "ns = xs @ ys" "\<forall>n \<in> set xs. cmp v n = 1"
    "\<forall>n \<in> set ys. cmp v n = -1"
    "\<And>e. e \<noteq> 0 \<Longrightarrow> e \<notin> set ns \<Longrightarrow> \<exists>h'. avl_insert h e wh = Some h' \<and> avl_index h' (xs @ e # ys) \<and> av_compar h' = av_compar h"
  have "\<forall>n \<in> set ns. cmp v n \<noteq> 0" using f(2-4) by auto
  then show ?thesis using f(1,5) unfolding f(2) filter_split [OF f(3,4)] by blast
qed (use assms(2) in auto)

lemma avl_find_insert_witness:
  "let cmp = (\<lambda>a b. sgn (int a - int b)); ns = [2, 3, 4::aptr] in
   (\<exists>n \<in> set ns. cmp 3 n = 0 \<and> avl_find ex3 (Some cmp) 3 = Some (n, None)) \<or>
    ((\<forall>n \<in> set ns. cmp 3 n \<noteq> 0) \<and> (\<exists>wh. avl_find ex3 (Some cmp) 3 = Some (0, Some wh) \<and>
      (\<forall>e. e \<noteq> 0 \<and> e \<notin> set ns \<longrightarrow> (\<exists>h'. avl_insert ex3 e wh = Some h' \<and> 
        avl_index h' (filter (\<lambda>n. cmp 3 n = 1) ns @ e # filter (\<lambda>n. cmp 3 n = -1) ns)))))"
  unfolding Let_def by (rule avl_find_insert [OF ex3_index]) (simp add: ordered_def)

text \<open>C4. Removing a node, also one with two children, leaves the others in order, in a balanced
  tree; the local variable that takes part in the exchange is no longer linked.\<close>

theorem avl_remove_node:
  assumes "avl_index h ns" "x \<in> set ns" "tmp \<noteq> 0" "tmp \<notin> set ns"
  shows "\<exists>h'. avl_remove tmp h x = Some h' \<and> avl_index h' (filter (\<lambda>y. y \<noteq> x) ns) \<and> av_compar h' = av_compar h"
  using avl_index_remove [OF assms] by blast

lemma avl_remove_node_witness: "\<exists>h'. avl_remove 9 ex3 3 = Some h' \<and> avl_index h' (filter (\<lambda>y. y \<noteq> 3) [2, 3, 4]) \<and>
    av_compar h' = av_compar ex3"
  by (rule avl_remove_node [OF ex3_index]) simp_all

text \<open>C22. A walk over the whole tree whose callback removes some of the nodes calls it once on
  every node, in order, ends, and leaves exactly the kept nodes in the tree.\<close>

theorem avl_walk_all_sweep:
  assumes "avl_index h ns" "tmp \<noteq> 0" "tmp \<notin> set ns"
  shows "\<exists>h'. avl_walk_all (sweep_cb tmp keep) (h, []) = Some (0, h', ns) \<and> avl_index h' (filter keep ns)"
proof (cases ns)
  case Nil
  then show ?thesis using assms(1) by (auto simp: avl_walk_all_def elim!: avl_indexE)
next
  case (Cons x xs)
  then have "av_numnodes h \<noteq> 0" using assms(1) by (auto elim!: avl_indexE)
  then show ?thesis
    using sweep_loop [of h keep "[]" ns tmp "[]"] assms avl_index_ends(1) [OF assms(1)]
    by (simp add: avl_walk_all_def)
qed

lemma avl_walk_all_sweep_witness: "\<exists>h'. avl_walk_all (sweep_cb 9 odd) (ex3, []) = Some (0, h', [2, 3, 4]) \<and>
    avl_index h' (filter odd [2, 3, 4])"
  by (rule avl_walk_all_sweep [OF ex3_index]) simp_all

text \<open>C36. The first node, the last node and the neighbours of a node are those of the sequence,
  and a walk past either end returns the null pointer.\<close>

theorem avl_walk_neighbours:
  assumes "avl_index h (xs @ x # ys)"
  shows "avl_walk h x True = Some (first_of ys) \<and> avl_walk h x False = Some (first_of (rev xs)) \<and>
    avl_first h = Some (hd (xs @ [x])) \<and> avl_last h = Some (last (x # ys))"
  using avl_index_walk [OF assms] avl_index_ends [OF assms]
  by (cases xs; cases ys rule: rev_cases) (auto simp: first_of_append)

lemma avl_walk_neighbours_witness:
  "avl_walk ex3 3 True = Some (first_of [4]) \<and> avl_walk ex3 3 False = Some (first_of (rev [2])) \<and>
    avl_first ex3 = Some (hd ([2] @ [3])) \<and> avl_last ex3 = Some (last (3 # [4]))"
  by (rule avl_walk_neighbours) (simp add: ex3_index)



text \<open>C38. When only the key of one node has changed, \<^verbatim>\<open>avl_update\<close> puts that node
  back in its place among the others.\<close>

theorem avl_update_resort:
  assumes "avl_index h (xs @ x # ys)" "ordered (av_compar h x) (xs @ ys)" "\<forall>n \<in> set (xs @ ys). av_compar h x n \<noteq> 0"
    "tmp \<noteq> 0" "tmp \<notin> set (xs @ x # ys)"
  shows "\<exists>moved h'. avl_update tmp h x = Some (moved, h') \<and>
    avl_index h' (filter (\<lambda>n. av_compar h x n = 1) (xs @ ys) @ x # filter (\<lambda>n. av_compar h x n = -1) (xs @ ys))"
proof -
  let ?d = "av_compar h x" and ?ns = "xs @ x # ys"
  have dn: "distinct ?ns" "0 \<notin> set ?ns" using avl_index_distinct [OF assms(1)] by blast+
  have re: "\<exists>h'. AVL_REINSERT tmp h x = Some h' \<and> avl_index h' (filter (\<lambda>n. ?d n = 1) (xs @ ys) @ x # filter (\<lambda>n. ?d n = -1) (xs @ ys))"
  proof -
    from avl_index_remove [OF assms(1) _ assms(4,5), of x] obtain h1 where h1: "avl_remove tmp h x = Some h1"
      "avl_index h1 (filter (\<lambda>y. y \<noteq> x) ?ns)" "av_compar h1 = av_compar h" by auto
    have f: "filter (\<lambda>y. y \<noteq> x) ?ns = xs @ ys" using dn by (simp add: filter_other)
    have "avl_index h1 (xs @ ys)" using h1(2) unfolding f .
    then obtain h2 where "avl_add h1 x = Some h2"
      "avl_index h2 (filter (\<lambda>n. av_compar h1 x n = 1) (xs @ ys) @ x # filter (\<lambda>n. av_compar h1 x n = -1) (xs @ ys))"
      by (rule avl_index_add [where e = x]) (use assms(2,3) dn h1(3) in \<open>simp_all del: filter_append\<close>)
    note h2 = this [unfolded h1(3)]
    then show ?thesis using h1(1) by (simp add: AVL_REINSERT_def)
  qed
  have w: "avl_walk h x False = Some (first_of (rev xs))" "avl_walk h x True = Some (first_of ys)"
    using avl_index_walk [OF assms(1)] by simp_all
  have d: "?d n = 1 \<or> ?d n = -1" if "n \<in> set (xs @ ys)" for n
    using assms(2,3) that by (auto simp: ordered_def)
  show ?thesis
  proof (cases "(first_of (rev xs) \<noteq> 0 \<and> ?d (first_of (rev xs)) < 0) \<or> (first_of ys \<noteq> 0 \<and> ?d (first_of ys) > 0)")
    case True
    then have "avl_update tmp h x = map_option (Pair True) (AVL_REINSERT tmp h x)"
      unfolding avl_update_def w by auto
    then show ?thesis using re by auto
  next
    case False
    have "\<forall>n \<in> set xs. ?d n = 1"
    proof (cases xs rule: rev_cases)
      case (snoc us u)
      then have "?d u = 1" using False d [of u] dn by auto
      then show ?thesis using assms(2) snoc d unfolding snoc ordered_append by fastforce
    qed simp
    moreover have "\<forall>n \<in> set ys. ?d n = -1"
    proof (cases ys)
      case (Cons u us)
      then have "?d u = -1" using False d [of u] dn by auto
      then show ?thesis using assms(2) d unfolding Cons ordered_append ordered_Cons by fastforce
    qed simp
    moreover have "avl_update tmp h x = Some (False, h)" using False unfolding avl_update_def w by auto
    ultimately show ?thesis using assms(1) by (simp only: filter_split) auto
  qed
qed

lemma avl_update_resort_witness: "\<exists>moved h'. avl_update 9 ex3 3 = Some (moved, h') \<and>
    avl_index h' (filter (\<lambda>n. av_compar ex3 3 n = 1) ([2] @ [4]) @ 3 # filter (\<lambda>n. av_compar ex3 3 n = -1) ([2] @ [4]))"
  by (rule avl_update_resort) (use ex3_index in \<open>simp_all add: ordered_def, simp_all add: ex3_def\<close>)

end
