(* ===== verification/Ofs_Metadata_Cache.thy ===== *)
theory Ofs_Metadata_Cache imports Ofs_Layout
begin

unbundle bit_operations_syntax

text \<open>
  The cache structures of \<^verbatim>\<open>object_system/ofs_metadata_cache.c\<close> and the state the
  index code shares. A \<^verbatim>\<open>ofs_block_cache_t *\<close> is an address in a store; 0 is the null
  pointer. An AVL tree of caches is given by its sequence of block numbers and caches in order,
  the sequence that the theories of the AVL tree relate to the pointer structure.

  The allocation of blocks calls the space manager, which changes an index of its own and
  allocates again, one level down. The operations are therefore parameterised by the level: a
  value of type \<open>'e levels\<close> says how to reach the shared state in an environment \<open>'e\<close>
  and how \<^verbatim>\<open>OFS_ALLOC_BLOCK\<close> and \<^verbatim>\<open>OFS_FREE_BLOCK\<close> act for the objects of that
  level. Locks are left out: the state of a call is the state under its lock.
\<close>

section \<open>The shared state\<close>

abbreviation (input) EMPTY :: u32 where "EMPTY \<equiv> 0"
abbreviation (input) CLEAN :: u32 where "CLEAN \<equiv> 1"
abbreviation (input) DIRTY :: u32 where "DIRTY \<equiv> 2"
abbreviation (input) STATUS_MASK :: u32 where "STATUS_MASK \<equiv> 0xFF"
abbreviation (input) STATUS_FLUSH :: u32 where "STATUS_FLUSH \<equiv> 0x8000"

record cache =
  c_vbn :: u64
  c_state :: u32
  c_blk :: blk

definition CACHE_DIRTY :: "cache \<Rightarrow> bool" where
  "CACHE_DIRTY c \<longleftrightarrow> c_state c AND STATUS_MASK = DIRTY"

definition CACHE_FLUSH :: "cache \<Rightarrow> bool" where
  "CACHE_FLUSH c \<longleftrightarrow> c_state c AND STATUS_FLUSH \<noteq> 0"

text \<open>
  \<open>co_oom\<close> says which calls of the allocator fail; a block that is not on the disk is one
  that cannot be read. \<open>co_meta\<close> is \<^verbatim>\<open>metadata_cache\<close> of the container.
\<close>

record core =
  co_heap :: "nat \<Rightarrow> cache option"
  co_next :: nat
  co_oom :: "nat \<Rightarrow> bool"
  co_mallocs :: nat
  co_meta :: "(u64 \<times> nat) list"
  co_disk :: "u64 \<Rightarrow> blk option"
  co_block_size :: nat
  co_base_blk :: u64

record 'e levels =
  lv_core :: "'e \<Rightarrow> core"
  lv_core_set :: "core \<Rightarrow> 'e \<Rightarrow> 'e"
  lv_alloc :: "'e \<Rightarrow> (int \<times> u64 \<times> 'e) option"
  lv_free :: "u64 \<Rightarrow> 'e \<Rightarrow> (int \<times> 'e) option"

text \<open>An open object with one handle: the fields of \<^verbatim>\<open>object_info_t\<close> the index code
  uses, those of \<^verbatim>\<open>object_handle_t\<close>, and the environment.\<close>

record 'e object =
  t_objid :: u64
  t_attr_flags :: u16
  t_root :: nat
  t_inode_cache :: nat
  t_inode_no :: u64
  t_name :: "u8 list"
  t_caches :: "(u64 \<times> nat) list"
  t_max_depth :: nat
  t_depth :: nat
  t_cache_stack :: "nat \<Rightarrow> nat"
  t_position_stack :: "nat \<Rightarrow> nat"
  t_cache :: nat
  t_position :: nat
  t_ie :: nat
  t_env :: 'e

definition core_of :: "'e levels \<Rightarrow> 'e object \<Rightarrow> core" where
  "core_of lv t = lv_core lv (t_env t)"

definition core_set :: "'e levels \<Rightarrow> core \<Rightarrow> 'e object \<Rightarrow> 'e object" where
  "core_set lv c t = t\<lparr>t_env := lv_core_set lv c (t_env t)\<rparr>"

definition cache_at :: "'e levels \<Rightarrow> 'e object \<Rightarrow> nat \<Rightarrow> cache option" where
  "cache_at lv t p = co_heap (core_of lv t) p"

definition put_cache :: "nat \<Rightarrow> cache \<Rightarrow> core \<Rightarrow> core" where
  "put_cache p c co = co\<lparr>co_heap := (co_heap co)(p := Some c)\<rparr>"

definition cache_set :: "'e levels \<Rightarrow> nat \<Rightarrow> cache \<Rightarrow> 'e object \<Rightarrow> 'e object" where
  "cache_set lv p c t = core_set lv (put_cache p c (core_of lv t)) t"

text \<open>The index block \<^verbatim>\<open>IB(cache->ib)\<close>. The buffer of the root cache is inside the inode.\<close>

definition blk_of :: "core \<Rightarrow> blk \<Rightarrow> index_block option" where
  "blk_of co b = (case b of
     Indx ib \<Rightarrow> Some ib
   | InodeOf p \<Rightarrow> (case co_heap co p of
       Some c \<Rightarrow> (case c_blk c of Obje i \<Rightarrow> ar_content (in_attr i) | _ \<Rightarrow> None)
     | None \<Rightarrow> None)
   | _ \<Rightarrow> None)"

definition get_ib :: "'e levels \<Rightarrow> 'e object \<Rightarrow> nat \<Rightarrow> index_block option" where
  "get_ib lv t p = do { c \<leftarrow> cache_at lv t p; blk_of (core_of lv t) (c_blk c) }"

definition put_ib :: "'e levels \<Rightarrow> nat \<Rightarrow> index_block \<Rightarrow> 'e object \<Rightarrow> 'e object option" where
  "put_ib lv p ib t = do {
     c \<leftarrow> cache_at lv t p;
     case c_blk c of
       InodeOf q \<Rightarrow> do {
         d \<leftarrow> cache_at lv t q;
         case c_blk d of
           Obje i \<Rightarrow> Some (cache_set lv q (d\<lparr>c_blk := Obje (i\<lparr>in_attr := (in_attr i)\<lparr>ar_content := Some ib\<rparr>\<rparr>)\<rparr>) t)
         | _ \<Rightarrow> None
       }
     | NoBuf \<Rightarrow> None
     | _ \<Rightarrow> Some (cache_set lv p (c\<lparr>c_blk := Indx ib\<rparr>) t)
   }"

definition set_state :: "'e levels \<Rightarrow> nat \<Rightarrow> u32 \<Rightarrow> 'e object \<Rightarrow> 'e object option" where
  "set_state lv p s t = do { c \<leftarrow> cache_at lv t p; Some (cache_set lv p (c\<lparr>c_state := s\<rparr>) t) }"

definition malloc :: "core \<Rightarrow> bool \<times> core" where
  "malloc co = (\<not> co_oom co (co_mallocs co), co\<lparr>co_mallocs := Suc (co_mallocs co)\<rparr>)"

section \<open>Trees of caches\<close>

definition compare_cache2 :: "u64 \<Rightarrow> cache \<Rightarrow> int" where
  "compare_cache2 vbn c = (if vbn > c_vbn c then 1 else if vbn < c_vbn c then -1 else 0)"

definition compare_cache1 :: "cache \<Rightarrow> cache \<Rightarrow> int" where
  "compare_cache1 c d = (if c_vbn c > c_vbn d then 1 else if c_vbn c < c_vbn d then -1 else 0)"

text \<open>\<^verbatim>\<open>avl_add\<close> by block number; adding one that is there is undefined. \<^verbatim>\<open>avl_remove\<close>
  takes the cache, wherever it is.\<close>

definition seq_add :: "u64 \<Rightarrow> nat \<Rightarrow> (u64 \<times> nat) list \<Rightarrow> (u64 \<times> nat) list option" where
  "seq_add v p ns =
     (if v \<in> fst ` set ns \<or> p \<in> snd ` set ns then None
      else Some (filter (\<lambda>n. fst n < v) ns @ (v, p) # filter (\<lambda>n. v < fst n) ns))"

definition seq_remove :: "nat \<Rightarrow> (u64 \<times> nat) list \<Rightarrow> (u64 \<times> nat) list option" where
  "seq_remove p ns = (if p \<in> snd ` set ns then Some (filter (\<lambda>n. snd n \<noteq> p) ns) else None)"

section \<open>The caches of an object\<close>

definition insert_obj_cache :: "'e levels \<Rightarrow> nat \<Rightarrow> 'e object \<Rightarrow> 'e object option" where
  "insert_obj_cache lv p t = do {
     c \<leftarrow> cache_at lv t p;
     ns \<leftarrow> seq_add (c_vbn c) p (t_caches t);
     let t = t\<lparr>t_caches := ns\<rparr>;
     ms \<leftarrow> seq_add (c_vbn c) p (co_meta (core_of lv t));
     Some (core_set lv ((core_of lv t)\<lparr>co_meta := ms\<rparr>) t)
   }"

definition remove_obj_cache :: "'e levels \<Rightarrow> nat \<Rightarrow> 'e object \<Rightarrow> 'e object option" where
  "remove_obj_cache lv p t = do {
     ns \<leftarrow> seq_remove p (t_caches t);
     let t = t\<lparr>t_caches := ns\<rparr>;
     ms \<leftarrow> seq_remove p (co_meta (core_of lv t));
     Some (core_set lv ((core_of lv t)\<lparr>co_meta := ms\<rparr>) t)
   }"

definition change_obj_cache_vbn :: "'e levels \<Rightarrow> nat \<Rightarrow> u64 \<Rightarrow> 'e object \<Rightarrow> 'e object option" where
  "change_obj_cache_vbn lv p new_vbn t = do {
     t \<leftarrow> remove_obj_cache lv p t;
     c \<leftarrow> cache_at lv t p;
     let t = cache_set lv p (c\<lparr>c_vbn := new_vbn\<rparr>) t;
     insert_obj_cache lv p t
   }"

text \<open>The result is the address of the new cache, 0 when there is no memory for it. The second
  test of the code looks at the cache again, not at its buffer.\<close>

definition alloc_obj_cache :: "'e levels \<Rightarrow> u64 \<Rightarrow> 'e object \<Rightarrow> (nat \<times> 'e object) option" where
  "alloc_obj_cache lv vbn t =
     (let (ok, co) = malloc (core_of lv t) in
      if \<not> ok then Some (0, core_set lv co t)
      else
        let (ok, co) = malloc co;
            p = co_next co;
            co = put_cache p \<lparr>c_vbn = vbn, c_state = EMPTY, c_blk = (if ok then Raw else NoBuf)\<rparr> co;
            t = core_set lv (co\<lparr>co_next := Suc p\<rparr>) t
        in do {
          t \<leftarrow> insert_obj_cache lv p t;
          Some (p, t)
        })"

definition drop_cache :: "nat \<Rightarrow> core \<Rightarrow> core" where
  "drop_cache p co = co\<lparr>co_heap := (co_heap co)(p := None)\<rparr>"

definition free_obj_cache :: "'e levels \<Rightarrow> nat \<Rightarrow> 'e object \<Rightarrow> 'e object option" where
  "free_obj_cache lv p t = do {
     t \<leftarrow> remove_obj_cache lv p t;
     Some (core_set lv (drop_cache p (core_of lv t)) t)
   }"

definition alloc_obj_cache_and_block :: "'e levels \<Rightarrow> 'e object \<Rightarrow> (int \<times> nat \<times> 'e object) option" where
  "alloc_obj_cache_and_block lv t = do {
     (ret, vbn, env) \<leftarrow> lv_alloc lv (t_env t);
     let t = t\<lparr>t_env := env\<rparr>;
     if ret < 0 then Some (ret, 0, t)
     else do {
       (p, t) \<leftarrow> alloc_obj_cache lv vbn t;
       if p = 0 then do {
         (_, env) \<leftarrow> lv_free lv vbn (t_env t);
         Some (- INDEX_ERR_ALLOCATE_MEMORY, 0, t\<lparr>t_env := env\<rparr>)
       }
       else Some (0, p, t)
     }
   }"

definition release_obj_cache :: "'e levels \<Rightarrow> nat \<Rightarrow> 'e object \<Rightarrow> (int \<times> 'e object) option" where
  "release_obj_cache lv p t = do {
     c \<leftarrow> cache_at lv t p;
     if CACHE_DIRTY c then do {
       let t = cache_set lv p (c\<lparr>c_state := c_state c OR STATUS_FLUSH\<rparr>) t;
       ns \<leftarrow> seq_remove p (t_caches t);
       Some (0, t\<lparr>t_caches := ns\<rparr>)
     }
     else do {
       t \<leftarrow> free_obj_cache lv p t;
       Some (0, t)
     }
   }"

text \<open>\<^verbatim>\<open>avl_walk_all\<close> with a callback that removes the node it is given visits all nodes
  in order (\<open>avl_walk_all_sweep\<close>).\<close>

fun walk_caches :: "(nat \<Rightarrow> 's \<Rightarrow> (int \<times> 's) option) \<Rightarrow> (u64 \<times> nat) list \<Rightarrow> 's \<Rightarrow> (int \<times> 's) option" where
  "walk_caches cb [] s = Some (0, s)"
| "walk_caches cb (n # ns) s = do {
     (ret, s) \<leftarrow> cb (snd n) s;
     if ret \<noteq> 0 then Some (ret, s) else walk_caches cb ns s
   }"

definition release_obj_all_cache :: "'e levels \<Rightarrow> 'e object \<Rightarrow> (int \<times> 'e object) option" where
  "release_obj_all_cache lv t = do {
     (_, t) \<leftarrow> walk_caches (release_obj_cache lv) (t_caches t) t;
     Some (0, t)
   }"

text \<open>\<^verbatim>\<open>ofs_read_block_fixup\<close> at the level of blocks: where the disk holds no valid block,
  or one of another kind than the one asked for, \<^verbatim>\<open>verify_block\<close> or \<^verbatim>\<open>fixup_block\<close>
  refuses what was read (Ofs_Block_Rw has that refusal on bytes).\<close>

definition read_block :: "core \<Rightarrow> u64 \<Rightarrow> nat \<Rightarrow> int \<times> blk" where
  "read_block co vbn oid = (case co_disk co vbn of
     None \<Rightarrow> (- FILE_BLOCK_ERR_INVALID_OBJECT, Raw)
   | Some b \<Rightarrow> (case b of
       Indx ib \<Rightarrow> if oid = INDEX_MAGIC then (0, b) else (- FILE_BLOCK_ERR_INVALID_OBJECT, Raw)
     | Obje i \<Rightarrow> if oid = INODE_MAGIC then (0, b) else (- FILE_BLOCK_ERR_INVALID_OBJECT, Raw)
     | _ \<Rightarrow> (- FILE_BLOCK_ERR_INVALID_OBJECT, Raw)))"

definition index_block_read2 :: "'e levels \<Rightarrow> u64 \<Rightarrow> nat \<Rightarrow> 'e object \<Rightarrow> (int \<times> nat \<times> 'e object) option" where
  "index_block_read2 lv vbn oid t =
     (case map_of (t_caches t) vbn of
        Some p \<Rightarrow> Some (0, p, t)
      | None \<Rightarrow> do {
          (p, t) \<leftarrow> alloc_obj_cache lv vbn t;
          if p = 0 then Some (- INDEX_ERR_ALLOCATE_MEMORY, 0, t)
          else do {
            c \<leftarrow> cache_at lv t p;
            if c_blk c = NoBuf then Some (- BLOCK_ERR_PARAMETER, 0, t)
            else
              let (ret, b) = read_block (core_of lv t) vbn oid in
              if ret < 0 then Some (ret, 0, t)
              else Some (0, p, cache_set lv p (c\<lparr>c_blk := b, c_state := CLEAN\<rparr>) t)
          }
        })"

definition index_block_read :: "'e levels \<Rightarrow> u64 \<Rightarrow> nat \<Rightarrow> 'e object \<Rightarrow> (int \<times> 'e object) option" where
  "index_block_read lv vbn oid t = do {
     c \<leftarrow> cache_at lv t (t_cache t);
     if c_vbn c = vbn then Some (0, t)
     else do {
       (ret, p, t) \<leftarrow> index_block_read2 lv vbn oid t;
       Some (ret, t\<lparr>t_cache := p\<rparr>)
     }
   }"

section \<open>The caches of the container\<close>

definition free_fs_cache :: "nat \<Rightarrow> core \<Rightarrow> core option" where
  "free_fs_cache p co = do {
     ms \<leftarrow> seq_remove p (co_meta co);
     Some (drop_cache p (co\<lparr>co_meta := ms\<rparr>))
   }"

text \<open>Writing a buffer: the inode takes its attribute content along.\<close>

definition flush_fs_dirty_cache :: "(u64 \<Rightarrow> bool) \<Rightarrow> nat \<Rightarrow> core \<Rightarrow> (int \<times> core) option" where
  "flush_fs_dirty_cache wr_fails p co = do {
     c \<leftarrow> co_heap co p;
     if \<not> CACHE_DIRTY c then Some (0, co)
     else if c_blk c = NoBuf then None
     else if wr_fails (c_vbn c) then Some (- INDEX_ERR_UPDATE, co)
     else
       let co = co\<lparr>co_disk := (co_disk co)(c_vbn c := Some (c_blk c))\<rparr> in
       if CACHE_FLUSH c then do { co \<leftarrow> free_fs_cache p co; Some (0, co) }
       else Some (0, put_cache p (c\<lparr>c_state := CLEAN\<rparr>) co)
   }"

definition flush_metadata :: "(u64 \<Rightarrow> bool) \<Rightarrow> core \<Rightarrow> (int \<times> core) option" where
  "flush_metadata wr_fails co = walk_caches (flush_fs_dirty_cache wr_fails) (co_meta co) co"

definition release_fs_cache :: "nat \<Rightarrow> core \<Rightarrow> (int \<times> core) option" where
  "release_fs_cache p co = do { co \<leftarrow> free_fs_cache p co; Some (0, co) }"

definition release_fs_all_cache :: "core \<Rightarrow> (int \<times> core) option" where
  "release_fs_all_cache co = do {
     (_, co) \<leftarrow> walk_caches release_fs_cache (co_meta co) co;
     Some (0, co)
   }"

end
