(* ===== verification/Ofs_Index_Node.thy ===== *)
theory Ofs_Index_Node imports Ofs_Layout
begin

unbundle bit_operations_syntax

text \<open>
  The functions of \<^verbatim>\<open>object_system/ofs_btree.c\<close> on the entries of one block. They
  return \<^term>\<open>None\<close> where the code would read or write outside the entries or the buffer.
\<close>

definition flag :: "u8 \<Rightarrow> u8 \<Rightarrow> bool" where
  "flag fs f \<longleftrightarrow> fs AND f \<noteq> 0"

abbreviation is_large :: "index_block \<Rightarrow> bool" where
  "is_large ib \<equiv> flag (ib_node_type ib) INDEX_BLOCK_LARGE"

definition last_ie_len :: "index_block \<Rightarrow> nat" where
  "last_ie_len ib = (if is_large ib then ENTRY_END_SIZE + VBN_SIZE else ENTRY_END_SIZE)"

section \<open>Empty blocks\<close>

definition begin_ie :: index_entry where
  "begin_ie = \<lparr>ie_len = ENTRY_BEGIN_SIZE, ie_prev_len = 0, ie_flags = INDEX_ENTRY_BEGIN, ie_key = [], ie_value = [], ie_vbn = 0\<rparr>"

definition init_ib :: "u8 \<Rightarrow> nat \<Rightarrow> index_block" where
  "init_ib node_type alloc_size =
     (let large = flag node_type INDEX_BLOCK_LARGE;
          len = (if large then ENTRY_END_SIZE + VBN_SIZE else ENTRY_END_SIZE)
      in \<lparr>ib_alloc_size = alloc_size, ib_real_size = INDEX_BLOCK_SIZE + len,
          ib_first_entry_off = INDEX_BLOCK_SIZE, ib_node_type = node_type,
          ib_entries = [begin_ie,
            \<lparr>ie_len = len, ie_prev_len = ENTRY_BEGIN_SIZE,
             ie_flags = (if large then INDEX_ENTRY_END OR INDEX_ENTRY_NODE else INDEX_ENTRY_END),
             ie_key = [], ie_value = [], ie_vbn = 0\<rparr>]\<rparr>)"

text \<open>The two entries left of the block are the begin and the end entry.\<close>

definition make_ib_small :: "index_block \<Rightarrow> index_block" where
  "make_ib_small ib = ib\<lparr>ib_real_size := INDEX_BLOCK_SIZE + ENTRY_END_SIZE, ib_node_type := INDEX_BLOCK_SMALL,
     ib_entries := [begin_ie,
       \<lparr>ie_len = ENTRY_END_SIZE, ie_prev_len = ENTRY_BEGIN_SIZE, ie_flags = INDEX_ENTRY_END,
        ie_key = [], ie_value = [], ie_vbn = 0\<rparr>]\<rparr>"

section \<open>Lengths and positions\<close>

text \<open>The loop of \<^verbatim>\<open>get_middle_ie\<close> from the offset of an entry; an entry of length 0
  is passed for ever.\<close>

fun middle_loop :: "index_entry list \<Rightarrow> nat \<Rightarrow> nat \<Rightarrow> nat option" where
  "middle_loop [] mid off = None"
| "middle_loop (e # es) mid off =
     (if has_flag e INDEX_ENTRY_END then Some off
      else if mid > ie_len e then
        (if ie_len e = 0 then None else middle_loop es (mid - ie_len e) (off + ie_len e))
      else Some off)"

definition entries_from :: "index_block \<Rightarrow> nat \<Rightarrow> index_entry list option" where
  "entries_from ib off = map_option (\<lambda>i. drop i (ib_entries ib)) (ie_at (ib_entries ib) off)"

definition get_middle_ie :: "index_block \<Rightarrow> nat option" where
  "get_middle_ie ib = do {
     es \<leftarrow> entries_from ib (ib_first_entry_off ib);
     middle_loop es ((ib_real_size ib - INDEX_BLOCK_SIZE) div 2) (ib_first_entry_off ib)
   }"

fun get_entries_length :: "index_entry list \<Rightarrow> nat option" where
  "get_entries_length [] = None"
| "get_entries_length (e # es) =
     (if has_flag e INDEX_ENTRY_END then Some (ie_len e)
      else if ie_len e = 0 then Some 0
      else map_option (\<lambda>n. ie_len e + n) (get_entries_length es))"

definition bytes :: "index_entry list \<Rightarrow> nat" where
  "bytes es = sum_list (map ie_len es)"

section \<open>Removing and inserting an entry\<close>

text \<open>The bytes moved are those of the entries up to the end entry, and these are all the
  entries that follow.\<close>

definition remove_ie :: "index_block \<Rightarrow> nat \<Rightarrow> index_block option" where
  "remove_ie ib off = do {
     i \<leftarrow> ie_at (ib_entries ib) off;
     let es = ib_entries ib;
     if Suc i \<ge> length es then None
     else if get_entries_length (drop (Suc i) es) \<noteq> Some (bytes (drop (Suc i) es)) then None
     else
       let ie = es ! i; next_ie = es ! Suc i
       in Some (ib\<lparr>ib_real_size := ib_real_size ib - ie_len ie,
            ib_entries := take i es @ next_ie\<lparr>ie_prev_len := ie_prev_len ie\<rparr> # drop (Suc (Suc i)) es\<rparr>)
   }"

text \<open>The buffer holds \<^verbatim>\<open>alloc_size\<close> bytes.\<close>

definition insert_ie :: "index_block \<Rightarrow> index_entry \<Rightarrow> nat \<Rightarrow> index_block option" where
  "insert_ie ib ie off = do {
     i \<leftarrow> ie_at (ib_entries ib) off;
     let es = ib_entries ib;
     if get_entries_length (drop i es) \<noteq> Some (bytes (drop i es)) then None
     else if ib_real_size ib + ie_len ie > ib_alloc_size ib then None
     else
       let pos = es ! i
       in Some (ib\<lparr>ib_real_size := ib_real_size ib + ie_len ie,
            ib_entries := take i es @ ie\<lparr>ie_prev_len := ie_prev_len pos\<rparr> #
              pos\<lparr>ie_prev_len := ie_len ie\<rparr> # drop (Suc i) es\<rparr>)
   }"

section \<open>Copies of an entry with and without a child\<close>

text \<open>The size is a \<^verbatim>\<open>uint16_t\<close>. These are the copies when the memory is there.\<close>

definition ie_add_vbn :: "index_entry \<Rightarrow> u64 \<Rightarrow> index_entry option" where
  "ie_add_vbn ie vbn =
     (let size = (if has_flag ie INDEX_ENTRY_NODE then ie_len ie else ie_len ie + VBN_SIZE) in
      if size \<ge> 2 ^ 16 then None
      else Some (ie\<lparr>ie_len := size, ie_flags := ie_flags ie OR INDEX_ENTRY_NODE, ie_vbn := vbn\<rparr>))"

definition ie_del_vbn :: "index_entry \<Rightarrow> index_entry option" where
  "ie_del_vbn ie =
     (if \<not> has_flag ie INDEX_ENTRY_NODE then Some ie
      else if ie_len ie < VBN_SIZE then None
      else Some (ie\<lparr>ie_len := ie_len ie - VBN_SIZE, ie_flags := ie_flags ie AND NOT INDEX_ENTRY_NODE\<rparr>))"

section \<open>Splitting a block\<close>

text \<open>The new block gets the entries after \<^verbatim>\<open>mid_ie\<close>; the entry after it is
  changed in the old block too. The results are the new and the old block.\<close>

definition copy_ib_tail :: "index_block \<Rightarrow> nat \<Rightarrow> (index_block \<times> index_block) option" where
  "copy_ib_tail src mid_off = do {
     let dst = init_ib (ib_node_type src) (ib_alloc_size src);
     let es = ib_entries src;
     i \<leftarrow> ie_at es mid_off;
     if Suc i \<ge> length es \<or> ib_real_size src \<noteq> ie_off es (length es) then None
     else
       let next_ie = (es ! Suc i)\<lparr>ie_prev_len := ENTRY_BEGIN_SIZE\<rparr>;
           src = src\<lparr>ib_entries := es[Suc i := next_ie]\<rparr>;
           tail = next_ie # drop (Suc (Suc i)) es;
           tail_size = ib_real_size src - (mid_off + ie_len (es ! i))
       in Some (dst\<lparr>ib_entries := begin_ie # tail, ib_real_size := tail_size + ib_first_entry_off dst\<rparr>, src)
   }"

text \<open>The old block ends where \<^verbatim>\<open>ie\<close> was; its end entry takes over the child of \<^verbatim>\<open>ie\<close>.\<close>

definition cut_ib_tail :: "index_block \<Rightarrow> nat \<Rightarrow> index_block option" where
  "cut_ib_tail src off = do {
     let es = ib_entries src;
     i \<leftarrow> ie_at es off;
     let ie = es ! i;
     last_ie \<leftarrow> ie_read src (ib_real_size src - last_ie_len src);
     let last_ie = (if has_flag last_ie INDEX_ENTRY_NODE then last_ie\<lparr>ie_vbn := ie_vbn ie\<rparr> else last_ie);
     prev_ie \<leftarrow> ie_read src (off - ie_prev_len ie);
     let last_ie = last_ie\<lparr>ie_prev_len := ie_len prev_ie\<rparr>;
     Some (src\<lparr>ib_entries := take i es @ [last_ie], ib_real_size := ie_len last_ie + off\<rparr>)
   }"

end
