(* ===== verification/Ofs_Btree.thy ===== *)
theory Ofs_Btree imports Ofs_Metadata_Cache Ofs_Index_Node
begin

unbundle bit_operations_syntax

text \<open>
  The index of an object, \<^verbatim>\<open>object_system/ofs_btree.c\<close>. A pointer to an entry of the
  current block is its byte offset in the block; a call returns its status and the new state, or
  \<^term>\<open>None\<close> where the code reads or writes outside the entries of a block or does not return.
\<close>

abbreviation (input) INDEX_GETTO_BEGIN :: int where "INDEX_GETTO_BEGIN \<equiv> 1"
abbreviation (input) INDEX_GET_FIRST :: u8 where "INDEX_GET_FIRST \<equiv> 0x01"
abbreviation (input) INDEX_GET_LAST :: u8 where "INDEX_GET_LAST \<equiv> 0x02"
abbreviation (input) INDEX_GET_PREV :: u8 where "INDEX_GET_PREV \<equiv> 0x04"
abbreviation (input) INDEX_GET_CURRENT :: u8 where "INDEX_GET_CURRENT \<equiv> 0x08"
abbreviation (input) INDEX_GET_LAST_ENTRY :: u8 where "INDEX_GET_LAST_ENTRY \<equiv> 0x10"
abbreviation (input) INDEX_REMOVE_BLOCK :: u8 where "INDEX_REMOVE_BLOCK \<equiv> 0x20"
abbreviation (input) INDEX_ADD_BLOCK :: u8 where "INDEX_ADD_BLOCK \<equiv> 0x40"
abbreviation (input) INDEX_WALK_MASK :: u8 where "INDEX_WALK_MASK \<equiv> 0x1F"

text \<open>\<^verbatim>\<open>tree->cache->ib\<close> and \<^verbatim>\<open>*tree->ie\<close>.\<close>

definition cur_ib :: "'e levels \<Rightarrow> 'e object \<Rightarrow> index_block option" where
  "cur_ib lv t = get_ib lv t (t_cache t)"

definition cur_ie :: "'e levels \<Rightarrow> 'e object \<Rightarrow> index_entry option" where
  "cur_ie lv t = do { ib \<leftarrow> cur_ib lv t; ie_read ib (t_ie t) }"

section \<open>Marking the path dirty\<close>

text \<open>One round of the loop links the child that got the block \<open>vbn\<close>; 0 is no link.\<close>

definition set_link :: "'e levels \<Rightarrow> nat \<Rightarrow> u64 \<Rightarrow> 'e object \<Rightarrow> 'e object option" where
  "set_link lv d vbn t =
     (if vbn = 0 then Some t
      else do {
        ib \<leftarrow> get_ib lv t (t_cache_stack t d);
        e \<leftarrow> ie_read ib (t_position_stack t d);
        ib \<leftarrow> ie_write ib (t_position_stack t d) (e\<lparr>ie_vbn := vbn\<rparr>);
        put_ib lv (t_cache_stack t d) ib t
      })"

text \<open>The block of a cache moves: \<^verbatim>\<open>root_cache.vbn = new_vbn\<close> for the root.\<close>

definition move_cache :: "'e levels \<Rightarrow> nat \<Rightarrow> u64 \<Rightarrow> 'e object \<Rightarrow> 'e object option" where
  "move_cache lv d new_vbn t =
     (if d = 0 then do {
        c \<leftarrow> cache_at lv t (t_root t);
        Some (cache_set lv (t_root t) (c\<lparr>c_vbn := new_vbn\<rparr>) t)
      }
      else change_obj_cache_vbn lv (t_cache_stack t d) new_vbn t)"

definition dirty_step :: "'e levels \<Rightarrow> nat \<Rightarrow> u64 \<Rightarrow> 'e object \<Rightarrow> (int \<times> u64 option \<times> 'e object) option" where
  "dirty_step lv d vbn t = do {
     c \<leftarrow> cache_at lv t (t_cache_stack t d);
     if CACHE_DIRTY c then do {
       t \<leftarrow> set_link lv d vbn t;
       Some (0, None, t)
     }
     else do {
       (ret, new_vbn, env) \<leftarrow> lv_alloc lv (t_env t);
       let t = t\<lparr>t_env := env\<rparr>;
       if ret < 0 then Some (ret, None, t)
       else do {
         c \<leftarrow> cache_at lv t (t_cache_stack t d);
         let old_vbn = c_vbn c;
         t \<leftarrow> move_cache lv d new_vbn t;
         t \<leftarrow> set_link lv d vbn t;
         t \<leftarrow> set_state lv (t_cache_stack t d) DIRTY t;
         (ret, env) \<leftarrow> lv_free lv old_vbn (t_env t);
         let t = t\<lparr>t_env := env\<rparr>;
         if ret < 0 then Some (ret, None, t) else Some (0, Some new_vbn, t)
       }
     }
   }"

fun set_ib_dirty_loop :: "'e levels \<Rightarrow> nat \<Rightarrow> u64 \<Rightarrow> 'e object \<Rightarrow> (int \<times> 'e object) option" where
  "set_ib_dirty_loop lv 0 vbn t = do {
     (ret, _, t) \<leftarrow> dirty_step lv 0 vbn t;
     Some (ret, t)
   }"
| "set_ib_dirty_loop lv (Suc d) vbn t = do {
     (ret, v, t) \<leftarrow> dirty_step lv (Suc d) vbn t;
     case v of None \<Rightarrow> Some (ret, t) | Some new_vbn \<Rightarrow> set_ib_dirty_loop lv d new_vbn t
   }"

definition set_ib_dirty :: "'e levels \<Rightarrow> 'e object \<Rightarrow> (int \<times> 'e object) option" where
  "set_ib_dirty lv t = set_ib_dirty_loop lv (t_depth t) 0 t"

section \<open>Moving in the tree\<close>

definition get_last_ie :: "'e levels \<Rightarrow> 'e object \<Rightarrow> 'e object option" where
  "get_last_ie lv t = do {
     ib \<leftarrow> cur_ib lv t;
     if ib_real_size ib < last_ie_len ib then None
     else Some (t\<lparr>t_ie := ib_real_size ib - last_ie_len ib, t_position := ib_real_size ib - last_ie_len ib\<rparr>)
   }"

definition get_first_ie :: "'e levels \<Rightarrow> 'e object \<Rightarrow> 'e object option" where
  "get_first_ie lv t = do {
     ib \<leftarrow> cur_ib lv t;
     Some (t\<lparr>t_ie := ib_first_entry_off ib, t_position := ib_first_entry_off ib\<rparr>)
   }"

definition reset_cache_stack :: "'e levels \<Rightarrow> u8 \<Rightarrow> 'e object \<Rightarrow> 'e object option" where
  "reset_cache_stack lv flags t =
     (let t = t\<lparr>t_cache := t_root t, t_cache_stack := (t_cache_stack t)(0 := t_root t), t_depth := 0\<rparr>
      in if flag flags INDEX_GET_LAST then get_last_ie lv t else get_first_ie lv t)"

definition push_cache_stack :: "'e levels \<Rightarrow> u8 \<Rightarrow> 'e object \<Rightarrow> (int \<times> 'e object) option" where
  "push_cache_stack lv flags t =
     (if t_depth t \<ge> TREE_MAX_DEPTH - 1 then Some (- INDEX_ERR_MAX_DEPTH, t)
      else do {
        e \<leftarrow> cur_ie lv t;
        (ret, t) \<leftarrow> index_block_read lv (ie_vbn e) INDEX_MAGIC t;
        if ret < 0 then Some (ret, t)
        else do {
          let t = t\<lparr>t_position_stack := (t_position_stack t)(t_depth t := t_position t)\<rparr>;
          let t = t\<lparr>t_depth := t_depth t + 1\<rparr>;
          let t = t\<lparr>t_cache_stack := (t_cache_stack t)(t_depth t := t_cache t)\<rparr>;
          ib \<leftarrow> cur_ib lv t;
          let t = (if \<not> is_large ib \<and> t_max_depth t \<noteq> t_depth t then t\<lparr>t_max_depth := t_depth t\<rparr> else t);
          t \<leftarrow> (if flag flags (INDEX_GET_LAST OR INDEX_GET_PREV) then get_last_ie lv t else get_first_ie lv t);
          Some (0, t)
        }
      })"

definition get_prev_ie :: "'e levels \<Rightarrow> 'e object \<Rightarrow> (int \<times> 'e object) option" where
  "get_prev_ie lv t = do {
     e \<leftarrow> cur_ie lv t;
     let t = t\<lparr>t_position := t_position t - ie_prev_len e\<rparr>;
     if t_ie t < BEGIN_ENTRY_OFF + ie_prev_len e
     then Some (- INDEX_ERR_FORMAT, t\<lparr>t_ie := t_ie t - ie_prev_len e\<rparr>)
     else do {
       let t = t\<lparr>t_ie := t_ie t - ie_prev_len e\<rparr>;
       e \<leftarrow> cur_ie lv t;
       if ie_prev_len e = 0 then
         Some (if has_flag e INDEX_ENTRY_BEGIN then INDEX_GETTO_BEGIN else - INDEX_ERR_FORMAT, t)
       else Some (0, t)
     }
   }"

definition pop_cache_stack :: "'e levels \<Rightarrow> u8 \<Rightarrow> 'e object \<Rightarrow> (int \<times> 'e object) option" where
  "pop_cache_stack lv flags t =
     (if t_depth t = 0 then Some (- INDEX_ERR_ROOT, t)
      else
        let t = t\<lparr>t_depth := t_depth t - 1\<rparr>;
            t = t\<lparr>t_cache := t_cache_stack t (t_depth t), t_position := t_position_stack t (t_depth t)\<rparr>;
            t = t\<lparr>t_ie := t_position t\<rparr>
        in if flag flags INDEX_GET_PREV then get_prev_ie lv t else Some (0, t))"

definition get_next_ie :: "'e levels \<Rightarrow> 'e object \<Rightarrow> (int \<times> 'e object) option" where
  "get_next_ie lv t = do {
     ib \<leftarrow> cur_ib lv t;
     e \<leftarrow> cur_ie lv t;
     if has_flag e INDEX_ENTRY_END then Some (- INDEX_ERR_NEXT_ENTRY, t)
     else do {
       let t = t\<lparr>t_position := t_position t + ie_len e, t_ie := t_ie t + ie_len e\<rparr>;
       if t_ie t \<ge> ib_real_size ib then Some (- INDEX_ERR_FORMAT, t)
       else do {
         e \<leftarrow> cur_ie lv t;
         Some (if ie_len e = 0 then - INDEX_ERR_FORMAT else 0, t)
       }
     }
   }"

definition add_or_remove_ib :: "'e levels \<Rightarrow> u8 \<Rightarrow> 'e object \<Rightarrow> (int \<times> 'e object) option" where
  "add_or_remove_ib lv flags t =
     (if flag flags INDEX_REMOVE_BLOCK then do {
        c \<leftarrow> cache_at lv t (t_cache t);
        (ret, env) \<leftarrow> lv_free lv (c_vbn c) (t_env t);
        let t = t\<lparr>t_env := env\<rparr>;
        Some (if ret < 0 then ret else 0, t)
      }
      else Some (0, t))"

partial_function (option) go_down :: "'e levels \<Rightarrow> u8 \<Rightarrow> 'e object \<Rightarrow> (int \<times> 'e object) option" where
  [code]: "go_down lv flags t = do {
     e \<leftarrow> cur_ie lv t;
     if has_flag e INDEX_ENTRY_NODE then do {
       (ret, t) \<leftarrow> push_cache_stack lv flags t;
       if ret < 0 then Some (ret, t) else go_down lv flags t
     }
     else Some (0, t)
   }"

partial_function (option) go_up :: "'e levels \<Rightarrow> u8 \<Rightarrow> 'e object \<Rightarrow> (int \<times> 'e object) option" where
  [code]: "go_up lv flags t = do {
     e \<leftarrow> cur_ie lv t;
     if \<not> has_flag e (INDEX_ENTRY_END OR INDEX_ENTRY_BEGIN) then Some (0, t)
     else do {
       (ret, t) \<leftarrow> add_or_remove_ib lv flags t;
       if ret < 0 then Some (ret, t)
       else do {
         (stop, ret, t) \<leftarrow>
           (if flag flags (INDEX_GET_LAST OR INDEX_GET_PREV) then
              if flag flags INDEX_GET_LAST_ENTRY then Some (True, 0, t)
              else do {
                (ret, t) \<leftarrow> get_prev_ie lv t;
                Some (ret \<le> 0, ret, t)
              }
            else Some (False, 0, t));
         if stop then Some (ret, t)
         else do {
           (ret, t) \<leftarrow> pop_cache_stack lv flags t;
           if ret < 0 then Some (ret, t) else go_up lv flags t
         }
       }
     }
   }"

definition get_current_ie :: "'e levels \<Rightarrow> u8 \<Rightarrow> 'e object \<Rightarrow> (int \<times> 'e object) option" where
  "get_current_ie lv flags t = do {
     (ret, t) \<leftarrow> go_down lv flags t;
     if ret < 0 then Some (ret, t) else go_up lv flags t
   }"

definition walk_tree :: "'e levels \<Rightarrow> u8 \<Rightarrow> 'e object \<Rightarrow> (int \<times> 'e object) option" where
  "walk_tree lv flags t = do {
     (ret, t) \<leftarrow>
       (if flag flags (INDEX_GET_FIRST OR INDEX_GET_LAST) then do {
          t \<leftarrow> reset_cache_stack lv flags t;
          Some (0, t)
        }
        else if flag flags INDEX_GET_PREV then do {
          e \<leftarrow> cur_ie lv t;
          if has_flag e INDEX_ENTRY_NODE then Some (0, t) else get_prev_ie lv t
        }
        else if \<not> flag flags INDEX_GET_CURRENT then get_next_ie lv t
        else Some (0, t));
     if ret < 0 then Some (ret, t) else get_current_ie lv flags t
   }"

end
