(* ===== verification/Ofs_Btree_Ops.thy ===== *)
theory Ofs_Btree_Ops imports Ofs_Btree Ofs_Collate
begin

unbundle bit_operations_syntax

text \<open>
  Searching, inserting, removing and counting keys in the index of an object,
  \<^verbatim>\<open>object_system/ofs_btree.c\<close>. A key or value pointer is a byte list, or
  \<^term>\<open>None\<close> for the null pointer; the locked functions are the unlocked ones.
\<close>

section \<open>Searching\<close>

text \<open>The inner loop: \<^term>\<open>Some ret\<close> when the function returns.\<close>

partial_function (option) search_scan ::
  "'e levels \<Rightarrow> u8 list \<Rightarrow> u8 list \<Rightarrow> 'e object \<Rightarrow> (int option \<times> 'e object) option" where
  [code]: "search_scan lv key value t = do {
     e \<leftarrow> cur_ie lv t;
     if has_flag e INDEX_ENTRY_END then Some (None, t)
     else do {
       ret \<leftarrow> collate_key (unat (t_attr_flags t AND 0xF)) e key value;
       if ret > 0 then Some (None, t)
       else if ret = 0 then Some (Some 0, t)
       else if ret = - INDEX_ERR_COLLATE then Some (Some ret, t)
       else do {
         (ret, t) \<leftarrow> get_next_ie lv t;
         if ret < 0 then Some (Some ret, t) else search_scan lv key value t
       }
     }
   }"

partial_function (option) search_loop ::
  "'e levels \<Rightarrow> u8 list \<Rightarrow> u8 list \<Rightarrow> 'e object \<Rightarrow> (int \<times> 'e object) option" where
  [code]: "search_loop lv key value t = do {
     (r, t) \<leftarrow> search_scan lv key value t;
     case r of
       Some ret \<Rightarrow> Some (ret, t)
     | None \<Rightarrow> do {
         e \<leftarrow> cur_ie lv t;
         if \<not> has_flag e INDEX_ENTRY_NODE then Some (- INDEX_ERR_KEY_NOT_FOUND, t)
         else do {
           (ret, t) \<leftarrow> push_cache_stack lv 0 t;
           if ret < 0 then Some (ret, t) else search_loop lv key value t
         }
       }
   }"

definition search_key_internal ::
  "'e levels \<Rightarrow> u8 list \<Rightarrow> u8 list \<Rightarrow> 'e object \<Rightarrow> (int \<times> 'e object) option" where
  "search_key_internal lv key value t = do {
     t \<leftarrow> reset_cache_stack lv 0 t;
     search_loop lv key value t
   }"

partial_function (option) get_to_near_key :: "'e levels \<Rightarrow> 'e object \<Rightarrow> 'e object option" where
  [code]: "get_to_near_key lv t = do {
     e \<leftarrow> cur_ie lv t;
     if \<not> has_flag e INDEX_ENTRY_END then Some t
     else do {
       (ret, t) \<leftarrow> pop_cache_stack lv 0 t;
       if ret < 0 then Some t else get_to_near_key lv t
     }
   }"

definition bad_key :: "u8 list option \<Rightarrow> bool" where
  "bad_key key \<longleftrightarrow> key = None \<or> key = Some []"

definition index_search_key_nolock ::
  "'e levels \<Rightarrow> u8 list option \<Rightarrow> u8 list \<Rightarrow> 'e object \<Rightarrow> (int \<times> 'e object) option" where
  "index_search_key_nolock lv key value t =
     (if bad_key key then Some (- INDEX_ERR_PARAMETER, t)
      else do {
        (ret, t) \<leftarrow> search_key_internal lv (the key) value t;
        if ret = - INDEX_ERR_KEY_NOT_FOUND then do {
          t \<leftarrow> get_to_near_key lv t;
          Some (ret, t)
        }
        else Some (ret, t)
      })"

definition index_search_key :: "'e levels \<Rightarrow> u8 list option \<Rightarrow> 'e object \<Rightarrow> (int \<times> 'e object) option" where
  "index_search_key lv key t =
     (if bad_key key then Some (- INDEX_ERR_PARAMETER, t) else index_search_key_nolock lv key [] t)"

section \<open>Splitting\<close>

text \<open>The current block and another one, changed by a function on blocks.\<close>

definition change_ib :: "'e levels \<Rightarrow> nat \<Rightarrow> (index_block \<Rightarrow> index_block option) \<Rightarrow> 'e object \<Rightarrow> 'e object option" where
  "change_ib lv p f t = do {
     ib \<leftarrow> get_ib lv t p;
     ib \<leftarrow> f ib;
     put_ib lv p ib t
   }"

definition set_cur_vbn :: "'e levels \<Rightarrow> u64 \<Rightarrow> 'e object \<Rightarrow> 'e object option" where
  "set_cur_vbn lv vbn t = do {
     e \<leftarrow> cur_ie lv t;
     change_ib lv (t_cache t) (\<lambda>ib. ie_write ib (t_ie t) (e\<lparr>ie_vbn := vbn\<rparr>)) t
   }"

definition dump_ie_add_vbn ::
  "'e levels \<Rightarrow> index_entry \<Rightarrow> u64 \<Rightarrow> 'e object \<Rightarrow> (index_entry option \<times> 'e object) option" where
  "dump_ie_add_vbn lv ie vbn t = do {
     let (ok, co) = malloc (core_of lv t);
     let t = core_set lv co t;
     if \<not> ok then Some (None, t)
     else do { e \<leftarrow> ie_add_vbn ie vbn; Some (Some e, t) }
   }"

definition dump_ie_del_vbn ::
  "'e levels \<Rightarrow> index_entry \<Rightarrow> 'e object \<Rightarrow> (index_entry option \<times> 'e object) option" where
  "dump_ie_del_vbn lv ie t = do {
     let (ok, co) = malloc (core_of lv t);
     let t = core_set lv co t;
     if \<not> ok then Some (None, t)
     else do { e \<leftarrow> ie_del_vbn ie; Some (Some e, t) }
   }"

text \<open>The new block takes the entries after the middle one, and the new entry when it belongs
  there. No entry is returned on failure.\<close>

definition split_ib :: "'e levels \<Rightarrow> index_entry \<Rightarrow> 'e object \<Rightarrow> (index_entry option \<times> 'e object) option" where
  "split_ib lv ie t = do {
     ib \<leftarrow> cur_ib lv t;
     mid_off \<leftarrow> get_middle_ie ib;
     mid_ie \<leftarrow> ie_read ib mid_off;
     (ret, p, t) \<leftarrow> alloc_obj_cache_and_block lv t;
     if ret < 0 then Some (None, t)
     else do {
       (new_ib, ib) \<leftarrow> copy_ib_tail ib mid_off;
       t \<leftarrow> put_ib lv (t_cache t) ib t;
       new_ib \<leftarrow> (if mid_off < t_ie t
         then insert_ie new_ib ie (ib_first_entry_off new_ib + (t_ie t - mid_off) - ie_len mid_ie)
         else Some new_ib);
       t \<leftarrow> put_ib lv p new_ib t;
       t \<leftarrow> set_state lv p DIRTY t;
       (ret, t) \<leftarrow> set_ib_dirty lv t;
       if ret < 0 then Some (None, t)
       else do {
         c \<leftarrow> cache_at lv t (t_cache t);
         ib \<leftarrow> cur_ib lv t;
         mid_ie \<leftarrow> ie_read ib mid_off;
         (new_ie, t) \<leftarrow> dump_ie_add_vbn lv mid_ie (c_vbn c) t;
         case new_ie of
           None \<Rightarrow> Some (None, t)
         | Some new_ie \<Rightarrow> do {
             t \<leftarrow> change_ib lv (t_cache t) (\<lambda>ib. cut_ib_tail ib mid_off) t;
             t \<leftarrow> (if mid_off < t_ie t then Some t
                  else change_ib lv (t_cache t) (\<lambda>ib. insert_ie ib ie (t_ie t)) t);
             (ret, t) \<leftarrow> pop_cache_stack lv 0 t;
             if ret < 0 then Some (None, t)
             else do {
               d \<leftarrow> cache_at lv t p;
               t \<leftarrow> set_cur_vbn lv (c_vbn d) t;
               Some (Some new_ie, t)
             }
           }
       }
     }
   }"

text \<open>The root's entries move into a new block below it. A failure frees the buffer of the new
  block while its cache stays registered.\<close>

definition reparent_root :: "'e levels \<Rightarrow> 'e object \<Rightarrow> (int \<times> 'e object) option" where
  "reparent_root lv t =
     (if t_max_depth t \<ge> TREE_MAX_DEPTH - 1 then Some (- INDEX_ERR_MAX_DEPTH, t)
      else do {
        old_ib \<leftarrow> cur_ib lv t;
        let alloc_size = ib_alloc_size old_ib;
        (ret, p, t) \<leftarrow> alloc_obj_cache_and_block lv t;
        if ret < 0 then Some (ret, t)
        else if ib_real_size old_ib > co_block_size (core_of lv t) then None
        else do {
          t \<leftarrow> put_ib lv p (old_ib\<lparr>ib_alloc_size := co_block_size (core_of lv t)\<rparr>) t;
          t \<leftarrow> set_state lv p DIRTY t;
          c \<leftarrow> cache_at lv t p;
          let new_root = init_ib INDEX_BLOCK_LARGE alloc_size;
          e \<leftarrow> ie_read new_root (ib_first_entry_off new_root);
          new_root \<leftarrow> ie_write new_root (ib_first_entry_off new_root) (e\<lparr>ie_vbn := c_vbn c\<rparr>);
          t \<leftarrow> put_ib lv (t_cache t) new_root t;
          (ret, t) \<leftarrow> set_ib_dirty lv t;
          if ret < 0 then do {
            c \<leftarrow> cache_at lv t p;
            Some (ret, cache_set lv p (c\<lparr>c_blk := NoBuf\<rparr>) t)
          }
          else do {
            root \<leftarrow> cur_ib lv t;
            let d = t_depth t;
            let t = t\<lparr>t_position_stack := (t_position_stack t)(d := ib_first_entry_off root)\<rparr>;
            let t = t\<lparr>t_depth := d + 1\<rparr>;
            let t = t\<lparr>t_cache_stack := (t_cache_stack t)(d + 1 := p),
                      t_position_stack := (t_position_stack t)(d + 1 := t_position t)\<rparr>;
            Some (0, t\<lparr>t_cache := p, t_ie := t_position t\<rparr>)
          }
        }
      })"

partial_function (option) tree_insert_ie ::
  "'e levels \<Rightarrow> index_entry \<Rightarrow> 'e object \<Rightarrow> (int \<times> 'e object) option" where
  [code]: "tree_insert_ie lv ie t = do {
     ib \<leftarrow> cur_ib lv t;
     if ib_real_size ib + ie_len ie \<le> ib_alloc_size ib then do {
       t \<leftarrow> change_ib lv (t_cache t) (\<lambda>ib. insert_ie ib ie (t_ie t)) t;
       set_ib_dirty lv t
     }
     else if t_depth t = 0 then do {
       (ret, t) \<leftarrow> reparent_root lv t;
       if ret < 0 then Some (- INDEX_ERR_REPARENT, t) else tree_insert_ie lv ie t
     }
     else do {
       (new_ie, t) \<leftarrow> split_ib lv ie t;
       case new_ie of
         None \<Rightarrow> Some (- INDEX_ERR_INSERT_ENTRY, t)
       | Some ie \<Rightarrow> tree_insert_ie lv ie t
     }
   }"

section \<open>Removing\<close>

definition first_is_end :: "'e levels \<Rightarrow> 'e object \<Rightarrow> bool option" where
  "first_is_end lv t = do {
     ib \<leftarrow> cur_ib lv t;
     e \<leftarrow> ie_read ib (ib_first_entry_off ib);
     Some (has_flag e INDEX_ENTRY_END)
   }"

partial_function (option) remove_empty_blocks :: "'e levels \<Rightarrow> 'e object \<Rightarrow> (int \<times> 'e object) option" where
  [code]: "remove_empty_blocks lv t = do {
     c \<leftarrow> cache_at lv t (t_cache t);
     (ret, env) \<leftarrow> lv_free lv (c_vbn c) (t_env t);
     let t = t\<lparr>t_env := env\<rparr>;
     if ret < 0 then Some (ret, t)
     else do {
       t \<leftarrow> set_state lv (t_cache t) EMPTY t;
       (ret, t) \<leftarrow> pop_cache_stack lv 0 t;
       if ret < 0 then Some (ret, t)
       else do {
         empty \<leftarrow> first_is_end lv t;
         if \<not> empty then Some (1, t)
         else if t_depth t = 0 then do {
           t \<leftarrow> change_ib lv (t_cache t) (\<lambda>ib. Some (make_ib_small ib)) t;
           set_ib_dirty lv t
         }
         else remove_empty_blocks lv t
       }
     }
   }"

definition check_removed_ib :: "'e levels \<Rightarrow> 'e object \<Rightarrow> (int \<times> 'e object) option" where
  "check_removed_ib lv t = do {
     empty \<leftarrow> first_is_end lv t;
     if \<not> empty \<or> t_depth t = 0 then Some (0, t) else remove_empty_blocks lv t
   }"

text \<open>
  After the entry before the end entry is taken out, \<^verbatim>\<open>tree->ie\<close> still points to the
  old place of the end entry. The bytes there are intact, since the entry removed is longer than
  the end entry, so reading through it is reading the end entry in its new place.
\<close>

definition remove_leaf :: "'e levels \<Rightarrow> 'e object \<Rightarrow> (int \<times> 'e object) option" where
  "remove_leaf lv t = do {
     t \<leftarrow> change_ib lv (t_cache t) (\<lambda>ib. remove_ie ib (t_ie t)) t;
     (ret, t) \<leftarrow> set_ib_dirty lv t;
     if ret < 0 then Some (ret, t)
     else do {
       (ret, t) \<leftarrow> check_removed_ib lv t;
       if ret < 0 then Some (ret, t)
       else if ret = 0 then Some (0, t)
       else do {
         e \<leftarrow> cur_ie lv t;
         let is_end = has_flag e INDEX_ENTRY_END;
         let prev_off = (if is_end then t_ie t - ie_prev_len e else t_ie t);
         ib \<leftarrow> cur_ib lv t;
         prev_ie \<leftarrow> ie_read ib prev_off;
         if is_end \<and> ie_len prev_ie < ie_len e then None
         else do {
           t \<leftarrow> (if is_end then set_cur_vbn lv (ie_vbn prev_ie) t else Some t);
           (ie, t) \<leftarrow> dump_ie_del_vbn lv prev_ie t;
           case ie of
             None \<Rightarrow> Some (- INDEX_ERR_DEL_VBN, t)
           | Some ie \<Rightarrow> do {
               t \<leftarrow> change_ib lv (t_cache t) (\<lambda>ib. remove_ie ib prev_off) t;
               (ret, t) \<leftarrow> set_ib_dirty lv t;
               if ret < 0 then Some (ret, t)
               else do {
                 let t = t\<lparr>t_position := prev_off, t_ie := prev_off\<rparr>;
                 (ret, t) \<leftarrow> get_current_ie lv
                   (if is_end then INDEX_GET_LAST OR INDEX_GET_LAST_ENTRY else INDEX_GET_CURRENT) t;
                 if ret < 0 then Some (ret, t) else tree_insert_ie lv ie t
               }
             }
         }
       }
     }
   }"

partial_function (option) pop_to_depth :: "'e levels \<Rightarrow> nat \<Rightarrow> 'e object \<Rightarrow> (int \<times> 'e object) option" where
  [code]: "pop_to_depth lv depth t =
     (if t_depth t > depth then do {
        (ret, t) \<leftarrow> pop_cache_stack lv 0 t;
        if ret < 0 then Some (ret, t) else pop_to_depth lv depth t
      }
      else Some (0, t))"

definition remove_node :: "'e levels \<Rightarrow> 'e object \<Rightarrow> (int \<times> 'e object) option" where
  "remove_node lv t = do {
     let depth = t_depth t;
     e \<leftarrow> cur_ie lv t;
     let len = ie_len e;
     let vbn = ie_vbn e;
     (ret, t) \<leftarrow> walk_tree lv 0 t;
     if ret < 0 then Some (ret, t)
     else do {
       e \<leftarrow> cur_ie lv t;
       (succ_ie, t) \<leftarrow> dump_ie_add_vbn lv e vbn t;
       case succ_ie of
         None \<Rightarrow> Some (- INDEX_ERR_ADD_VBN, t)
       | Some succ_ie \<Rightarrow> do {
           (ret, t) \<leftarrow> pop_to_depth lv depth t;
           if ret < 0 then Some (ret, t)
           else if t_ie t < len \<or> t_position t < len then None
           else do {
             let t = t\<lparr>t_ie := t_ie t - len, t_position := t_position t - len\<rparr>;
             t \<leftarrow> change_ib lv (t_cache t) (\<lambda>ib. remove_ie ib (t_ie t)) t;
             (ret, t) \<leftarrow> set_ib_dirty lv t;
             if ret < 0 then Some (ret, t)
             else do {
               (ret, t) \<leftarrow> tree_insert_ie lv succ_ie t;
               if ret < 0 then Some (ret, t)
               else do {
                 (ret, t) \<leftarrow> walk_tree lv 0 t;
                 if ret < 0 then Some (ret, t) else remove_leaf lv t
               }
             }
           }
         }
     }
   }"

definition tree_remove_ie :: "'e levels \<Rightarrow> 'e object \<Rightarrow> (int \<times> 'e object) option" where
  "tree_remove_ie lv t = do {
     e \<leftarrow> cur_ie lv t;
     if has_flag e (INDEX_ENTRY_END OR INDEX_ENTRY_BEGIN) then Some (- INDEX_ERR_END_ENTRY, t)
     else if has_flag e INDEX_ENTRY_NODE then remove_node lv t
     else remove_leaf lv t
   }"

definition index_remove_key_nolock :: "'e levels \<Rightarrow> u8 list option \<Rightarrow> 'e object \<Rightarrow> (int \<times> 'e object) option" where
  "index_remove_key_nolock lv key t =
     (if bad_key key then Some (- INDEX_ERR_PARAMETER, t)
      else do {
        (ret, t) \<leftarrow> search_key_internal lv (the key) [] t;
        if ret < 0 then Some (ret, t) else tree_remove_ie lv t
      })"

definition index_remove_key :: "'e levels \<Rightarrow> u8 list option \<Rightarrow> 'e object \<Rightarrow> (int \<times> 'e object) option" where
  "index_remove_key lv key t =
     (if bad_key key then Some (- INDEX_ERR_PARAMETER, t) else index_remove_key_nolock lv key t)"

section \<open>Inserting\<close>

text \<open>The length is computed in 16 bits; when it wraps, the copies overrun the new entry.\<close>

definition new_ie :: "u8 list \<Rightarrow> u8 list \<Rightarrow> index_entry option" where
  "new_ie key value =
     (let len = ENTRY_END_SIZE + length key + length value in
      if len \<ge> 2 ^ 16 then None
      else Some \<lparr>ie_len = len, ie_prev_len = 0, ie_flags = 0, ie_key = key, ie_value = value, ie_vbn = 0\<rparr>)"

definition index_insert_key_nolock ::
  "'e levels \<Rightarrow> u8 list option \<Rightarrow> u8 list \<Rightarrow> 'e object \<Rightarrow> (int \<times> 'e object) option" where
  "index_insert_key_nolock lv key value t =
     (if bad_key key then Some (- INDEX_ERR_PARAMETER, t)
      else do {
        (ret, t) \<leftarrow> search_key_internal lv (the key) value t;
        if ret \<ge> 0 then Some (- INDEX_ERR_KEY_EXIST, t)
        else if ret \<noteq> - INDEX_ERR_KEY_NOT_FOUND then Some (ret, t)
        else do {
          let (ok, co) = malloc (core_of lv t);
          let t = core_set lv co t;
          if \<not> ok then Some (- INDEX_ERR_ALLOCATE_MEMORY, t)
          else do {
            ie \<leftarrow> new_ie (the key) value;
            tree_insert_ie lv ie t
          }
        }
      })"

definition index_insert_key ::
  "'e levels \<Rightarrow> u8 list option \<Rightarrow> u8 list \<Rightarrow> 'e object \<Rightarrow> (int \<times> 'e object) option" where
  "index_insert_key lv key value t =
     (if bad_key key then Some (- INDEX_ERR_PARAMETER, t) else index_insert_key_nolock lv key value t)"

text \<open>The status of the removal is not looked at.\<close>

definition index_update_value ::
  "'e levels \<Rightarrow> u8 list option \<Rightarrow> u8 list \<Rightarrow> 'e object \<Rightarrow> (int \<times> 'e object) option" where
  "index_update_value lv key value t =
     (if bad_key key then Some (- INDEX_ERR_PARAMETER, t)
      else do {
        (_, t) \<leftarrow> index_remove_key_nolock lv key t;
        index_insert_key_nolock lv key value t
      })"

section \<open>Walking over all keys\<close>

partial_function (option) total_loop :: "'e levels \<Rightarrow> int \<Rightarrow> 'e object \<Rightarrow> (int \<times> 'e object) option" where
  [code]: "total_loop lv cnt t = do {
     let cnt = cnt + 1;
     (ret, t) \<leftarrow> walk_tree lv 0 t;
     if ret = 0 then total_loop lv cnt t else Some (cnt, t)
   }"

definition index_get_total_key :: "'e levels \<Rightarrow> 'e object \<Rightarrow> (int \<times> 'e object) option" where
  "index_get_total_key lv t = do {
     (ret, t) \<leftarrow> walk_tree lv INDEX_GET_FIRST t;
     if ret = 0 then total_loop lv 0 t else Some (0, t)
   }"

partial_function (option) target_loop ::
  "'e levels \<Rightarrow> u64 \<Rightarrow> int \<Rightarrow> 'e object \<Rightarrow> (int \<times> 'e object) option" where
  [code]: "target_loop lv target cnt t = do {
     let cnt = cnt + 1;
     let target = target - 1;
     if target = 0 then Some (cnt, t)
     else do {
       (ret, t) \<leftarrow> walk_tree lv 0 t;
       if ret = 0 then target_loop lv target cnt t else Some (cnt, t)
     }
   }"

definition index_get_target_key :: "'e levels \<Rightarrow> u64 \<Rightarrow> 'e object \<Rightarrow> (int \<times> 'e object) option" where
  "index_get_target_key lv target t = do {
     (ret, t) \<leftarrow> walk_tree lv INDEX_GET_FIRST t;
     if ret = 0 then target_loop lv target 0 t else Some (0, t)
   }"

partial_function (option) index_walk_loop ::
  "'e levels \<Rightarrow> u8 \<Rightarrow> ('e object \<times> 's \<Rightarrow> int \<times> 'e object \<times> 's) \<Rightarrow> 'e object \<times> 's \<Rightarrow> (int \<times> 'e object \<times> 's) option" where
  [code]: "index_walk_loop lv while_flag cb s = do {
     let (ret, s) = cb s;
     if ret < 0 then Some (ret, s)
     else do {
       (ret, t) \<leftarrow> walk_tree lv while_flag (fst s);
       if ret = 0 then index_walk_loop lv while_flag cb (t, snd s) else Some (0, t, snd s)
     }
   }"

definition index_walk_all ::
  "'e levels \<Rightarrow> bool \<Rightarrow> u8 \<Rightarrow> ('e object \<times> 's \<Rightarrow> int \<times> 'e object \<times> 's) \<Rightarrow> 'e object \<times> 's \<Rightarrow> (int \<times> 'e object \<times> 's) option" where
  "index_walk_all lv reverse flags cb s = do {
     let if_flag = (if reverse then INDEX_GET_LAST else INDEX_GET_FIRST) OR (flags AND NOT INDEX_WALK_MASK);
     let while_flag = (if reverse then INDEX_GET_PREV else 0) OR (flags AND NOT INDEX_WALK_MASK);
     (ret, t) \<leftarrow> walk_tree lv if_flag (fst s);
     if ret = 0 then index_walk_loop lv while_flag cb (t, snd s) else Some (0, t, snd s)
   }"

end
