(* ===== verification/Ofs_Space_Manager.thy ===== *)
theory Ofs_Space_Manager imports Ofs_Btree_Ops
begin

unbundle bit_operations_syntax

text \<open>
  The space managers of \<^verbatim>\<open>object_system/ofs_space_manager.c\<close>. A space manager keeps the
  free extents in the index of its object. The container has two: \<open>sm\<close> hands out blocks to
  the objects, and its own index takes its blocks from the base manager \<open>bsm\<close>, whose index
  takes its blocks from the single reserved block \<open>base_blk\<close>. The environment of each index is
  the state one level down:

    the base index lives in \<^typ>\<open>core\<close>,
    the space index in \<open>core space_manager\<close>,
    the other objects in \<open>core space_manager space_manager\<close>.
\<close>

section \<open>Free extents in an index\<close>

abbreviation u32_of_u64 :: "u64 \<Rightarrow> u32" where "u32_of_u64 \<equiv> ucast"

text \<open>Read the extent at the current entry; \<open>len\<close> is cut to 32 bits.\<close>

definition cur_extent :: "'e levels \<Rightarrow> 'e object \<Rightarrow> (u64 \<times> u64) option" where
  "cur_extent lv t = do {
     e \<leftarrow> cur_ie lv t;
     addr \<leftarrow> os_bstr_to_u64 (ie_key e);
     len \<leftarrow> os_bstr_to_u64 (ie_value e);
     Some (addr, ucast (u32_of_u64 len))
   }"

definition insert_extent :: "'e levels \<Rightarrow> u64 \<Rightarrow> u64 \<Rightarrow> 'e object \<Rightarrow> (int \<times> 'e object) option" where
  "insert_extent lv addr len t =
     index_insert_key_nolock lv (Some (os_u64_to_bstr addr)) (os_u64_to_bstr len) t"

text \<open>The search: the extent to take from is at the current entry when the status is 0. The new
  start is that of the extent when the search misses. \<^term>\<open>start_blk\<close> is returned last.\<close>

definition find_extent :: "'e levels \<Rightarrow> u64 \<Rightarrow> u32 \<Rightarrow> 'e object \<Rightarrow> (int \<times> u64 \<times> 'e object) option" where
  "find_extent lv start_blk blk_cnt t = do {
     (ret, t) \<leftarrow> index_search_key_nolock lv (Some (os_u64_to_bstr start_blk)) (os_u64_to_bstr (ucast blk_cnt)) t;
     if ret < 0 then
       if ret \<noteq> - INDEX_ERR_KEY_NOT_FOUND then Some (ret, start_blk, t)
       else do {
         e \<leftarrow> cur_ie lv t;
         (ret, t) \<leftarrow> (if has_flag e INDEX_ENTRY_END then walk_tree lv INDEX_GET_FIRST t else Some (0, t));
         if ret \<noteq> 0 then
           Some (if ret \<noteq> - INDEX_ERR_ROOT then ret else - INDEX_ERR_NO_FREE_BLOCKS, start_blk, t)
         else do {
           (addr, _) \<leftarrow> cur_extent lv t;
           Some (0, addr, t)
         }
       }
     else Some (0, start_blk, t)
   }"

text \<open>The status is the number of blocks; the second component is \<^verbatim>\<open>*real_start_blk\<close>,
  0 where it is not set.\<close>

definition alloc_space :: "'e levels \<Rightarrow> u64 \<Rightarrow> u32 \<Rightarrow> 'e object \<Rightarrow> (int \<times> u64 \<times> 'e object) option" where
  "alloc_space lv start_blk blk_cnt t = do {
     (ret, start_blk, t) \<leftarrow> find_extent lv start_blk blk_cnt t;
     if ret \<noteq> 0 then Some (ret, 0, t)
     else do {
       (addr, len) \<leftarrow> cur_extent lv t;
       let end = addr + len;
       (ret, t) \<leftarrow> tree_remove_ie lv t;
       if ret < 0 then Some (ret, 0, t)
       else if start_blk \<le> addr then do {
         let start_blk = addr;
         let end_blk = start_blk + ucast blk_cnt;
         if end_blk < end then do {
           (ret, t) \<leftarrow> insert_extent lv end_blk (end - end_blk) t;
           if ret < 0 then Some (ret, addr, t)
           else Some (sint (u32_of_u64 (end_blk - addr)), addr, t)
         }
         else Some (sint (u32_of_u64 len), addr, t)
       }
       else do {
         let end_blk = start_blk + ucast blk_cnt;
         (ret, t) \<leftarrow> insert_extent lv addr (start_blk - addr) t;
         if ret < 0 then Some (ret, start_blk, t)
         else if end_blk < end then do {
           (ret, t) \<leftarrow> insert_extent lv end_blk (end - end_blk) t;
           if ret < 0 then Some (ret, start_blk, t)
           else Some (sint blk_cnt, start_blk, t)
         }
         else Some (sint (u32_of_u64 (end - start_blk)), start_blk, t)
       }
     }
   }"

definition free_space :: "'e levels \<Rightarrow> u64 \<Rightarrow> u32 \<Rightarrow> 'e object \<Rightarrow> (int \<times> 'e object) option" where
  "free_space lv start_blk blk_cnt t = insert_extent lv start_blk (ucast blk_cnt) t"

section \<open>The managers\<close>

record 'e space_manager =
  sm_obj :: "'e object"
  sm_first_free :: u64
  sm_total_free :: u64

definition ofs_init_sm :: "'e object \<Rightarrow> u64 \<Rightarrow> u64 \<Rightarrow> 'e space_manager" where
  "ofs_init_sm obj first_free_block total_free_blocks =
     \<lparr>sm_obj = obj, sm_first_free = first_free_block, sm_total_free = total_free_blocks\<rparr>"

definition ofs_init_free_space ::
  "'e levels \<Rightarrow> u64 \<Rightarrow> u64 \<Rightarrow> 'e space_manager \<Rightarrow> (int \<times> 'e space_manager) option" where
  "ofs_init_free_space lv start_blk blk_cnt sm = do {
     (ret, t) \<leftarrow> insert_extent lv start_blk blk_cnt (sm_obj sm);
     Some (ret, sm\<lparr>sm_obj := t\<rparr>)
   }"

definition sm_alloc_space ::
  "'e levels \<Rightarrow> u32 \<Rightarrow> 'e space_manager \<Rightarrow> (int \<times> u64 \<times> 'e space_manager) option" where
  "sm_alloc_space lv blk_cnt sm =
     (if sm_total_free sm = 0 then Some (- INDEX_ERR_NO_FREE_BLOCKS, 0, sm)
      else do {
        (ret, real, t) \<leftarrow> alloc_space lv (sm_first_free sm) blk_cnt (sm_obj sm);
        let sm = sm\<lparr>sm_obj := t\<rparr>;
        if ret = - INDEX_ERR_NO_FREE_BLOCKS then Some (ret, real, sm\<lparr>sm_first_free := 0, sm_total_free := 0\<rparr>)
        else if ret < 0 then Some (ret, real, sm)
        else
          let sm = sm\<lparr>sm_first_free := real + word_of_int ret\<rparr>;
              sm = (if sm_total_free sm < word_of_int ret then sm
                    else sm\<lparr>sm_total_free := sm_total_free sm - word_of_int ret\<rparr>)
          in Some (ret, real, sm)
      })"

definition sm_free_space ::
  "'e levels \<Rightarrow> u64 \<Rightarrow> u32 \<Rightarrow> 'e space_manager \<Rightarrow> (int \<times> 'e space_manager) option" where
  "sm_free_space lv start_blk blk_cnt sm = do {
     (ret, t) \<leftarrow> free_space lv start_blk blk_cnt (sm_obj sm);
     let sm = sm\<lparr>sm_obj := t\<rparr>;
     Some (ret, if ret \<ge> 0 then sm\<lparr>sm_total_free := sm_total_free sm + ucast blk_cnt\<rparr> else sm)
   }"

section \<open>The levels\<close>

text \<open>The base index: its block is the reserved one.\<close>

definition base_alloc :: "core \<Rightarrow> (int \<times> u64 \<times> core) option" where
  "base_alloc co = Some (1, co_base_blk co, co\<lparr>co_base_blk := 0\<rparr>)"

definition base_free :: "u64 \<Rightarrow> core \<Rightarrow> (int \<times> core) option" where
  "base_free start_blk co = Some (0, co\<lparr>co_base_blk := start_blk\<rparr>)"

definition base_level :: "core levels" where
  "base_level = \<lparr>lv_core = (\<lambda>e. e), lv_core_set = (\<lambda>c e. c), lv_alloc = base_alloc, lv_free = base_free\<rparr>"

text \<open>The level above \<open>lv\<close>, with the blocks of a space manager whose index lives in \<open>lv\<close>.\<close>

definition sm_core :: "'e levels \<Rightarrow> 'e space_manager \<Rightarrow> core" where
  "sm_core lv sm = core_of lv (sm_obj sm)"

definition sm_core_set :: "'e levels \<Rightarrow> core \<Rightarrow> 'e space_manager \<Rightarrow> 'e space_manager" where
  "sm_core_set lv c sm = sm\<lparr>sm_obj := core_set lv c (sm_obj sm)\<rparr>"

definition space_level :: "core space_manager levels" where
  "space_level = \<lparr>lv_core = sm_core base_level, lv_core_set = sm_core_set base_level,
     lv_alloc = sm_alloc_space base_level 1, lv_free = (\<lambda>vbn. sm_free_space base_level vbn 1)\<rparr>"

type_synonym spaces = "core space_manager space_manager"

abbreviation bsm_of :: "spaces \<Rightarrow> core space_manager" where
  "bsm_of sm \<equiv> t_env (sm_obj sm)"

definition set_bsm :: "core space_manager \<Rightarrow> spaces \<Rightarrow> spaces" where
  "set_bsm b sm = sm\<lparr>sm_obj := (sm_obj sm)\<lparr>t_env := b\<rparr>\<rparr>"

definition spaces_core :: "spaces \<Rightarrow> core" where
  "spaces_core sm = sm_core space_level sm"

definition spaces_core_set :: "core \<Rightarrow> spaces \<Rightarrow> spaces" where
  "spaces_core_set c sm = sm_core_set space_level c sm"

abbreviation (input) MAX_BLK_NUM :: u64 where "MAX_BLK_NUM \<equiv> 10"
abbreviation (input) MIN_BLK_NUM :: u64 where "MIN_BLK_NUM \<equiv> 3"

partial_function (option) reserve_loop :: "spaces \<Rightarrow> (int \<times> spaces) option" where
  [code]: "reserve_loop sm =
     (if sm_total_free (bsm_of sm) \<le> MIN_BLK_NUM then do {
        let blk_cnt = u32_of_u64 (MAX_BLK_NUM - sm_total_free (bsm_of sm));
        (ret, real, sm) \<leftarrow> sm_alloc_space space_level blk_cnt sm;
        if ret < 0 then Some (ret, sm)
        else do {
          (ret, b) \<leftarrow> sm_free_space base_level real (word_of_int ret) (bsm_of sm);
          let sm = set_bsm b sm;
          if ret < 0 then Some (ret, sm) else reserve_loop sm
        }
      }
      else Some (0, sm))"

definition reserve_base_space :: "spaces \<Rightarrow> (int \<times> spaces) option" where
  "reserve_base_space sm = do {
     (ret, sm) \<leftarrow>
       (if co_base_blk (spaces_core sm) = 0 then do {
          (ret, real, sm) \<leftarrow> sm_alloc_space space_level 1 sm;
          Some (ret, if ret < 0 then sm else spaces_core_set ((spaces_core sm)\<lparr>co_base_blk := real\<rparr>) sm)
        }
        else Some (0, sm));
     if ret < 0 then Some (ret, sm) else reserve_loop sm
   }"

text \<open>\<^verbatim>\<open>ofs_alloc_space\<close> and \<^verbatim>\<open>ofs_free_space\<close> choose the manager by the object.\<close>

definition ofs_alloc_space :: "u64 \<Rightarrow> u32 \<Rightarrow> spaces \<Rightarrow> (int \<times> u64 \<times> spaces) option" where
  "ofs_alloc_space oid blk_cnt sm =
     (if oid = t_objid (sm_obj (bsm_of sm)) then
        let co = spaces_core sm in
        Some (sint blk_cnt, co_base_blk co, spaces_core_set (co\<lparr>co_base_blk := 0\<rparr>) sm)
      else if oid = t_objid (sm_obj sm) then do {
        (ret, real, b) \<leftarrow> sm_alloc_space base_level blk_cnt (bsm_of sm);
        Some (ret, real, set_bsm b sm)
      }
      else do {
        (ret, sm) \<leftarrow> reserve_base_space sm;
        if ret < 0 then Some (ret, 0, sm) else sm_alloc_space space_level blk_cnt sm
      })"

definition ofs_free_space :: "u64 \<Rightarrow> u64 \<Rightarrow> u32 \<Rightarrow> spaces \<Rightarrow> (int \<times> spaces) option" where
  "ofs_free_space oid start_blk blk_cnt sm =
     (if oid = t_objid (sm_obj (bsm_of sm)) then
        Some (0, spaces_core_set ((spaces_core sm)\<lparr>co_base_blk := start_blk\<rparr>) sm)
      else if oid = t_objid (sm_obj sm) then do {
        (ret, b) \<leftarrow> sm_free_space base_level start_blk blk_cnt (bsm_of sm);
        Some (ret, set_bsm b sm)
      }
      else sm_free_space space_level start_blk blk_cnt sm)"

text \<open>The level of an object with the identifier \<open>oid\<close>.\<close>

definition object_level :: "u64 \<Rightarrow> spaces levels" where
  "object_level oid = \<lparr>lv_core = spaces_core, lv_core_set = spaces_core_set,
     lv_alloc = ofs_alloc_space oid 1, lv_free = (\<lambda>vbn. ofs_free_space oid vbn 1)\<rparr>"

end
