(* ===== verification/Ofs_Object.thy ===== *)
theory Ofs_Object imports Ofs_Space_Manager
begin

unbundle bit_operations_syntax

text \<open>
  Creating, opening and closing one object, \<^verbatim>\<open>object_system/ofs_object_manager.c\<close>, at any
  level. The value of type \<open>'e object\<close> is the object's info with its first handle; the list of
  open objects and the further handles belong to the container. The root cache, which the code
  embeds in \<^verbatim>\<open>object_info_t\<close>, has an address of its own.
\<close>

abbreviation (input) BASE_OBJ_ID :: u64 where "BASE_OBJ_ID \<equiv> 0"
abbreviation (input) SPACE_OBJ_ID :: u64 where "SPACE_OBJ_ID \<equiv> 1"
abbreviation (input) OBJID_OBJ_ID :: u64 where "OBJID_OBJ_ID \<equiv> 2"
abbreviation (input) RESERVED_OBJ_ID :: u64 where "RESERVED_OBJ_ID \<equiv> 128"
abbreviation (input) OBJ_NAME_MAX_SIZE :: nat where "OBJ_NAME_MAX_SIZE \<equiv> 256"

section \<open>Strings\<close>

definition strncpy :: "u8 list \<Rightarrow> u8 list \<Rightarrow> nat \<Rightarrow> u8 list" where
  "strncpy dst src n = take n (takeWhile (\<lambda>c. c \<noteq> 0) src @ replicate n 0) @ drop n dst"

fun dec_digits :: "nat \<Rightarrow> u8 list" where
  "dec_digits n = (if n < 10 then [word_of_nat (48 + n)] else dec_digits (n div 10) @ [word_of_nat (48 + n mod 10)])"

text \<open>\<^verbatim>\<open>"OBJ%lld"\<close>\<close>

definition obj_name :: "u64 \<Rightarrow> u8 list" where
  "obj_name objid = [79, 66, 74] @
     (if sint objid < 0 then 45 # dec_digits (nat (- sint objid)) else dec_digits (nat (sint objid)))"

section \<open>Object infos\<close>

definition compare_object2 :: "u64 \<Rightarrow> u64 \<Rightarrow> int" where
  "compare_object2 objid other = (if objid > other then 1 else if objid = other then 0 else -1)"

text \<open>The zeroed info and handle of an object.\<close>

definition get_object_info :: "'e levels \<Rightarrow> u64 \<Rightarrow> 'e \<Rightarrow> int \<times> 'e object" where
  "get_object_info lv objid env =
     (let t = \<lparr>t_objid = objid, t_attr_flags = 0, t_root = 0, t_inode_cache = 0, t_inode_no = 0,
            t_name = replicate OBJ_NAME_MAX_SIZE 0, t_caches = [], t_max_depth = 0, t_depth = 0,
            t_cache_stack = (\<lambda>_. 0), t_position_stack = (\<lambda>_. 0), t_cache = 0, t_position = 0, t_ie = 0,
            t_env = env\<rparr>;
          (ok, co) = malloc (core_of lv t);
          t = core_set lv co t
      in (if ok then 0 else - INDEX_ERR_ALLOCATE_MEMORY, t))"

definition put_object_info :: "'e levels \<Rightarrow> 'e object \<Rightarrow> 'e option" where
  "put_object_info lv t = do {
     (_, t) \<leftarrow> release_obj_all_cache lv t;
     Some (t_env (core_set lv (drop_cache (t_root t) (core_of lv t)) t))
   }"

definition init_attr :: "'e levels \<Rightarrow> u64 \<Rightarrow> 'e object \<Rightarrow> 'e object option" where
  "init_attr lv inode_no t = do {
     c \<leftarrow> cache_at lv t (t_inode_cache t);
     case c_blk c of
       Obje i \<Rightarrow>
         let co = core_of lv t;
             r = co_next co;
             co = put_cache r \<lparr>c_vbn = inode_no, c_state = EMPTY, c_blk = InodeOf (t_inode_cache t)\<rparr> co
         in Some (core_set lv (co\<lparr>co_next := Suc r\<rparr>) (t\<lparr>t_root := r, t_attr_flags := ar_flags (in_attr i)\<rparr>))
     | _ \<Rightarrow> None
   }"

definition init_inode :: "u64 \<Rightarrow> u16 \<Rightarrow> inode_record" where
  "init_inode objid flags =
     (let name = take (OBJ_NAME_MAX_SIZE - 1) (obj_name objid) in
      \<lparr>in_alloc_size = INODE_SIZE, in_real_size = INODE_SIZE, in_first_attr_off = INODE_HEAD_SIZE,
       in_objid = objid, in_base_objid = 0, in_mode = 0, in_uid = 0, in_gid = 0, in_size = 0, in_links = 0,
       in_ctime = 0, in_atime = 0, in_mtime = 0, in_snapshot_no = 0, in_name_size = word_of_nat (length name),
       in_name = name @ replicate (OBJ_NAME_MAX_SIZE - length name) 0,
       in_attr = \<lparr>ar_record_size = word_of_nat INODE_RESERVED_SIZE, ar_flags = flags, ar_attr_size = 0,
         ar_content = (if flags AND FLAG_TABLE \<noteq> 0 then Some (init_ib INDEX_BLOCK_SMALL ATTR_RECORD_CONTENT_SIZE)
                       else None)\<rparr>\<rparr>)"

section \<open>Handles\<close>

text \<open>The position of a handle in the tree.\<close>

record hnd =
  h_max_depth :: nat
  h_depth :: nat
  h_cache_stack :: "nat \<Rightarrow> nat"
  h_position_stack :: "nat \<Rightarrow> nat"
  h_cache :: nat
  h_position :: nat
  h_ie :: nat

definition new_hnd :: hnd where
  "new_hnd = \<lparr>h_max_depth = 0, h_depth = 0, h_cache_stack = (\<lambda>_. 0), h_position_stack = (\<lambda>_. 0),
     h_cache = 0, h_position = 0, h_ie = 0\<rparr>"

definition hnd_of :: "'e object \<Rightarrow> hnd" where
  "hnd_of t = \<lparr>h_max_depth = t_max_depth t, h_depth = t_depth t, h_cache_stack = t_cache_stack t,
     h_position_stack = t_position_stack t, h_cache = t_cache t, h_position = t_position t, h_ie = t_ie t\<rparr>"

definition use_hnd :: "hnd \<Rightarrow> 'e object \<Rightarrow> 'e object" where
  "use_hnd h t = t\<lparr>t_max_depth := h_max_depth h, t_depth := h_depth h, t_cache_stack := h_cache_stack h,
     t_position_stack := h_position_stack h, t_cache := h_cache h, t_position := h_position h, t_ie := h_ie h\<rparr>"

text \<open>\<^verbatim>\<open>get_object_handle\<close> allocates a handle that stands nowhere.\<close>

definition get_object_handle :: "'e levels \<Rightarrow> 'e object \<Rightarrow> int \<times> 'e object" where
  "get_object_handle lv t =
     (let (ok, co) = malloc (core_of lv t); t = core_set lv co t in
      if ok then (0, use_hnd new_hnd t) else (- INDEX_ERR_ALLOCATE_MEMORY, t))"

section \<open>Creating and opening\<close>

text \<open>The result is the object, or the environment when there is none.\<close>

definition create_object_at_inode ::
  "'e levels \<Rightarrow> u64 \<Rightarrow> u64 \<Rightarrow> u16 \<Rightarrow> 'e \<Rightarrow> (int \<times> ('e + 'e object)) option" where
  "create_object_at_inode lv objid inode_no flags env =
     (let (ret, t) = get_object_info lv objid env in
      if ret < 0 then Some (ret, Inl (t_env t))
      else do {
        (p, t) \<leftarrow> alloc_obj_cache lv inode_no t;
        if p = 0 then do {
          env \<leftarrow> put_object_info lv t;
          Some (- INDEX_ERR_ALLOCATE_MEMORY, Inl env)
        }
        else do {
          let t = t\<lparr>t_inode_cache := p, t_inode_no := inode_no\<rparr>;
          c \<leftarrow> cache_at lv t p;
          let inode = init_inode objid flags;
          if c_blk c = NoBuf then None
          else do {
            let t = cache_set lv p (c\<lparr>c_blk := Obje inode\<rparr>) t;
            let t = t\<lparr>t_name := strncpy (t_name t) (in_name inode) (unat (in_name_size inode))\<rparr>;
            t \<leftarrow> init_attr lv inode_no t;
            t \<leftarrow> set_state lv p DIRTY t;
            t \<leftarrow> set_state lv (t_root t) DIRTY t;
            let (ret, t) = get_object_handle lv t;
            if ret < 0 then do {
              env \<leftarrow> put_object_info lv t;
              Some (ret, Inl env)
            }
            else Some (0, Inr t)
          }
        }
      })"

definition create_object :: "'e levels \<Rightarrow> u64 \<Rightarrow> u16 \<Rightarrow> 'e \<Rightarrow> (int \<times> ('e + 'e object)) option" where
  "create_object lv objid flags env = do {
     (ret, inode_no, env) \<leftarrow> lv_alloc lv env;
     if ret < 0 then Some (ret, Inl env)
     else do {
       (ret, r) \<leftarrow> create_object_at_inode lv objid inode_no flags env;
       case r of
         Inl env \<Rightarrow> do {
           (_, env) \<leftarrow> lv_free lv inode_no env;
           Some (ret, Inl env)
         }
       | Inr t \<Rightarrow> Some (0, Inr t)
     }
   }"

definition recover_obj_inode :: "'e levels \<Rightarrow> u64 \<Rightarrow> 'e object \<Rightarrow> (int \<times> 'e object) option" where
  "recover_obj_inode lv inode_no t = do {
     (ret, p, t) \<leftarrow> index_block_read2 lv inode_no INODE_MAGIC t;
     if ret < 0 then Some (ret, t)
     else do {
       c \<leftarrow> cache_at lv t p;
       case c_blk c of
         Obje i \<Rightarrow> do {
           let t = t\<lparr>t_inode_cache := p, t_inode_no := inode_no,
                     t_name := strncpy (t_name t) (in_name i) (unat (in_name_size i))\<rparr>;
           t \<leftarrow> init_attr lv inode_no t;
           t \<leftarrow> set_state lv p CLEAN t;
           Some (0, t)
         }
       | _ \<Rightarrow> None
     }
   }"

definition open_object :: "'e levels \<Rightarrow> u64 \<Rightarrow> u64 \<Rightarrow> 'e \<Rightarrow> (int \<times> ('e + 'e object)) option" where
  "open_object lv objid inode_no env =
     (let (ret, t) = get_object_info lv objid env in
      if ret < 0 then Some (ret, Inl (t_env t))
      else do {
        (ret, t) \<leftarrow> recover_obj_inode lv inode_no t;
        if ret < 0 then do {
          env \<leftarrow> put_object_info lv t;
          Some (ret, Inl env)
        }
        else do {
          let (ret, t) = get_object_handle lv t;
          if ret < 0 then do {
            env \<leftarrow> put_object_info lv t;
            Some (ret, Inl env)
          }
          else Some (0, Inr t)
        }
      })"

text \<open>The new name is copied over the old one without its terminator.\<close>

definition ofs_set_object_name :: "'e levels \<Rightarrow> u8 list \<Rightarrow> 'e object \<Rightarrow> (int \<times> 'e object) option" where
  "ofs_set_object_name lv name t = do {
     let name_size = length (takeWhile (\<lambda>c. c \<noteq> 0) name);
     if name_size \<ge> OBJ_NAME_MAX_SIZE then Some (- INDEX_ERR_PARAMETER, t)
     else do {
       let t = t\<lparr>t_name := strncpy (t_name t) name name_size\<rparr>;
       c \<leftarrow> cache_at lv t (t_inode_cache t);
       case c_blk c of
         Obje i \<Rightarrow>
           let i = i\<lparr>in_name := strncpy (in_name i) name name_size, in_name_size := word_of_nat name_size\<rparr>
           in Some (0, cache_set lv (t_inode_cache t) (c\<lparr>c_blk := Obje i, c_state := DIRTY\<rparr>) t)
       | _ \<Rightarrow> None
     }
   }"

section \<open>Closing\<close>

text \<open>The first part of \<^verbatim>\<open>validate_obj_inode\<close>: the block the inode moved to, if it
  did. Where it is recorded depends on the object.\<close>

definition move_inode :: "'e levels \<Rightarrow> 'e object \<Rightarrow> (u64 option \<times> 'e object) option" where
  "move_inode lv t = do {
     root \<leftarrow> cache_at lv t (t_root t);
     if \<not> CACHE_DIRTY root then Some (None, t)
     else do {
       t \<leftarrow> set_state lv (t_inode_cache t) DIRTY t;
       c \<leftarrow> cache_at lv t (t_inode_cache t);
       let new_vbn = c_vbn root;
       if new_vbn = c_vbn c then Some (None, t)
       else do {
         t \<leftarrow> change_obj_cache_vbn lv (t_inode_cache t) new_vbn t;
         Some (Some new_vbn, t\<lparr>t_inode_no := new_vbn\<rparr>)
       }
     }
   }"

end
