(* ===== verification/Ofs_Container.thy ===== *)
theory Ofs_Container imports Ofs_Object
begin

unbundle bit_operations_syntax

text \<open>
  Containers and the objects open in them: \<^verbatim>\<open>object_system/ofs_container_manager.c\<close> and
  the functions of \<^verbatim>\<open>ofs_object_manager.c\<close> and \<^verbatim>\<open>ofs_metadata_cache.c\<close>
  that take a container. Every open object, user or system, has a count of references and its
  handles; the infos of the system objects are in the space managers and \<open>ct_id\<close>.
\<close>

section \<open>The super block\<close>

record super_block =
  sb_blk_id :: nat
  sb_alloc_size :: nat
  sb_real_size :: nat
  sb_seq_no :: u16
  sb_block_size_shift :: u32
  sb_block_size :: u32
  sb_sectors_per_block :: u32
  sb_total_blocks :: u64
  sb_objid_id :: u64
  sb_objid_inode_no :: u64
  sb_space_id :: u64
  sb_space_inode_no :: u64
  sb_free_blocks :: u64
  sb_first_free_block :: u64
  sb_base_id :: u64
  sb_base_inode_no :: u64
  sb_base_free_blocks :: u64
  sb_base_first_free_block :: u64
  sb_base_blk :: u64
  sb_flags :: u32
  sb_version :: u16
  sb_magic_num :: u16

abbreviation (input) BYTES_PER_SECTOR_SHIFT :: nat where "BYTES_PER_SECTOR_SHIFT \<equiv> 9"
abbreviation (input) BYTES_PER_BLOCK_SHIFT :: nat where "BYTES_PER_BLOCK_SHIFT \<equiv> 12"
abbreviation (input) BYTES_PER_BLOCK :: u32 where "BYTES_PER_BLOCK \<equiv> 4096"
abbreviation (input) SECTORS_PER_BLOCK :: u32 where "SECTORS_PER_BLOCK \<equiv> 8"
abbreviation (input) MIN_BLOCKS_NUM :: u64 where "MIN_BLOCKS_NUM \<equiv> 10"
abbreviation (input) BLOCK_MAGIC_NUMBER :: u16 where "BLOCK_MAGIC_NUMBER \<equiv> 0xAA55"
abbreviation (input) VERSION :: u16 where "VERSION \<equiv> 100"
abbreviation (input) SUPER_BLOCK_SIZE :: nat where "SUPER_BLOCK_SIZE \<equiv> 512"
abbreviation (input) FLAG_DIRTY :: u32 where "FLAG_DIRTY \<equiv> 1"
abbreviation (input) OFS_NAME_SIZE :: nat where "OFS_NAME_SIZE \<equiv> 256"

definition zero_sb :: super_block where
  "zero_sb = \<lparr>sb_blk_id = 0, sb_alloc_size = 0, sb_real_size = 0, sb_seq_no = 0, sb_block_size_shift = 0,
     sb_block_size = 0, sb_sectors_per_block = 0, sb_total_blocks = 0, sb_objid_id = 0, sb_objid_inode_no = 0,
     sb_space_id = 0, sb_space_inode_no = 0, sb_free_blocks = 0, sb_first_free_block = 0, sb_base_id = 0,
     sb_base_inode_no = 0, sb_base_free_blocks = 0, sb_base_first_free_block = 0, sb_base_blk = 0,
     sb_flags = 0, sb_version = 0, sb_magic_num = 0\<rparr>"

definition init_super_block :: "super_block \<Rightarrow> u64 \<Rightarrow> nat \<Rightarrow> int \<times> super_block" where
  "init_super_block sb total_sectors block_size_shift =
     (if block_size_shift \<noteq> BYTES_PER_BLOCK_SHIFT then (- BLOCK_ERR_PARAMETER, sb)
      else
        let total_blocks = drop_bit (block_size_shift - BYTES_PER_SECTOR_SHIFT) total_sectors in
        if total_blocks < MIN_BLOCKS_NUM then (- BLOCK_ERR_PARAMETER, sb)
        else
          let sb = sb\<lparr>sb_blk_id := SUPER_BLOCK_ID, sb_real_size := SUPER_BLOCK_SIZE,
                sb_alloc_size := SUPER_BLOCK_SIZE, sb_seq_no := 0,
                sb_block_size_shift := word_of_nat block_size_shift,
                sb_block_size := push_bit block_size_shift 1\<rparr>
          in (0, sb\<lparr>sb_sectors_per_block := sb_block_size sb div 512, sb_total_blocks := total_blocks,
                sb_free_blocks := total_blocks - 1, sb_first_free_block := 1, sb_version := VERSION,
                sb_flags := 0, sb_magic_num := BLOCK_MAGIC_NUMBER\<rparr>))"

definition check_super_block :: "super_block \<Rightarrow> int" where
  "check_super_block sb =
     (if sb_magic_num sb \<noteq> BLOCK_MAGIC_NUMBER then - BLOCK_ERR_FORMAT
      else if sb_version sb \<noteq> VERSION then - BLOCK_ERR_FORMAT
      else if sb_sectors_per_block sb \<noteq> SECTORS_PER_BLOCK then - BLOCK_ERR_FORMAT
      else if sb_block_size sb \<noteq> BYTES_PER_BLOCK then - BLOCK_ERR_FORMAT
      else 0)"

section \<open>The container\<close>

text \<open>The space managers that exist: none, the base manager, or both.\<close>

datatype sys = NoSpace core | BaseOnly "core space_manager" | Spaces spaces

definition sys_core :: "sys \<Rightarrow> core" where
  "sys_core s = (case s of NoSpace co \<Rightarrow> co | BaseOnly b \<Rightarrow> sm_core base_level b | Spaces sm \<Rightarrow> spaces_core sm)"

definition sys_core_set :: "core \<Rightarrow> sys \<Rightarrow> sys" where
  "sys_core_set co s = (case s of
     NoSpace _ \<Rightarrow> NoSpace co
   | BaseOnly b \<Rightarrow> BaseOnly (sm_core_set base_level co b)
   | Spaces sm \<Rightarrow> Spaces (spaces_core_set co sm))"

text \<open>
  \<open>ct_sm_free\<close> and \<open>ct_bsm_free\<close> keep the counters of a manager whose object is closed;
  \<open>ct_disk_sb\<close> is the super block on the disk. The blocks on the disk are in the core.
\<close>

record container =
  ct_name :: "u8 list"
  ct_disk_open :: bool
  ct_disk_sb :: "super_block option"
  ct_sb :: super_block
  ct_flags :: u32
  ct_sys :: sys
  ct_sm_free :: "u64 \<times> u64"
  ct_bsm_free :: "u64 \<times> u64"
  ct_id :: "unit object option"
  ct_objs :: "(u64 \<times> unit object) list"
  ct_refs :: "u64 \<Rightarrow> nat"
  ct_hnds :: "u64 \<Rightarrow> (nat \<times> hnd) list"
  ct_ref_cnt :: nat

text \<open>An object without and with its environment.\<close>

definition with_env :: "'e \<Rightarrow> 'a object \<Rightarrow> 'e object" where
  "with_env e t = \<lparr>t_objid = t_objid t, t_attr_flags = t_attr_flags t, t_root = t_root t,
     t_inode_cache = t_inode_cache t, t_inode_no = t_inode_no t, t_name = t_name t, t_caches = t_caches t,
     t_max_depth = t_max_depth t, t_depth = t_depth t, t_cache_stack = t_cache_stack t,
     t_position_stack = t_position_stack t, t_cache = t_cache t, t_position = t_position t, t_ie = t_ie t,
     t_env = e\<rparr>"

text \<open>Run a function of an object of the upper level, given without its environment.\<close>

definition on_object ::
  "(spaces object \<Rightarrow> ('r \<times> spaces object) option) \<Rightarrow> unit object \<Rightarrow> container \<Rightarrow> ('r \<times> unit object \<times> container) option" where
  "on_object f t ct = (case ct_sys ct of
     Spaces sm \<Rightarrow> do {
       (r, t) \<leftarrow> f (with_env sm t);
       Some (r, with_env () t, ct\<lparr>ct_sys := Spaces (t_env t)\<rparr>)
     }
   | _ \<Rightarrow> None)"

abbreviation id_level :: "spaces levels" where
  "id_level \<equiv> object_level OBJID_OBJ_ID"

text \<open>Run an index operation of \<^verbatim>\<open>ct->id_obj\<close>.\<close>

definition on_id ::
  "(spaces object \<Rightarrow> (int \<times> spaces object) option) \<Rightarrow> container \<Rightarrow> (int \<times> container) option" where
  "on_id f ct = (case ct_id ct of
     None \<Rightarrow> None
   | Some t \<Rightarrow> do {
       (r, t, ct) \<leftarrow> on_object f t ct;
       Some (r, ct\<lparr>ct_id := Some t\<rparr>)
     })"

definition add_handle :: "u64 \<Rightarrow> nat \<Rightarrow> hnd \<Rightarrow> container \<Rightarrow> container" where
  "add_handle oid p h ct = ct\<lparr>ct_hnds := (ct_hnds ct)(oid := ct_hnds ct oid @ [(p, h)]),
     ct_refs := (ct_refs ct)(oid := ct_refs ct oid + 1)\<rparr>"

definition put_object_handle :: "u64 \<Rightarrow> nat \<Rightarrow> container \<Rightarrow> container" where
  "put_object_handle oid p ct = ct\<lparr>ct_refs := (ct_refs ct)(oid := ct_refs ct oid - 1),
     ct_hnds := (ct_hnds ct)(oid := filter (\<lambda>x. fst x \<noteq> p) (ct_hnds ct oid))\<rparr>"

text \<open>\<^verbatim>\<open>put_all_object_handle\<close> puts the first handle until the count is 0.\<close>

fun put_all_object_handle :: "u64 \<Rightarrow> nat \<Rightarrow> container \<Rightarrow> container option" where
  "put_all_object_handle oid 0 ct = Some ct"
| "put_all_object_handle oid (Suc n) ct = (case ct_hnds ct oid of
     [] \<Rightarrow> None
   | x # _ \<Rightarrow> put_all_object_handle oid n (put_object_handle oid (fst x) ct))"

text \<open>Addresses of handles come from the same supply as those of caches.\<close>

definition fresh :: "container \<Rightarrow> nat \<times> container" where
  "fresh ct = (let co = sys_core (ct_sys ct) in
     (co_next co, ct\<lparr>ct_sys := sys_core_set (co\<lparr>co_next := Suc (co_next co)\<rparr>) (ct_sys ct)\<rparr>))"

section \<open>Closing an object\<close>

text \<open>\<^verbatim>\<open>validate_obj_inode\<close> records the new place of an inode.\<close>

definition record_inode :: "u64 \<Rightarrow> u64 \<Rightarrow> container \<Rightarrow> container option" where
  "record_inode oid new_vbn ct =
     (let sb = ct_sb ct; dirty = ct\<lparr>ct_flags := ct_flags ct OR FLAG_DIRTY\<rparr> in
      if oid = BASE_OBJ_ID then Some (dirty\<lparr>ct_sb := sb\<lparr>sb_base_inode_no := new_vbn\<rparr>\<rparr>)
      else if oid = SPACE_OBJ_ID then Some (dirty\<lparr>ct_sb := sb\<lparr>sb_space_inode_no := new_vbn\<rparr>\<rparr>)
      else if oid = OBJID_OBJ_ID then Some (dirty\<lparr>ct_sb := sb\<lparr>sb_objid_inode_no := new_vbn\<rparr>\<rparr>)
      else map_option snd (on_id (index_update_value id_level (Some (os_u64_to_bstr oid)) (os_u64_to_bstr new_vbn)) ct))"

text \<open>\<^verbatim>\<open>close_object\<close> for an object of the upper level.\<close>

definition close_object :: "unit object \<Rightarrow> container \<Rightarrow> container option" where
  "close_object t ct = do {
     let oid = t_objid t;
     ct \<leftarrow> put_all_object_handle oid (ct_refs ct oid) ct;
     (moved, t, ct) \<leftarrow> on_object (move_inode (object_level oid)) t ct;
     ct \<leftarrow> (case moved of None \<Rightarrow> Some ct | Some v \<Rightarrow> record_inode oid v ct);
     let ct = ct\<lparr>ct_objs := filter (\<lambda>x. fst x \<noteq> oid) (ct_objs ct)\<rparr>;
     case ct_sys ct of
       Spaces sm \<Rightarrow> do {
         sm \<leftarrow> put_object_info (object_level oid) (with_env sm t);
         Some (ct\<lparr>ct_sys := Spaces sm\<rparr>)
       }
     | _ \<Rightarrow> None
   }"

text \<open>\<^verbatim>\<open>ofs_destroy_sm\<close> for the two managers, from the upper to the lower; nothing when
  there is no manager.\<close>

definition ofs_destroy_sm :: "container \<Rightarrow> container option" where
  "ofs_destroy_sm ct = (case ct_sys ct of
     Spaces sm \<Rightarrow> do {
       let oid = t_objid (sm_obj sm);
       ct \<leftarrow> put_all_object_handle oid (ct_refs ct oid) ct;
       (moved, t) \<leftarrow> move_inode space_level (sm_obj sm);
       ct \<leftarrow> (case moved of None \<Rightarrow> Some ct | Some v \<Rightarrow> record_inode oid v ct);
       b \<leftarrow> put_object_info space_level t;
       Some (ct\<lparr>ct_sys := BaseOnly b, ct_sm_free := (sm_first_free sm, sm_total_free sm)\<rparr>)
     }
   | _ \<Rightarrow> Some ct)"

definition ofs_destroy_bsm :: "container \<Rightarrow> container option" where
  "ofs_destroy_bsm ct = (case ct_sys ct of
     BaseOnly b \<Rightarrow> do {
       let oid = t_objid (sm_obj b);
       ct \<leftarrow> put_all_object_handle oid (ct_refs ct oid) ct;
       (moved, t) \<leftarrow> move_inode base_level (sm_obj b);
       ct \<leftarrow> (case moved of None \<Rightarrow> Some ct | Some v \<Rightarrow> record_inode oid v ct);
       co \<leftarrow> put_object_info base_level t;
       Some (ct\<lparr>ct_sys := NoSpace co, ct_bsm_free := (sm_first_free b, sm_total_free b)\<rparr>)
     }
   | _ \<Rightarrow> Some ct)"

section \<open>Flushing\<close>

definition sm_counts :: "container \<Rightarrow> u64 \<times> u64" where
  "sm_counts ct = (case ct_sys ct of Spaces sm \<Rightarrow> (sm_first_free sm, sm_total_free sm) | _ \<Rightarrow> ct_sm_free ct)"

definition bsm_counts :: "container \<Rightarrow> u64 \<times> u64" where
  "bsm_counts ct = (case ct_sys ct of
     Spaces sm \<Rightarrow> (sm_first_free (bsm_of sm), sm_total_free (bsm_of sm))
   | BaseOnly b \<Rightarrow> (sm_first_free b, sm_total_free b)
   | _ \<Rightarrow> ct_bsm_free ct)"

text \<open>The services of the disk, which may fail: creating and opening the file, laying out and
  writing the super block, writing a block.\<close>

record io =
  io_create :: "u8 list \<Rightarrow> int"
  io_open :: "u8 list \<Rightarrow> int"
  io_init_sb :: int
  io_write_sb :: int
  io_wr_fails :: "u64 \<Rightarrow> bool"

definition ofs_init_super_block :: "io \<Rightarrow> container \<Rightarrow> int \<times> container" where
  "ofs_init_super_block io ct =
     (if io_init_sb io < 0 then (io_init_sb io, ct) else (io_init_sb io, ct\<lparr>ct_disk_sb := Some (ct_sb ct)\<rparr>))"

definition ofs_update_super_block :: "io \<Rightarrow> container \<Rightarrow> int \<times> container" where
  "ofs_update_super_block io ct =
     (if io_write_sb io < 0 then (io_write_sb io, ct) else (io_write_sb io, ct\<lparr>ct_disk_sb := Some (ct_sb ct)\<rparr>))"

definition ofs_read_super_block :: "container \<Rightarrow> int \<times> container" where
  "ofs_read_super_block ct = (case ct_disk_sb ct of
     None \<Rightarrow> (- FILE_BLOCK_ERR_INVALID_OBJECT, ct) | Some sb \<Rightarrow> (0, ct\<lparr>ct_sb := sb\<rparr>))"

definition flush_fs_cache :: "io \<Rightarrow> container \<Rightarrow> (int \<times> container) option" where
  "flush_fs_cache io ct = do {
     (_, co) \<leftarrow> flush_metadata (io_wr_fails io) (sys_core (ct_sys ct));
     let ct = ct\<lparr>ct_sys := sys_core_set co (ct_sys ct)\<rparr>;
     if ct_flags ct AND FLAG_DIRTY = 0 then Some (0, ct)
     else
       let ct = ct\<lparr>ct_sb := (ct_sb ct)\<lparr>sb_free_blocks := snd (sm_counts ct),
             sb_first_free_block := fst (sm_counts ct), sb_base_free_blocks := snd (bsm_counts ct),
             sb_base_first_free_block := fst (bsm_counts ct), sb_base_blk := co_base_blk co\<rparr>\<rparr>;
           (_, ct) = ofs_update_super_block io ct
       in Some (0, ct\<lparr>ct_flags := ct_flags ct AND NOT FLAG_DIRTY\<rparr>)
   }"

section \<open>Creating and opening the system objects\<close>

abbreviation (input) CR_EXTENT_FLAGS :: u16 where "CR_EXTENT_FLAGS \<equiv> 0xC044"
abbreviation (input) CR_U64_FLAGS :: u16 where "CR_U64_FLAGS \<equiv> 0xC033"

definition BASE_OBJ_NAME :: "u8 list" where "BASE_OBJ_NAME = [36, 66, 65, 83, 69]"
definition SPACE_OBJ_NAME :: "u8 list" where "SPACE_OBJ_NAME = [36, 83, 80, 65, 67, 69]"
definition OBJID_OBJ_NAME :: "u8 list" where "OBJID_OBJ_NAME = [36, 79, 66, 74, 73, 68]"

definition hold :: "'e object \<Rightarrow> container \<Rightarrow> container" where
  "hold t ct = (let (p, ct) = fresh ct in add_handle (t_objid t) p (hnd_of t) ct)"

definition create_base_object :: "container \<Rightarrow> (int \<times> container) option" where
  "create_base_object ct = (case ct_sys ct of
     NoSpace co \<Rightarrow> do {
       let co = co\<lparr>co_base_blk := 0\<rparr>;
       (ret, r) \<leftarrow> create_object_at_inode base_level BASE_OBJ_ID 1 CR_EXTENT_FLAGS co;
       case r of
         Inl co \<Rightarrow> Some (ret, ct\<lparr>ct_sys := NoSpace co\<rparr>)
       | Inr t \<Rightarrow> do {
           (_, t) \<leftarrow> ofs_set_object_name base_level BASE_OBJ_NAME t;
           let ct = ct\<lparr>ct_sb := (ct_sb ct)\<lparr>sb_base_inode_no := t_inode_no t, sb_base_id := t_objid t\<rparr>,
                      ct_sys := BaseOnly (ofs_init_sm t 0 0)\<rparr>;
           Some (0, hold t ct)
         }
     }
   | _ \<Rightarrow> None)"

definition create_space_object :: "container \<Rightarrow> (int \<times> container) option" where
  "create_space_object ct = (case ct_sys ct of
     BaseOnly b \<Rightarrow> do {
       (ret, r) \<leftarrow> create_object_at_inode space_level SPACE_OBJ_ID 2 CR_EXTENT_FLAGS b;
       case r of
         Inl b \<Rightarrow> Some (ret, ct\<lparr>ct_sys := BaseOnly b\<rparr>)
       | Inr t \<Rightarrow> do {
           (_, t) \<leftarrow> ofs_set_object_name space_level SPACE_OBJ_NAME t;
           let sb = (ct_sb ct)\<lparr>sb_space_inode_no := t_inode_no t, sb_space_id := t_objid t\<rparr>;
           let sb = sb\<lparr>sb_first_free_block := sb_first_free_block sb + 2, sb_free_blocks := sb_free_blocks sb - 2\<rparr>;
           let sm = ofs_init_sm t (sb_first_free_block sb) (sb_free_blocks sb);
           (ret, sm) \<leftarrow> ofs_init_free_space space_level (sb_first_free_block sb) (sb_free_blocks sb) sm;
           Some (ret, hold t (ct\<lparr>ct_sb := sb, ct_sys := Spaces sm\<rparr>))
         }
     }
   | _ \<Rightarrow> None)"

definition create_objid_object :: "container \<Rightarrow> (int \<times> container) option" where
  "create_objid_object ct = (case ct_sys ct of
     Spaces sm \<Rightarrow> do {
       (ret, r) \<leftarrow> create_object id_level OBJID_OBJ_ID CR_U64_FLAGS sm;
       case r of
         Inl sm \<Rightarrow> Some (ret, ct\<lparr>ct_sys := Spaces sm\<rparr>)
       | Inr t \<Rightarrow> do {
           (_, t) \<leftarrow> ofs_set_object_name id_level OBJID_OBJ_NAME t;
           let ct = ct\<lparr>ct_sb := (ct_sb ct)\<lparr>sb_objid_inode_no := t_inode_no t, sb_objid_id := t_objid t\<rparr>,
                      ct_sys := Spaces (t_env t), ct_id := Some (with_env () t)\<rparr>;
           Some (0, hold t (ct\<lparr>ct_flags := ct_flags ct OR FLAG_DIRTY\<rparr>))
         }
     }
   | _ \<Rightarrow> None)"

definition create_system_objects :: "container \<Rightarrow> (int \<times> container) option" where
  "create_system_objects ct = do {
     (ret, ct) \<leftarrow> create_base_object ct;
     if ret < 0 then Some (ret, ct)
     else do {
       (ret, ct) \<leftarrow> create_space_object ct;
       if ret < 0 then Some (ret, ct) else create_objid_object ct
     }
   }"

definition open_system_objects :: "container \<Rightarrow> (int \<times> container) option" where
  "open_system_objects ct = (case ct_sys ct of
     NoSpace co \<Rightarrow> do {
       let sb = ct_sb ct;
       let co = co\<lparr>co_base_blk := sb_base_blk sb\<rparr>;
       (ret, r) \<leftarrow> open_object base_level (sb_base_id sb) (sb_base_inode_no sb) co;
       case r of
         Inl co \<Rightarrow> Some (ret, ct\<lparr>ct_sys := NoSpace co\<rparr>)
       | Inr t \<Rightarrow> do {
           let b = ofs_init_sm t (sb_base_first_free_block sb) (sb_base_free_blocks sb);
           let ct = hold t (ct\<lparr>ct_sys := BaseOnly b\<rparr>);
           let b = (case ct_sys ct of BaseOnly b \<Rightarrow> b | _ \<Rightarrow> b);
           (ret, r) \<leftarrow> open_object space_level (sb_space_id sb) (sb_space_inode_no sb) b;
           case r of
             Inl b \<Rightarrow> Some (ret, ct\<lparr>ct_sys := BaseOnly b\<rparr>)
           | Inr t \<Rightarrow> do {
               let sm = ofs_init_sm t (sb_first_free_block sb) (sb_free_blocks sb);
               let ct = hold t (ct\<lparr>ct_sys := Spaces sm\<rparr>);
               let sm = (case ct_sys ct of Spaces sm \<Rightarrow> sm | _ \<Rightarrow> sm);
               (ret, r) \<leftarrow> open_object (object_level (sb_objid_id sb)) (sb_objid_id sb) (sb_objid_inode_no sb) sm;
               case r of
                 Inl sm \<Rightarrow> Some (ret, ct\<lparr>ct_sys := Spaces sm\<rparr>)
               | Inr t \<Rightarrow> Some (0, hold t (ct\<lparr>ct_sys := Spaces (t_env t), ct_id := Some (with_env () t)\<rparr>))
             }
         }
     }
   | _ \<Rightarrow> None)"

end
