(* ===== verification/Ofs_Api.thy ===== *)
theory Ofs_Api imports Ofs_Container
begin

unbundle bit_operations_syntax

text \<open>
  The functions a user of the system calls: objects of a container
  (\<^verbatim>\<open>object_system/ofs_object_manager.c\<close>) and containers
  (\<^verbatim>\<open>ofs_container_manager.c\<close>). An object handle is the identifier of the object and
  the address of the handle; a container handle is an address.
\<close>

section \<open>Objects\<close>

abbreviation (input) INVALID_OBJID :: u64 where "INVALID_OBJID \<equiv> - 1"

text \<open>The identifiers of the infos in \<^verbatim>\<open>obj_info_list\<close>.\<close>

definition open_infos :: "container \<Rightarrow> u64 set" where
  "open_infos ct = fst ` set (ct_objs ct) \<union> (case ct_id ct of None \<Rightarrow> {} | Some t \<Rightarrow> {t_objid t}) \<union>
     (case ct_sys ct of NoSpace _ \<Rightarrow> {} | BaseOnly b \<Rightarrow> {t_objid (sm_obj b)}
      | Spaces sm \<Rightarrow> {t_objid (sm_obj sm), t_objid (sm_obj (bsm_of sm))})"

definition ofs_get_object_info :: "container \<Rightarrow> u64 \<Rightarrow> u64 option" where
  "ofs_get_object_info ct objid = (if objid \<in> open_infos ct then Some objid else None)"

definition ofs_get_object_handle :: "container \<Rightarrow> u64 \<Rightarrow> (u64 \<times> nat) option" where
  "ofs_get_object_handle ct objid = (case ofs_get_object_info ct objid of
     None \<Rightarrow> None
   | Some oid \<Rightarrow> if ct_refs ct oid = 0 then None
       else (case ct_hnds ct oid of [] \<Rightarrow> None | x # _ \<Rightarrow> Some (oid, fst x)))"

text \<open>Register an object that was created or opened, with its first handle.\<close>

definition register :: "spaces object \<Rightarrow> container \<Rightarrow> nat \<times> container" where
  "register t ct =
     (let ct = ct\<lparr>ct_sys := Spaces (t_env t), ct_objs := insort_key fst (t_objid t, with_env () t) (ct_objs ct)\<rparr>;
          (p, ct) = fresh ct
      in (p, add_handle (t_objid t) p (hnd_of t) ct))"

definition ofs_create_object_nolock ::
  "u64 \<Rightarrow> u16 \<Rightarrow> container \<Rightarrow> (int \<times> (u64 \<times> nat) option \<times> container) option" where
  "ofs_create_object_nolock objid flags ct =
     (if objid < RESERVED_OBJ_ID then Some (- INDEX_ERR_OBJ_ID_INVALID, None, ct)
      else if objid \<in> open_infos ct then Some (- INDEX_ERR_OBJ_EXIST, None, ct)
      else do {
        (ret, ct) \<leftarrow> on_id (search_key_internal id_level (u64_bytes objid) []) ct;
        if 0 \<le> ret then Some (- INDEX_ERR_OBJ_EXIST, None, ct)
        else if ret \<noteq> - INDEX_ERR_KEY_NOT_FOUND then Some (ret, None, ct)
        else case ct_sys ct of
          Spaces sm \<Rightarrow> do {
            (ret, r) \<leftarrow> create_object (object_level objid) objid flags sm;
            case r of
              Inl sm \<Rightarrow> Some (ret, None, ct\<lparr>ct_sys := Spaces sm\<rparr>)
            | Inr t \<Rightarrow> do {
                let (p, ct) = register t ct;
                (ret, ct) \<leftarrow> on_id (index_insert_key_nolock id_level (Some (os_u64_to_bstr objid))
                  (os_u64_to_bstr (t_inode_no t))) ct;
                if ret < 0 then case ct_sys ct of
                  Spaces sm \<Rightarrow> do {
                    (_, sm) \<leftarrow> ofs_free_space objid (t_inode_no t) 1 sm;
                    ct \<leftarrow> close_object (with_env () t) (ct\<lparr>ct_sys := Spaces sm\<rparr>);
                    Some (ret, None, ct)
                  }
                | _ \<Rightarrow> None
                else Some (0, Some (objid, p), ct)
              }
          }
        | _ \<Rightarrow> None
      })"

text \<open>The misplaced parenthesis of the test makes it refuse only when
  \<^verbatim>\<open>objid || (obj == NULL)\<close>, which is 0 or 1, is \<^verbatim>\<open>INVALID_OBJID\<close>: never.\<close>

definition ofs_create_object ::
  "u64 \<Rightarrow> u16 \<Rightarrow> container option \<Rightarrow> (int \<times> (u64 \<times> nat) option \<times> container option) option" where
  "ofs_create_object objid flags ct = (case ct of
     None \<Rightarrow> Some (- INDEX_ERR_PARAMETER, None, None)
   | Some ct \<Rightarrow>
       if (if objid \<noteq> 0 then 1 else 0 :: u64) = INVALID_OBJID then Some (- INDEX_ERR_PARAMETER, None, Some ct)
       else do {
         (ret, obj, ct) \<leftarrow> ofs_create_object_nolock objid flags ct;
         Some (ret, obj, Some ct)
       })"

text \<open>A further handle of an object that is open.\<close>

definition more_handle :: "u64 \<Rightarrow> container \<Rightarrow> int \<times> (u64 \<times> nat) option \<times> container" where
  "more_handle objid ct =
     (let (ok, co) = malloc (sys_core (ct_sys ct));
          ct = ct\<lparr>ct_sys := sys_core_set co (ct_sys ct)\<rparr>
      in if \<not> ok then (- INDEX_ERR_ALLOCATE_MEMORY, None, ct)
         else
           let (p, ct) = fresh ct
           in (0, Some (objid, p), add_handle objid p new_hnd ct))"

definition ofs_open_object_nolock ::
  "u64 \<Rightarrow> container \<Rightarrow> (int \<times> (u64 \<times> nat) option \<times> container) option" where
  "ofs_open_object_nolock objid ct =
     (if objid \<in> open_infos ct then Some (more_handle objid ct)
      else do {
        (ret, ct) \<leftarrow> on_id (search_key_internal id_level (u64_bytes objid) []) ct;
        if ret < 0 then Some (ret, None, ct)
        else case (ct_id ct, ct_sys ct) of
          (Some id_obj, Spaces sm) \<Rightarrow> do {
            e \<leftarrow> cur_ie id_level (with_env sm id_obj);
            inode_no \<leftarrow> os_bstr_to_u64 (ie_value e);
            (ret, r) \<leftarrow> open_object (object_level objid) objid inode_no sm;
            case r of
              Inl sm \<Rightarrow> Some (ret, None, ct\<lparr>ct_sys := Spaces sm\<rparr>)
            | Inr t \<Rightarrow> (let (p, ct) = register t ct in Some (0, Some (objid, p), ct))
          }
        | _ \<Rightarrow> None
      })"

definition ofs_open_object ::
  "u64 \<Rightarrow> container option \<Rightarrow> (int \<times> (u64 \<times> nat) option \<times> container option) option" where
  "ofs_open_object objid ct = (case ct of
     None \<Rightarrow> Some (- INDEX_ERR_PARAMETER, None, None)
   | Some ct \<Rightarrow> do {
       (ret, obj, ct) \<leftarrow> ofs_open_object_nolock objid ct;
       Some (ret, obj, Some ct)
     })"

text \<open>The last handle closes the object. A handle that is not open is a dangling pointer, and
  closing a system object leaves the container with one.\<close>

definition ofs_close_object_nolock :: "(u64 \<times> nat) option \<Rightarrow> container \<Rightarrow> (int \<times> container) option" where
  "ofs_close_object_nolock obj ct = (case obj of
     None \<Rightarrow> Some (- INDEX_ERR_PARAMETER, ct)
   | Some (oid, p) \<Rightarrow>
       if oid \<notin> open_infos ct \<or> p \<notin> fst ` set (ct_hnds ct oid) then None
       else if ct_refs ct oid = 0 then Some (- INDEX_ERR_MANY_TIMES_PUT, ct)
       else
         let ct = put_object_handle oid p ct in
         if ct_refs ct oid \<noteq> 0 then Some (0, ct)
         else case map_of (ct_objs ct) oid of
           None \<Rightarrow> None
         | Some t \<Rightarrow> do {
             ct \<leftarrow> close_object t ct;
             Some (0, ct)
           })"

definition ofs_close_object :: "(u64 \<times> nat) option \<Rightarrow> container \<Rightarrow> (int \<times> container) option" where
  "ofs_close_object obj ct = (case obj of
     None \<Rightarrow> Some (- INDEX_ERR_PARAMETER, ct)
   | Some _ \<Rightarrow> ofs_close_object_nolock obj ct)"

text \<open>An index operation through a handle.\<close>

definition with_handle ::
  "u64 \<times> nat \<Rightarrow> (spaces object \<Rightarrow> (int \<times> spaces object) option) \<Rightarrow> container \<Rightarrow> (int \<times> container) option" where
  "with_handle obj f ct = (case (map_of (ct_objs ct) (fst obj), map_of (ct_hnds ct (fst obj)) (snd obj)) of
     (Some t, Some h) \<Rightarrow> do {
       (ret, t, ct) \<leftarrow> on_object f (use_hnd h t) ct;
       Some (ret, ct\<lparr>ct_objs := map (\<lambda>x. if fst x = fst obj then (fst x, t) else x) (ct_objs ct),
         ct_hnds := (ct_hnds ct)(fst obj := map (\<lambda>x. if fst x = snd obj then (fst x, hnd_of t) else x) (ct_hnds ct (fst obj)))\<rparr>)
     }
   | _ \<Rightarrow> None)"

definition get_objid :: "container \<Rightarrow> u64" where
  "get_objid ct = 1"

definition ofs_delete_object :: "container \<Rightarrow> u64 \<Rightarrow> int" where
  "ofs_delete_object ct objid = 0"

section \<open>Closing a container\<close>

text \<open>Close the user objects in order; the system objects stay.\<close>

fun close_user_objects :: "u64 list \<Rightarrow> container \<Rightarrow> container option" where
  "close_user_objects [] ct = Some ct"
| "close_user_objects (oid # oids) ct =
     (if oid < RESERVED_OBJ_ID then close_user_objects oids ct
      else case map_of (ct_objs ct) oid of
        None \<Rightarrow> None
      | Some t \<Rightarrow> do {
          ct \<leftarrow> close_object t ct;
          close_user_objects oids ct
        })"

definition close_container :: "io \<Rightarrow> container \<Rightarrow> container option" where
  "close_container io ct = do {
     ct \<leftarrow> close_user_objects (map fst (ct_objs ct)) ct;
     ct \<leftarrow> (case ct_id ct of
       None \<Rightarrow> Some ct
     | Some t \<Rightarrow> do { ct \<leftarrow> close_object t ct; Some (ct\<lparr>ct_id := None\<rparr>) });
     ct \<leftarrow> ofs_destroy_sm ct;
     ct \<leftarrow> ofs_destroy_bsm ct;
     (_, ct) \<leftarrow> flush_fs_cache io ct;
     (_, co) \<leftarrow> release_fs_all_cache (sys_core (ct_sys ct));
     Some (ct\<lparr>ct_sys := sys_core_set co (ct_sys ct), ct_disk_open := False\<rparr>)
   }"

section \<open>All containers\<close>

text \<open>A file holds a super block and blocks; the containers that are open have an address.\<close>

type_synonym disk_file = "super_block option \<times> (u64 \<Rightarrow> blk option)"

record world =
  w_cts :: "(nat \<times> container) list option"
  w_next :: nat
  w_disks :: "u8 list \<Rightarrow> disk_file option"

definition ofs_init_system :: "bool \<Rightarrow> world \<Rightarrow> int \<times> world" where
  "ofs_init_system ok w = (case w_cts w of
     Some _ \<Rightarrow> (0, w)
   | None \<Rightarrow> if ok then (0, w\<lparr>w_cts := Some []\<rparr>) else (- INDEX_ERR_ALLOCATE_MEMORY, w))"

definition compare_container2 :: "u8 list \<Rightarrow> container \<Rightarrow> int" where
  "compare_container2 name ct = os_collate_ansi_string name (ct_name ct)"

definition find_container :: "u8 list \<Rightarrow> (nat \<times> container) list \<Rightarrow> (nat \<times> container) option" where
  "find_container name cts = List.find (\<lambda>x. compare_container2 name (snd x) = 0) cts"

definition new_core :: "disk_file \<Rightarrow> core" where
  "new_core f = \<lparr>co_heap = (\<lambda>_. None), co_next = 1, co_oom = (\<lambda>_. False), co_mallocs = 0, co_meta = [],
     co_disk = snd f, co_block_size = 4096, co_base_blk = 0\<rparr>"

definition no_container :: "u8 list \<Rightarrow> container" where
  "no_container name = \<lparr>ct_name = name, ct_disk_open = False, ct_disk_sb = None, ct_sb = zero_sb, ct_flags = 0,
     ct_sys = NoSpace (new_core (None, \<lambda>_. None)), ct_sm_free = (0, 0), ct_bsm_free = (0, 0), ct_id = None,
     ct_objs = [], ct_refs = (\<lambda>_. 0), ct_hnds = (\<lambda>_. []), ct_ref_cnt = 1\<rparr>"

text \<open>Put a container into the list in the order of the names; the address is new.\<close>

definition add_container :: "container \<Rightarrow> world \<Rightarrow> (nat \<times> world) option" where
  "add_container ct w = (case w_cts w of
     None \<Rightarrow> None
   | Some cts \<Rightarrow>
       let p = w_next w; less = (\<lambda>x. compare_container2 (ct_name ct) (snd x) > 0) in
       Some (p, w\<lparr>w_cts := Some (filter less cts @ (p, ct) # filter (\<lambda>x. \<not> less x) cts), w_next := Suc p\<rparr>))"

definition put_container :: "nat \<Rightarrow> container \<Rightarrow> world \<Rightarrow> world" where
  "put_container p ct w = w\<lparr>w_cts := map_option (map (\<lambda>x. if fst x = p then (p, ct) else x)) (w_cts w)\<rparr>"

text \<open>Close the container and take it off the list; the file keeps what was written.\<close>

definition drop_container :: "io \<Rightarrow> nat \<Rightarrow> container \<Rightarrow> world \<Rightarrow> world option" where
  "drop_container io p ct w = do {
     let was_open = ct_disk_open ct;
     ct \<leftarrow> close_container io ct;
     let file = (ct_disk_sb ct, co_disk (sys_core (ct_sys ct)));
     Some (w\<lparr>w_cts := map_option (filter (\<lambda>x. fst x \<noteq> p)) (w_cts w),
       w_disks := (if was_open then (w_disks w)(ct_name ct := Some file) else w_disks w)\<rparr>)
   }"

definition fail_container :: "io \<Rightarrow> nat \<Rightarrow> container \<Rightarrow> int \<Rightarrow> world \<Rightarrow> (int \<times> nat option \<times> world) option" where
  "fail_container io p ct ret w = do { w \<leftarrow> drop_container io p ct w; Some (ret, None, w) }"

definition open_disk :: "disk_file \<Rightarrow> container \<Rightarrow> container" where
  "open_disk f ct = ct\<lparr>ct_disk_open := True, ct_disk_sb := fst f, ct_sys := NoSpace (new_core f)\<rparr>"

definition ofs_create_container_nolock ::
  "io \<Rightarrow> bool \<Rightarrow> u8 list option \<Rightarrow> u64 \<Rightarrow> world \<Rightarrow> (int \<times> nat option \<times> world) option" where
  "ofs_create_container_nolock io ok name_opt total_sectors w = (case name_opt of
     None \<Rightarrow> Some (- INDEX_ERR_PARAMETER, None, w)
   | Some name \<Rightarrow>
       if total_sectors = 0 \<or> length name \<ge> OFS_NAME_SIZE then Some (- INDEX_ERR_PARAMETER, None, w)
       else do {
         cts \<leftarrow> w_cts w;
         case find_container name cts of
           Some (p, _) \<Rightarrow> Some (- INDEX_ERR_IS_OPENED, Some p, w)
         | None \<Rightarrow>
             if \<not> ok then Some (- INDEX_ERR_ALLOCATE_MEMORY, None, w)
             else do {
               let ct = no_container name;
               (p, w) \<leftarrow> add_container ct w;
               let (ret, sb) = init_super_block (ct_sb ct) total_sectors BYTES_PER_BLOCK_SHIFT;
               if ret < 0 then fail_container io p ct ret w
               else do {
                 let ct = ct\<lparr>ct_sb := sb\<rparr>;
                 if io_create io name < 0 then fail_container io p ct (io_create io name) w
                 else do {
                   let ct = open_disk (None, \<lambda>_. None) ct;
                   let (ret, ct) = ofs_init_super_block io ct;
                   if ret < 0 then fail_container io p ct ret w
                   else do {
                     (ret, ct) \<leftarrow> create_system_objects ct;
                     if ret < 0 then fail_container io p ct ret w
                     else do {
                       let (ret, ct) = ofs_update_super_block io ct;
                       if ret < 0 then fail_container io p ct ret w
                       else Some (0, Some p, put_container p ct w)
                     }
                   }
                 }
               }
             }
       })"

text \<open>A file that is not there is opened with an error.\<close>

definition ofs_open_nolock ::
  "io \<Rightarrow> bool \<Rightarrow> u8 list option \<Rightarrow> world \<Rightarrow> (int \<times> nat option \<times> world) option" where
  "ofs_open_nolock io ok name_opt w = (case name_opt of
     None \<Rightarrow> Some (- INDEX_ERR_PARAMETER, None, w)
   | Some name \<Rightarrow>
       if length name \<ge> OFS_NAME_SIZE then Some (- INDEX_ERR_PARAMETER, None, w)
       else do {
         cts \<leftarrow> w_cts w;
         case find_container name cts of
           Some (p, ct) \<Rightarrow> Some (0, Some p, put_container p (ct\<lparr>ct_ref_cnt := ct_ref_cnt ct + 1\<rparr>) w)
         | None \<Rightarrow>
             if \<not> ok then Some (- INDEX_ERR_ALLOCATE_MEMORY, None, w)
             else do {
               let ct = no_container name;
               (p, w) \<leftarrow> add_container ct w;
               if io_open io name < 0 then fail_container io p ct (io_open io name) w
               else case w_disks w name of
                 None \<Rightarrow> None
               | Some f \<Rightarrow> do {
                   let ct = open_disk f ct;
                   let ct = ct\<lparr>ct_sb := (ct_sb ct)\<lparr>sb_sectors_per_block := SECTORS_PER_BLOCK, sb_block_size := BYTES_PER_BLOCK\<rparr>\<rparr>;
                   let (ret, ct) = ofs_read_super_block ct;
                   if ret < 0 then fail_container io p ct ret w
                   else if check_super_block (ct_sb ct) < 0 then fail_container io p ct (check_super_block (ct_sb ct)) w
                   else do {
                     (ret, ct) \<leftarrow> open_system_objects ct;
                     if ret < 0 then fail_container io p ct ret w
                     else Some (0, Some p, put_container p ct w)
                   }
                 }
             }
       })"

definition ofs_create_container ::
  "io \<Rightarrow> bool \<Rightarrow> u8 list option \<Rightarrow> u64 \<Rightarrow> world \<Rightarrow> (int \<times> nat option \<times> world) option" where
  "ofs_create_container io ok name_opt total_sectors w = ofs_create_container_nolock io ok name_opt total_sectors w"

definition ofs_open_container :: "io \<Rightarrow> bool \<Rightarrow> u8 list option \<Rightarrow> world \<Rightarrow> (int \<times> nat option \<times> world) option" where
  "ofs_open_container io ok name_opt w = ofs_open_nolock io ok name_opt w"

text \<open>The last user closes it.\<close>

definition ofs_close_nolock :: "io \<Rightarrow> nat option \<Rightarrow> world \<Rightarrow> (int \<times> world) option" where
  "ofs_close_nolock io h w = (case h of
     None \<Rightarrow> Some (- INDEX_ERR_PARAMETER, w)
   | Some p \<Rightarrow> do {
       cts \<leftarrow> w_cts w;
       ct \<leftarrow> map_of cts p;
       if ct_ref_cnt ct = 0 then Some (0, w)
       else
         let ct = ct\<lparr>ct_ref_cnt := ct_ref_cnt ct - 1\<rparr> in
         if ct_ref_cnt ct \<noteq> 0 then Some (0, put_container p ct w)
         else do {
           w \<leftarrow> drop_container io p ct w;
           Some (0, w)
         }
     })"

definition ofs_close_container :: "io \<Rightarrow> nat option \<Rightarrow> world \<Rightarrow> (int \<times> world) option" where
  "ofs_close_container io h w = ofs_close_nolock io h w"

definition ofs_get_container_handle :: "u8 list option \<Rightarrow> world \<Rightarrow> nat option" where
  "ofs_get_container_handle name_opt w = (case (name_opt, w_cts w) of
     (Some name, Some cts) \<Rightarrow> map_option fst (find_container name cts)
   | _ \<Rightarrow> None)"

fun close_containers :: "io \<Rightarrow> (nat \<times> container) list \<Rightarrow> world \<Rightarrow> world option" where
  "close_containers io [] w = Some w"
| "close_containers io (x # xs) w = do { w \<leftarrow> drop_container io (fst x) (snd x) w; close_containers io xs w }"

definition ofs_exit_system :: "io \<Rightarrow> world \<Rightarrow> world option" where
  "ofs_exit_system io w = (case w_cts w of
     None \<Rightarrow> Some w
   | Some cts \<Rightarrow> do {
       w \<leftarrow> close_containers io cts w;
       Some (w\<lparr>w_cts := None\<rparr>)
     })"

fun walk_containers :: "(container \<times> 's \<Rightarrow> int \<times> 's) \<Rightarrow> (nat \<times> container) list \<Rightarrow> 's \<Rightarrow> int \<times> 's" where
  "walk_containers cb [] s = (0, s)"
| "walk_containers cb (x # xs) s =
     (let (ret, s) = cb (snd x, s) in if ret \<noteq> 0 then (ret, s) else walk_containers cb xs s)"

definition ofs_walk_all_opened_container ::
  "(container \<times> 's \<Rightarrow> int \<times> 's) \<Rightarrow> world \<Rightarrow> 's \<Rightarrow> (int \<times> 's) option" where
  "ofs_walk_all_opened_container cb w s = map_option (\<lambda>cts. walk_containers cb cts s) (w_cts w)"

end
