(* ===== verification/Ofs_Index_View.thy ===== *)
theory Ofs_Index_View imports Ofs_Btree_Ops
begin

text \<open>
  What an operation on an index relies on below it: the laws of a level, the well-formedness of the
  caches, and the view of the blocks of the object, which is the same whether a block is in the
  cache or still on the disk. Reading a block changes the caches and keeps the view.
\<close>

section \<open>The interface of a level\<close>

text \<open>The shared state inside an environment can be read and replaced.\<close>

locale level_laws =
  fixes lv :: "'e levels"
  assumes get_set: "lv_core lv (lv_core_set lv c e) = c"
    and set_get: "lv_core_set lv (lv_core lv e) e = e"
    and set_set: "lv_core_set lv c (lv_core_set lv d e) = lv_core_set lv c e"

section \<open>Views\<close>

text \<open>The root is reached through the object, not by its block number. A block that another object
  of the container holds in its cache is not in view.\<close>

definition block_view :: "'e levels \<Rightarrow> 'e object \<Rightarrow> u64 \<Rightarrow> index_block option" where
  "block_view lv t v =
     (if map_option c_vbn (cache_at lv t (t_root t)) = Some v then None
      else case map_of (t_caches t) v of
        Some p \<Rightarrow> get_ib lv t p
      | None \<Rightarrow>
          if v \<in> fst ` set (co_meta (core_of lv t)) then None
          else case co_disk (core_of lv t) v of Some (Indx ib) \<Rightarrow> Some ib | _ \<Rightarrow> None)"

text \<open>The store of caches: addresses below \<open>co_next\<close>, caches registered under their block,
  an inode buffer that exists, and memory for what is to come.\<close>

definition core_ok :: "core \<Rightarrow> bool" where
  "core_ok co \<longleftrightarrow> (\<forall>p. co_heap co p \<noteq> None \<longrightarrow> p < co_next co) \<and>
     (\<forall>p c q. co_heap co p = Some c \<longrightarrow> c_blk c = InodeOf q \<longrightarrow> q < co_next co) \<and>
     (\<forall>n \<in> set (co_meta co). snd n < co_next co) \<and> (\<forall>n \<ge> co_mallocs co. \<not> co_oom co n) \<and> 0 < co_next co"

definition caches_ok :: "'e levels \<Rightarrow> 'e object \<Rightarrow> bool" where
  "caches_ok lv t \<longleftrightarrow> core_ok (core_of lv t) \<and> cache_at lv t (t_root t) \<noteq> None \<and>
     fst ` set (t_caches t) \<subseteq> fst ` set (co_meta (core_of lv t)) \<and>
     (\<forall>n \<in> set (t_caches t). snd n < co_next (core_of lv t) \<and> (\<exists>c. cache_at lv t (snd n) = Some c \<and> c_vbn c = fst n))"

text \<open>The caches that hold the root block: the root cache and the inode it points into. The other
  caches of a store stay as they are, and those of the root keep their block number.\<close>

definition root_caches :: "core \<Rightarrow> nat \<Rightarrow> nat set" where
  "root_caches co r = insert r {q. \<exists>c. co_heap co r = Some c \<and> c_blk c = InodeOf q}"

definition core_kept :: "nat set \<Rightarrow> core \<Rightarrow> core \<Rightarrow> bool" where
  "core_kept ps co co' \<longleftrightarrow> set (co_meta co) \<subseteq> set (co_meta co') \<and>
     (\<forall>q c. co_heap co q = Some c \<longrightarrow>
       (\<exists>c'. co_heap co' q = Some c' \<and> c_vbn c' = c_vbn c \<and> (q \<notin> ps \<longrightarrow> c' = c)))"

abbreviation own :: "'e levels \<Rightarrow> 'e object \<Rightarrow> nat set" where
  "own lv t \<equiv> root_caches (core_of lv t) (t_root t)"

lemma core_kept_refl: "core_kept ps co co"
  by (simp add: core_kept_def)

lemma core_kept_trans:
  assumes "core_kept ps co co'" and "core_kept ps co' co''"
  shows "core_kept ps co co''"
  unfolding core_kept_def
proof (intro conjI allI impI)
  show "set (co_meta co) \<subseteq> set (co_meta co'')" using assms by (auto simp: core_kept_def)
  fix q c assume "co_heap co q = Some c"
  then obtain c' where "co_heap co' q = Some c'" "c_vbn c' = c_vbn c" "q \<notin> ps \<longrightarrow> c' = c"
    using assms(1) unfolding core_kept_def by blast
  then show "\<exists>c''. co_heap co'' q = Some c'' \<and> c_vbn c'' = c_vbn c \<and> (q \<notin> ps \<longrightarrow> c'' = c)"
    using assms(2) unfolding core_kept_def by metis
qed

text \<open>What no operation changes that only works on the caches of the index.\<close>

definition frame :: "'e levels \<Rightarrow> 'e object \<Rightarrow> 'e object \<Rightarrow> bool" where
  "frame lv t t' \<longleftrightarrow> t_root t' = t_root t \<and> t_attr_flags t' = t_attr_flags t \<and> t_objid t' = t_objid t \<and>
     t_inode_cache t' = t_inode_cache t \<and> t_env t' = lv_core_set lv (core_of lv t') (t_env t) \<and>
     co_base_blk (core_of lv t') = co_base_blk (core_of lv t) \<and> co_disk (core_of lv t') = co_disk (core_of lv t) \<and>
     own lv t' = own lv t \<and> core_kept (own lv t) (core_of lv t) (core_of lv t')"

text \<open>A later state of the object that differs in the blocks read and in the position.\<close>

definition extends :: "'e levels \<Rightarrow> 'e object \<Rightarrow> 'e object \<Rightarrow> bool" where
  "extends lv t t' \<longleftrightarrow> caches_ok lv t' \<and> block_view lv t' = block_view lv t \<and>
     (\<forall>q c. cache_at lv t q = Some c \<longrightarrow> cache_at lv t' q = Some c) \<and>
     (\<forall>q ib. get_ib lv t q = Some ib \<longrightarrow> get_ib lv t' q = Some ib) \<and> frame lv t t'"

lemma extendsD:
  assumes "extends lv t t'"
  shows "caches_ok lv t'" and "block_view lv t' = block_view lv t"
    and "cache_at lv t q = Some c \<Longrightarrow> cache_at lv t' q = Some c"
    and "get_ib lv t q = Some ib \<Longrightarrow> get_ib lv t' q = Some ib"
    and "t_root t' = t_root t" and "t_attr_flags t' = t_attr_flags t" and "t_objid t' = t_objid t"
    and "frame lv t t'"
  using assms by (auto simp: extends_def frame_def)

text \<open>The environment and the registered caches alone determine the view.\<close>

lemma same_env:
  assumes "t_env t' = t_env t" and "t_root t' = t_root t" and "t_caches t' = t_caches t"
  shows "cache_at lv t' = cache_at lv t" and "get_ib lv t' = get_ib lv t" and "core_of lv t' = core_of lv t"
    and "block_view lv t' = block_view lv t" and "caches_ok lv t' = caches_ok lv t"
proof -
  show co: "core_of lv t' = core_of lv t" using assms by (simp add: core_of_def)
  show ca: "cache_at lv t' = cache_at lv t" by (simp add: cache_at_def co fun_eq_iff)
  show ib: "get_ib lv t' = get_ib lv t" by (simp add: get_ib_def co ca fun_eq_iff)
  show "block_view lv t' = block_view lv t" by (intro ext) (simp only: block_view_def co ca ib assms)
  show "caches_ok lv t' = caches_ok lv t" by (simp add: caches_ok_def co ca assms)
qed

text \<open>Moving a handle leaves the caches alone.\<close>

lemma move_fields [simp]:
  "get_ib lv (t\<lparr>t_cache := a\<rparr>) = get_ib lv t" "get_ib lv (t\<lparr>t_cache_stack := cs\<rparr>) = get_ib lv t"
  "get_ib lv (t\<lparr>t_position_stack := ps\<rparr>) = get_ib lv t" "get_ib lv (t\<lparr>t_depth := a\<rparr>) = get_ib lv t"
  "get_ib lv (t\<lparr>t_max_depth := a\<rparr>) = get_ib lv t" "get_ib lv (t\<lparr>t_ie := a\<rparr>) = get_ib lv t"
  "get_ib lv (t\<lparr>t_position := a\<rparr>) = get_ib lv t"
  "cache_at lv (t\<lparr>t_cache := a\<rparr>) = cache_at lv t" "cache_at lv (t\<lparr>t_cache_stack := cs\<rparr>) = cache_at lv t"
  "cache_at lv (t\<lparr>t_position_stack := ps\<rparr>) = cache_at lv t" "cache_at lv (t\<lparr>t_depth := a\<rparr>) = cache_at lv t"
  "cache_at lv (t\<lparr>t_max_depth := a\<rparr>) = cache_at lv t" "cache_at lv (t\<lparr>t_ie := a\<rparr>) = cache_at lv t"
  "cache_at lv (t\<lparr>t_position := a\<rparr>) = cache_at lv t"
  by (intro same_env; simp)+

section \<open>Sequences of caches\<close>

lemma map_of_filter_keys: "map_of (filter (\<lambda>n. P (fst n)) ns) w = (if P w then map_of ns w else None)"
  by (induction ns) auto

lemma seq_add_map:
  assumes "v \<notin> fst ` set ns" and "p \<notin> snd ` set ns"
  obtains ms where "seq_add v p ns = Some ms" and "map_of ms = (map_of ns)(v \<mapsto> p)" and "set ms = insert (v, p) (set ns)"
proof
  let ?ms = "filter (\<lambda>n. fst n < v) ns @ (v, p) # filter (\<lambda>n. v < fst n) ns"
  show "seq_add v p ns = Some ?ms" using assms by (simp add: seq_add_def)
  show "map_of ?ms = (map_of ns)(v \<mapsto> p)"
    using assms(1) map_of_filter_keys[of "\<lambda>x. x < v" ns] map_of_filter_keys[of "\<lambda>x. v < x" ns]
    by (auto simp: map_add_def fun_eq_iff split: option.splits)
  have "fst n < v \<or> v < fst n" if "n \<in> set ns" for n
    using that assms(1) by (metis image_eqI neq_iff)
  then show "set ?ms = insert (v, p) (set ns)" by fastforce
qed

section \<open>Reading a block\<close>

context level_laws
begin

lemma frame_trans: "frame lv t u \<Longrightarrow> frame lv u v \<Longrightarrow> frame lv t v"
  using core_kept_trans[of "own lv t" "core_of lv t" "core_of lv u"] by (auto simp: frame_def set_set)

lemma extends_trans: "extends lv t u \<Longrightarrow> extends lv u v \<Longrightarrow> extends lv t v"
  using frame_trans by (auto simp: extends_def)

lemma extends_position:
  assumes "caches_ok lv t" and "t_env t' = t_env t" and "t_root t' = t_root t" and "t_caches t' = t_caches t"
    and "t_attr_flags t' = t_attr_flags t" and "t_objid t' = t_objid t" and "t_inode_cache t' = t_inode_cache t"
  shows "extends lv t t'"
  using assms(1,3,5,6,7) same_env[OF assms(2,3,4), of lv] set_get[of "t_env t"]
  by (simp add: extends_def frame_def core_of_def assms(2) core_kept_refl)

lemma core_of_set [simp]: "core_of lv (core_set lv c t) = c"
  by (simp add: core_of_def core_set_def get_set)

lemma core_set_set [simp]: "core_set lv c (core_set lv d t) = core_set lv c t"
  by (simp add: core_set_def set_set)

lemma core_set_get [simp]: "core_set lv (core_of lv t) t = t"
  by (simp add: core_of_def core_set_def set_get)

lemma core_set_fields [simp]:
  "t_root (core_set lv c t) = t_root t" "t_caches (core_set lv c t) = t_caches t"
  "t_attr_flags (core_set lv c t) = t_attr_flags t" "t_depth (core_set lv c t) = t_depth t"
  "t_cache (core_set lv c t) = t_cache t" "t_ie (core_set lv c t) = t_ie t"
  "t_position (core_set lv c t) = t_position t" "t_cache_stack (core_set lv c t) = t_cache_stack t"
  "t_position_stack (core_set lv c t) = t_position_stack t" "t_max_depth (core_set lv c t) = t_max_depth t"
  "t_objid (core_set lv c t) = t_objid t" "t_inode_cache (core_set lv c t) = t_inode_cache t"
  by (simp_all add: core_set_def)

lemma core_of_caches [simp]: "core_of lv (t\<lparr>t_caches := ns\<rparr>) = core_of lv t"
  by (simp add: core_of_def)

lemma core_set_caches [simp]: "(core_set lv c t)\<lparr>t_caches := ns\<rparr> = core_set lv c (t\<lparr>t_caches := ns\<rparr>)"
  by (simp add: core_set_def)

text \<open>A new cache: two allocations and the registration.\<close>

lemma alloc_cache_ok:
  assumes c: "core_ok (core_of lv t)" and v: "v \<notin> fst ` set (t_caches t)" "v \<notin> fst ` set (co_meta (core_of lv t))"
    and q: "co_next (core_of lv t) \<notin> snd ` set (t_caches t)"
  defines "p \<equiv> co_next (core_of lv t)"
  obtains ns ms where "alloc_obj_cache lv v t =
      Some (p, core_set lv ((core_of lv t)\<lparr>co_heap := (co_heap (core_of lv t))(p \<mapsto> \<lparr>c_vbn = v, c_state = EMPTY, c_blk = Raw\<rparr>),
        co_next := Suc p, co_mallocs := Suc (Suc (co_mallocs (core_of lv t))), co_meta := ms\<rparr>) (t\<lparr>t_caches := ns\<rparr>))"
    and "map_of ns = (map_of (t_caches t))(v \<mapsto> p)" and "set ns = insert (v, p) (set (t_caches t))"
    and "set ms = insert (v, p) (set (co_meta (core_of lv t)))" and "0 < p"
proof -
  let ?co = "core_of lv t"
  have oom: "\<not> co_oom ?co (co_mallocs ?co)" "\<not> co_oom ?co (Suc (co_mallocs ?co))"
    using c by (simp_all add: core_ok_def)
  have "p \<notin> snd ` set (t_caches t)" using q by (simp add: p_def)
  with v(1) obtain ns where ns: "seq_add v p (t_caches t) = Some ns" "map_of ns = (map_of (t_caches t))(v \<mapsto> p)"
    "set ns = insert (v, p) (set (t_caches t))" by (rule seq_add_map)
  have "p \<notin> snd ` set (co_meta ?co)" using c by (auto simp: core_ok_def p_def)
  with v(2) obtain ms where ms: "seq_add v p (co_meta ?co) = Some ms" "set ms = insert (v, p) (set (co_meta ?co))"
    by (rule seq_add_map)
  have "alloc_obj_cache lv v t =
      Some (p, core_set lv (?co\<lparr>co_heap := (co_heap ?co)(p \<mapsto> \<lparr>c_vbn = v, c_state = EMPTY, c_blk = Raw\<rparr>),
        co_next := Suc p, co_mallocs := Suc (Suc (co_mallocs ?co)), co_meta := ms\<rparr>) (t\<lparr>t_caches := ns\<rparr>))"
    using oom ns(1) ms(1)
    by (simp add: alloc_obj_cache_def malloc_def insert_obj_cache_def cache_at_def put_cache_def Let_def p_def[symmetric])
      (intro arg_cong2[where f="core_set lv"] core.equality; simp)
  moreover have "0 < p" using c by (simp add: core_ok_def p_def)
  ultimately show thesis using ns ms that by blast
qed

lemma caches_ok_fresh:
  assumes "caches_ok lv t" and "map_of (t_caches t) v = None"
  shows "core_ok (core_of lv t)" and "v \<notin> fst ` set (t_caches t)" and "co_next (core_of lv t) \<notin> snd ` set (t_caches t)"
  using assms by (auto simp: caches_ok_def map_of_eq_None_iff)

text \<open>A block that is not in the cache is read into a new one.\<close>

lemma index_block_read2_miss:
  assumes ok: "caches_ok lv t" and miss: "map_of (t_caches t) v = None"
    and meta: "v \<notin> fst ` set (co_meta (core_of lv t))" and disk: "co_disk (core_of lv t) v = Some (Indx ib)"
  defines "p \<equiv> co_next (core_of lv t)"
  obtains ns ms where "index_block_read2 lv v INDEX_MAGIC t =
      Some (0, p, core_set lv ((core_of lv t)\<lparr>co_heap := (co_heap (core_of lv t))(p \<mapsto> \<lparr>c_vbn = v, c_state = CLEAN, c_blk = Indx ib\<rparr>),
        co_next := Suc p, co_mallocs := Suc (Suc (co_mallocs (core_of lv t))), co_meta := ms\<rparr>) (t\<lparr>t_caches := ns\<rparr>))"
    and "map_of ns = (map_of (t_caches t))(v \<mapsto> p)" and "set ns = insert (v, p) (set (t_caches t))"
    and "set ms = insert (v, p) (set (co_meta (core_of lv t)))"
proof -
  note f = caches_ok_fresh[OF ok miss]
  obtain ns ms where a: "alloc_obj_cache lv v t =
      Some (p, core_set lv ((core_of lv t)\<lparr>co_heap := (co_heap (core_of lv t))(p \<mapsto> \<lparr>c_vbn = v, c_state = EMPTY, c_blk = Raw\<rparr>),
        co_next := Suc p, co_mallocs := Suc (Suc (co_mallocs (core_of lv t))), co_meta := ms\<rparr>) (t\<lparr>t_caches := ns\<rparr>))"
    and n: "map_of ns = (map_of (t_caches t))(v \<mapsto> p)" "set ns = insert (v, p) (set (t_caches t))"
    "set ms = insert (v, p) (set (co_meta (core_of lv t)))" and z: "0 < p"
    by (rule alloc_cache_ok[OF f(1,2) meta f(3), folded p_def])
  have "index_block_read2 lv v INDEX_MAGIC t =
      Some (0, p, core_set lv ((core_of lv t)\<lparr>co_heap := (co_heap (core_of lv t))(p \<mapsto> \<lparr>c_vbn = v, c_state = CLEAN, c_blk = Indx ib\<rparr>),
        co_next := Suc p, co_mallocs := Suc (Suc (co_mallocs (core_of lv t))), co_meta := ms\<rparr>) (t\<lparr>t_caches := ns\<rparr>))"
    using miss disk a z by (simp add: index_block_read2_def cache_at_def cache_set_def put_cache_def read_block_def)
      (intro arg_cong2[where f="core_set lv"] core.equality; simp)
  then show thesis using n that by blast
qed

lemma index_block_read2_view:
  assumes ok: "caches_ok lv t" and v: "block_view lv t v = Some ib"
  obtains p t' where "index_block_read2 lv v INDEX_MAGIC t = Some (0, p, t')" and "extends lv t t'"
    and "get_ib lv t' p = Some ib" and "\<exists>c. cache_at lv t' p = Some c \<and> c_vbn c = v"
    and "t' = core_set lv (core_of lv t') (t\<lparr>t_caches := t_caches t'\<rparr>)"
proof (cases "map_of (t_caches t) v")
  case (Some p)
  have "\<exists>c. cache_at lv t p = Some c \<and> c_vbn c = v"
    using ok map_of_SomeD[OF Some] by (fastforce simp: caches_ok_def)
  moreover have "get_ib lv t p = Some ib" using v Some by (simp add: block_view_def split: if_splits)
  moreover have "extends lv t t" by (rule extends_position) (simp_all add: ok)
  ultimately show thesis using that[of p t] Some by (simp add: index_block_read2_def)
next
  case None
  let ?co = "core_of lv t" and ?p = "co_next (core_of lv t)"
  have root: "map_option c_vbn (cache_at lv t (t_root t)) \<noteq> Some v"
    and meta: "v \<notin> fst ` set (co_meta ?co)" and disk: "co_disk ?co v = Some (Indx ib)"
    using v None by (auto simp: block_view_def split: if_splits option.splits blk.splits)
  obtain ns ms where r: "index_block_read2 lv v INDEX_MAGIC t =
      Some (0, ?p, core_set lv (?co\<lparr>co_heap := (co_heap ?co)(?p \<mapsto> \<lparr>c_vbn = v, c_state = CLEAN, c_blk = Indx ib\<rparr>),
        co_next := Suc ?p, co_mallocs := Suc (Suc (co_mallocs ?co)), co_meta := ms\<rparr>) (t\<lparr>t_caches := ns\<rparr>))"
    and ns: "map_of ns = (map_of (t_caches t))(v \<mapsto> ?p)" "set ns = insert (v, ?p) (set (t_caches t))"
    and ms: "set ms = insert (v, ?p) (set (co_meta ?co))"
    by (rule index_block_read2_miss[OF ok None meta disk])
  define t' where "t' = core_set lv (?co\<lparr>co_heap := (co_heap ?co)(?p \<mapsto> \<lparr>c_vbn = v, c_state = CLEAN, c_blk = Indx ib\<rparr>),
        co_next := Suc ?p, co_mallocs := Suc (Suc (co_mallocs ?co)), co_meta := ms\<rparr>) (t\<lparr>t_caches := ns\<rparr>)"
  have c: "core_ok ?co" using ok by (simp add: caches_ok_def)
  have old: "q \<noteq> ?p" if "cache_at lv t q = Some d" for q d
    using that c by (auto simp: core_ok_def cache_at_def)
  have at: "cache_at lv t' q = (if q = ?p then Some \<lparr>c_vbn = v, c_state = CLEAN, c_blk = Indx ib\<rparr> else cache_at lv t q)" for q
    by (simp add: t'_def cache_at_def)
  have blk: "blk_of (core_of lv t') (c_blk d) = blk_of ?co (c_blk d)" if "cache_at lv t q = Some d" for q d
  proof (cases "c_blk d")
    case (InodeOf r)
    then have "r < ?p" using that c by (auto simp: core_ok_def cache_at_def)
    then show ?thesis using InodeOf by (simp add: blk_of_def t'_def)
  qed (simp_all add: blk_of_def)
  have ib: "get_ib lv t' q = (if q = ?p then Some ib else get_ib lv t q)" for q
    using blk by (cases "cache_at lv t q") (auto simp: get_ib_def at blk_of_def)
  have view: "block_view lv t' = block_view lv t"
  proof
    fix w
    have "cache_at lv t' (t_root t) = cache_at lv t (t_root t)"
      using ok old by (fastforce simp: caches_ok_def at)
    moreover have "get_ib lv t' q = get_ib lv t q" if "map_of (t_caches t) w = Some q" for q
      using map_of_SomeD[OF that] ok by (fastforce simp: ib caches_ok_def)
    moreover have root': "t_root t' = t_root t" and caches': "t_caches t' = ns" and meta': "co_meta (core_of lv t') = ms"
      and disk': "co_disk (core_of lv t') = co_disk ?co" by (simp_all add: t'_def)
    ultimately show "block_view lv t' w = block_view lv t w"
    proof (cases "w = v")
      case True
      then show ?thesis using v root \<open>cache_at lv t' (t_root t) = cache_at lv t (t_root t)\<close>
        by (simp add: block_view_def root' caches' ns(1) ib)
    next
      case False
      then have "w \<in> fst ` set ms \<longleftrightarrow> w \<in> fst ` set (co_meta ?co)" by (simp add: ms)
      then show ?thesis
        using False \<open>cache_at lv t' (t_root t) = cache_at lv t (t_root t)\<close>
          \<open>\<And>q. map_of (t_caches t) w = Some q \<Longrightarrow> get_ib lv t' q = get_ib lv t q\<close>
        by (cases "map_of (t_caches t) w"; cases "map_option c_vbn (cache_at lv t (t_root t)) = Some w")
          (simp_all add: block_view_def root' caches' meta' disk' ns(1) del: map_option_eq_Some)
    qed
  qed
  have "caches_ok lv t'"
    using ok c at by (auto simp: caches_ok_def core_ok_def t'_def ns ms cache_at_def less_Suc_eq) 
  moreover have "q \<noteq> ?p" if "get_ib lv t q = Some b" for q b
    using that old by (auto simp: get_ib_def bind_eq_Some_conv)
  moreover have "frame lv t t'"
  proof -
    have "\<exists>c. co_heap ?co (t_root t) = Some c \<and> t_root t \<noteq> ?p" using ok old by (force simp: caches_ok_def cache_at_def)
    then have "own lv t' = own lv t" by (auto simp: t'_def root_caches_def)
    moreover have "core_kept (own lv t) ?co (core_of lv t')" using c by (auto simp: t'_def core_kept_def core_ok_def ms)
    ultimately show ?thesis unfolding frame_def by (simp add: t'_def) (simp add: core_set_def)
  qed
  ultimately have "extends lv t t'" unfolding extends_def using view old by (auto simp: ib at)
  moreover have "t' = core_set lv (core_of lv t') (t\<lparr>t_caches := t_caches t'\<rparr>)" by (simp add: t'_def)
  ultimately show thesis using that r at ib by (auto simp: t'_def[symmetric])
qed

end

end
