(* ===== verification/Ofs_Index_Spec.thy ===== *)
theory Ofs_Index_Spec imports Ofs_Index_Node
begin

unbundle bit_operations_syntax

text \<open>
  What a well-formed index block is, and what the functions of \<^verbatim>\<open>ofs_btree.c\<close> on one
  block do to the sequence of its entries: inserting, removing, the middle entry and the two halves
  of a split. Positions are byte offsets, so every fact also accounts for the lengths and the
  links to the previous entry.
\<close>

section \<open>Well-formed blocks\<close>

definition key_ie :: "bool \<Rightarrow> index_entry \<Rightarrow> bool" where
  "key_ie large e \<longleftrightarrow> ie_flags e = (if large then INDEX_ENTRY_NODE else INDEX_ENTRY_LEAF) \<and>
     ie_len e = ENTRY_END_SIZE + length (ie_key e) + length (ie_value e) + (if large then VBN_SIZE else 0) \<and>
     ie_key e \<noteq> [] \<and> ie_len e < 2 ^ 16"

definition end_ie :: "bool \<Rightarrow> index_entry \<Rightarrow> bool" where
  "end_ie large e \<longleftrightarrow> ie_flags e = (if large then INDEX_ENTRY_END OR INDEX_ENTRY_NODE else INDEX_ENTRY_END) \<and>
     ie_len e = ENTRY_END_SIZE + (if large then VBN_SIZE else 0) \<and> ie_key e = [] \<and> ie_value e = []"

fun linked_from :: "nat \<Rightarrow> index_entry list \<Rightarrow> bool" where
  "linked_from p [] \<longleftrightarrow> True"
| "linked_from p (e # es) \<longleftrightarrow> ie_prev_len e = p \<and> linked_from (ie_len e) es"

text \<open>The entries after the begin entry; those that hold a key; the end entry.\<close>

definition slots_of :: "index_block \<Rightarrow> index_entry list" where
  "slots_of ib = tl (ib_entries ib)"

definition keys_of :: "index_block \<Rightarrow> index_entry list" where
  "keys_of ib = butlast (slots_of ib)"

definition end_of :: "index_block \<Rightarrow> index_entry" where
  "end_of ib = last (slots_of ib)"

definition nkeys :: "index_block \<Rightarrow> nat" where
  "nkeys ib = length (keys_of ib)"

definition wf_ib :: "index_block \<Rightarrow> bool" where
  "wf_ib ib \<longleftrightarrow> ib_entries ib = begin_ie # keys_of ib @ [end_of ib] \<and>
     (\<forall>e \<in> set (keys_of ib). key_ie (is_large ib) e) \<and> end_ie (is_large ib) (end_of ib) \<and>
     linked_from ENTRY_BEGIN_SIZE (slots_of ib) \<and> ib_first_entry_off ib = INDEX_BLOCK_SIZE \<and>
     ib_real_size ib = BEGIN_ENTRY_OFF + bytes (ib_entries ib) \<and> ib_real_size ib \<le> ib_alloc_size ib"

text \<open>The byte offset of an entry, counted from the first one after the begin entry.\<close>

definition slot_pos :: "index_block \<Rightarrow> nat \<Rightarrow> nat" where
  "slot_pos ib i = INDEX_BLOCK_SIZE + bytes (take i (slots_of ib))"

text \<open>An entry without the links to its neighbours.\<close>

definition ie_data :: "index_entry \<Rightarrow> index_entry" where
  "ie_data e = e\<lparr>ie_prev_len := 0\<rparr>"

lemma wf_ibI:
  assumes "ib_entries ib = begin_ie # ks @ [e]" and "\<forall>k \<in> set ks. key_ie (is_large ib) k"
    and "end_ie (is_large ib) e" and "linked_from ENTRY_BEGIN_SIZE (ks @ [e])"
    and "ib_first_entry_off ib = INDEX_BLOCK_SIZE"
    and "ib_real_size ib = INDEX_BLOCK_SIZE + bytes ks + ie_len e" and "ib_real_size ib \<le> ib_alloc_size ib"
  shows "wf_ib ib" and "keys_of ib = ks" and "end_of ib = e"
proof -
  show k: "keys_of ib = ks" and e: "end_of ib = e"
    using assms(1) by (simp_all add: keys_of_def end_of_def slots_of_def)
  show "wf_ib ib"
    unfolding wf_ib_def k e using assms by (simp add: slots_of_def bytes_def begin_ie_def)
qed

lemma wf_ibD:
  assumes "wf_ib ib"
  shows "ib_entries ib = begin_ie # keys_of ib @ [end_of ib]" and "slots_of ib = keys_of ib @ [end_of ib]"
    and "k \<in> set (keys_of ib) \<Longrightarrow> key_ie (is_large ib) k" and "end_ie (is_large ib) (end_of ib)"
    and "linked_from ENTRY_BEGIN_SIZE (keys_of ib @ [end_of ib])" and "ib_first_entry_off ib = INDEX_BLOCK_SIZE"
    and "ib_real_size ib = INDEX_BLOCK_SIZE + bytes (keys_of ib) + ie_len (end_of ib)"
    and "ib_real_size ib \<le> ib_alloc_size ib"
proof -
  show e: "ib_entries ib = begin_ie # keys_of ib @ [end_of ib]" using assms by (simp add: wf_ib_def)
  show s: "slots_of ib = keys_of ib @ [end_of ib]" by (metis e list.sel(3) slots_of_def)
  have "linked_from ENTRY_BEGIN_SIZE (slots_of ib)" using assms by (simp add: wf_ib_def)
  then show "linked_from ENTRY_BEGIN_SIZE (keys_of ib @ [end_of ib])" by (simp add: s)
  have "ib_real_size ib = BEGIN_ENTRY_OFF + bytes (ib_entries ib)" using assms by (simp add: wf_ib_def)
  then show "ib_real_size ib = INDEX_BLOCK_SIZE + bytes (keys_of ib) + ie_len (end_of ib)"
    by (subst (asm) e) (simp add: bytes_def begin_ie_def)
qed (use assms in \<open>auto simp: wf_ib_def\<close>)

section \<open>Flags and lengths\<close>

named_theorems ie_flag

lemma flag_or: "flag fs (a OR b) \<longleftrightarrow> flag fs a \<or> flag fs b"
  by (simp add: flag_def bit.conj_disj_distrib or_eq_0_iff)

lemma key_ie_flags [ie_flag]:
  assumes "key_ie large e"
  shows "has_flag e INDEX_ENTRY_END \<longleftrightarrow> False" and "has_flag e INDEX_ENTRY_NODE \<longleftrightarrow> large"
    and "has_flag e INDEX_ENTRY_BEGIN \<longleftrightarrow> False" and "has_flag e (INDEX_ENTRY_END OR INDEX_ENTRY_BEGIN) \<longleftrightarrow> False"
    and "has_flag e 6 \<longleftrightarrow> False"
  using assms by (auto simp: key_ie_def has_flag_def)

lemma end_ie_flags [ie_flag]:
  assumes "end_ie large e"
  shows "has_flag e INDEX_ENTRY_END \<longleftrightarrow> True" and "has_flag e INDEX_ENTRY_NODE \<longleftrightarrow> large"
    and "has_flag e (INDEX_ENTRY_END OR INDEX_ENTRY_BEGIN) \<longleftrightarrow> True"
    and "has_flag e 6 \<longleftrightarrow> True"
  using assms by (auto simp: end_ie_def has_flag_def)

lemma key_ie_len: "key_ie large e \<Longrightarrow> ie_len e > ENTRY_END_SIZE + (if large then VBN_SIZE else 0)"
  by (auto simp: key_ie_def)

lemma key_ie_pos: "key_ie large e \<Longrightarrow> 0 < ie_len e"
  using key_ie_len by fastforce

lemma end_ie_pos: "end_ie large e \<Longrightarrow> 0 < ie_len e"
  by (simp add: end_ie_def)

lemma last_ie_len_end: "end_ie (is_large ib) e \<Longrightarrow> last_ie_len ib = ie_len e"
  by (simp add: last_ie_len_def end_ie_def)

lemma bytes_simps [simp]: "bytes [] = 0" "bytes (e # es) = ie_len e + bytes es" "bytes (xs @ ys) = bytes xs + bytes ys"
  by (simp_all add: bytes_def)

lemma bytes_take_Suc: "i < length es \<Longrightarrow> bytes (take (Suc i) es) = bytes (take i es) + ie_len (es ! i)"
  by (simp add: take_Suc_conv_app_nth)

lemma bytes_split: "i < length es \<Longrightarrow> bytes es = bytes (take i es) + ie_len (es ! i) + bytes (drop (Suc i) es)"
  by (metis add.assoc append_take_drop_id bytes_simps(2,3) Cons_nth_drop_Suc)

lemma bytes_insert: "bytes (take j es @ e # drop j es) = bytes es + ie_len e"
proof -
  have "bytes es = bytes (take j es) + bytes (drop j es)" by (metis append_take_drop_id bytes_simps(3))
  then show ?thesis by simp
qed

lemma bytes_data [simp]: "bytes (map ie_data es) = bytes es"
  by (simp add: bytes_def ie_data_def comp_def)

lemma linked_from_append:
  "linked_from p (xs @ ys) \<longleftrightarrow> linked_from p xs \<and> linked_from (if xs = [] then p else ie_len (last xs)) ys"
  by (induction xs arbitrary: p) auto

lemma linked_from_Cons_data: "ie_len e' = ie_len e \<Longrightarrow> linked_from p (e # es) \<Longrightarrow> linked_from (ie_prev_len e') (e' # es)"
  by simp

section \<open>Positions\<close>

lemma ie_at_from_pos:
  assumes "\<forall>e \<in> set es. 0 < ie_len e" and "i < length es"
  shows "ie_at_from o0 es (o0 + bytes (take i es)) = Some i"
  using assms
proof (induction es arbitrary: o0 i)
  case (Cons e es)
  show ?case
  proof (cases i)
    case (Suc j)
    have "ie_at_from (o0 + ie_len e) es (o0 + ie_len e + bytes (take j es)) = Some j"
      using Cons Suc by simp
    then show ?thesis using Cons.prems Suc by (simp add: add.assoc)
  qed simp
qed simp

lemma wf_pos:
  assumes "wf_ib ib"
  shows "\<forall>e \<in> set (ib_entries ib). 0 < ie_len e"
  using key_ie_pos[OF wf_ibD(3)[OF assms]] end_ie_pos[OF wf_ibD(4)[OF assms]]
  by (auto simp: wf_ibD(1)[OF assms] begin_ie_def)

lemma nkeys_length: "wf_ib ib \<Longrightarrow> length (ib_entries ib) = nkeys ib + 2"
  by (simp add: wf_ibD(1) nkeys_def)

lemma ie_at_slot:
  assumes "wf_ib ib" and "i \<le> nkeys ib"
  shows "ie_at (ib_entries ib) (slot_pos ib i) = Some (Suc i)"
proof -
  have "slot_pos ib i = BEGIN_ENTRY_OFF + bytes (take (Suc i) (ib_entries ib))"
    using wf_ibD(1,2)[OF assms(1)] by (simp add: slot_pos_def begin_ie_def)
  then show ?thesis
    unfolding ie_at_def using ie_at_from_pos[OF wf_pos[OF assms(1)], of "Suc i"] nkeys_length assms by simp
qed

lemma ie_at_begin:
  assumes "wf_ib ib"
  shows "ie_at (ib_entries ib) BEGIN_ENTRY_OFF = Some 0"
  by (simp add: ie_at_def wf_ibD(1)[OF assms])

lemma ie_read_slot:
  assumes "wf_ib ib" and "i \<le> nkeys ib"
  shows "ie_read ib (slot_pos ib i) = Some (slots_of ib ! i)"
  using ie_at_slot[OF assms] wf_ibD(1,2)[OF assms(1)] by (simp add: ie_read_def)

lemma slot_key: "wf_ib ib \<Longrightarrow> i < nkeys ib \<Longrightarrow> slots_of ib ! i = keys_of ib ! i"
  by (simp add: wf_ibD(2) nkeys_def nth_append)

lemma slot_end: "wf_ib ib \<Longrightarrow> slots_of ib ! nkeys ib = end_of ib"
  by (simp add: wf_ibD(2) nkeys_def nth_append)

lemma slot_first: "wf_ib ib \<Longrightarrow> ib_first_entry_off ib = slot_pos ib 0"
  by (simp add: wf_ibD(6) slot_pos_def)

lemma slot_next: "wf_ib ib \<Longrightarrow> i < nkeys ib \<Longrightarrow> slot_pos ib i + ie_len (keys_of ib ! i) = slot_pos ib (Suc i)"
  by (simp add: slot_pos_def wf_ibD(2) nkeys_def take_Suc_conv_app_nth nth_append)

lemma slot_last: "wf_ib ib \<Longrightarrow> ib_real_size ib - last_ie_len ib = slot_pos ib (nkeys ib)"
  by (simp add: slot_pos_def wf_ibD(2,7) nkeys_def last_ie_len_end[OF wf_ibD(4)])

lemma slot_less_real: "wf_ib ib \<Longrightarrow> i \<le> nkeys ib \<Longrightarrow> slot_pos ib i < ib_real_size ib"
proof -
  assume w: "wf_ib ib" and i: "i \<le> nkeys ib"
  have "bytes (take i (keys_of ib)) \<le> bytes (keys_of ib)"
    by (metis append_take_drop_id bytes_simps(3) le_add1)
  then show ?thesis using i end_ie_pos[OF wf_ibD(4)[OF w]]
    by (simp add: slot_pos_def wf_ibD(2,7)[OF w] nkeys_def)
qed

lemma slot_mono: "wf_ib ib \<Longrightarrow> i < j \<Longrightarrow> j \<le> nkeys ib \<Longrightarrow> slot_pos ib i < slot_pos ib j"
proof (induction j)
  case (Suc j)
  have "slot_pos ib j < slot_pos ib (Suc j)"
    using slot_next[of ib j] key_ie_pos[OF wf_ibD(3)[of ib "keys_of ib ! j"]] Suc.prems
    by (auto simp: nkeys_def)
  then show ?case using Suc by (cases "i = j") auto
qed simp

lemma slot_inj: "wf_ib ib \<Longrightarrow> i \<le> nkeys ib \<Longrightarrow> j \<le> nkeys ib \<Longrightarrow> slot_pos ib i = slot_pos ib j \<longleftrightarrow> i = j"
  by (metis less_irrefl linorder_neqE_nat slot_mono)

lemma linked_from_prev: "linked_from p es \<Longrightarrow> Suc i < length es \<Longrightarrow> ie_prev_len (es ! Suc i) = ie_len (es ! i)"
proof (induction es arbitrary: p i)
  case (Cons e es)
  then show ?case by (cases i; cases es) auto
qed simp

lemma slot_prev:
  assumes "wf_ib ib" and "i < nkeys ib"
  shows "ie_prev_len (slots_of ib ! Suc i) = ie_len (keys_of ib ! i)"
  using linked_from_prev[OF wf_ibD(5)[OF assms(1)], of i] assms by (simp add: wf_ibD(2) nkeys_def nth_append)

lemma slot_prev_begin: "wf_ib ib \<Longrightarrow> ie_prev_len (slots_of ib ! 0) = ENTRY_BEGIN_SIZE"
  using wf_ibD(5)[of ib] by (cases "keys_of ib") (auto simp: wf_ibD(2))

section \<open>The sequence of entries\<close>

definition wf_slots :: "bool \<Rightarrow> index_entry list \<Rightarrow> bool" where
  "wf_slots large S \<longleftrightarrow> S \<noteq> [] \<and> (\<forall>e \<in> set (butlast S). key_ie large e) \<and> end_ie large (last S) \<and>
     linked_from ENTRY_BEGIN_SIZE S"

lemma wf_ib_slots:
  "wf_ib ib \<longleftrightarrow> ib_entries ib = begin_ie # slots_of ib \<and> wf_slots (is_large ib) (slots_of ib) \<and>
     ib_first_entry_off ib = INDEX_BLOCK_SIZE \<and> ib_real_size ib = INDEX_BLOCK_SIZE + bytes (slots_of ib) \<and>
     ib_real_size ib \<le> ib_alloc_size ib"
proof
  assume w: "wf_ib ib"
  show "ib_entries ib = begin_ie # slots_of ib \<and> wf_slots (is_large ib) (slots_of ib) \<and>
     ib_first_entry_off ib = INDEX_BLOCK_SIZE \<and> ib_real_size ib = INDEX_BLOCK_SIZE + bytes (slots_of ib) \<and>
     ib_real_size ib \<le> ib_alloc_size ib"
    using wf_ibD[OF w] by (simp add: wf_slots_def)
next
  assume a: "ib_entries ib = begin_ie # slots_of ib \<and> wf_slots (is_large ib) (slots_of ib) \<and>
     ib_first_entry_off ib = INDEX_BLOCK_SIZE \<and> ib_real_size ib = INDEX_BLOCK_SIZE + bytes (slots_of ib) \<and>
     ib_real_size ib \<le> ib_alloc_size ib"
  then have "slots_of ib = keys_of ib @ [end_of ib]" by (simp add: wf_slots_def keys_of_def end_of_def)
  then show "wf_ib ib" using a
    by (simp add: wf_ib_def wf_slots_def begin_ie_def keys_of_def[symmetric] end_of_def[symmetric] del: append_butlast_last_id)
qed

lemma slots_of_entries [simp]: "slots_of (ib\<lparr>ib_entries := b # S, ib_real_size := n\<rparr>) = S"
  "slots_of (ib\<lparr>ib_real_size := n, ib_entries := b # S\<rparr>) = S"
  by (simp_all add: slots_of_def)

lemma slots_split:
  assumes "wf_ib ib" and "i \<le> nkeys ib"
  obtains xs pos ys where "slots_of ib = xs @ pos # ys" and "length xs = i" and "pos = slots_of ib ! i"
    and "ib_entries ib = begin_ie # xs @ pos # ys" and "slot_pos ib i = INDEX_BLOCK_SIZE + bytes xs"
proof
  have l: "i < length (slots_of ib)" using assms by (simp add: wf_ibD(2) nkeys_def)
  show "slots_of ib = take i (slots_of ib) @ slots_of ib ! i # drop (Suc i) (slots_of ib)"
    by (rule id_take_nth_drop[OF l])
  then show "ib_entries ib = begin_ie # take i (slots_of ib) @ slots_of ib ! i # drop (Suc i) (slots_of ib)"
    using assms(1) wf_ib_slots by metis
qed (use assms in \<open>simp_all add: wf_ibD(2) nkeys_def slot_pos_def\<close>)

lemma wf_slots_append:
  "wf_slots large (xs @ pos # ys) \<longleftrightarrow>
     (\<forall>e \<in> set xs. key_ie large e) \<and> linked_from ENTRY_BEGIN_SIZE xs \<and>
     ie_prev_len pos = (if xs = [] then ENTRY_BEGIN_SIZE else ie_len (last xs)) \<and>
     (if ys = [] then end_ie large pos
      else key_ie large pos \<and> linked_from (ie_len pos) ys \<and> (\<forall>e \<in> set (butlast ys). key_ie large e) \<and> end_ie large (last ys))"
  by (auto simp: wf_slots_def linked_from_append butlast_append)

lemma get_entries_length_slots:
  assumes "\<forall>e \<in> set (butlast es). key_ie large e" and "es \<noteq> []" and "end_ie large (last es)"
  shows "get_entries_length es = Some (bytes es)"
  using assms
proof (induction es)
  case (Cons e es)
  show ?case
  proof (cases "es = []")
    case True
    then show ?thesis using Cons.prems by (simp add: ie_flag)
  next
    case False
    then have "key_ie large e" and "get_entries_length es = Some (bytes es)" using Cons by simp_all
    then show ?thesis using key_ie_pos[of large e] by (simp add: ie_flag)
  qed
qed simp

lemma entries_length_tail:
  "wf_slots large (xs @ ys) \<Longrightarrow> ys \<noteq> [] \<Longrightarrow> get_entries_length ys = Some (bytes ys)"
  by (rule get_entries_length_slots[of _ large]) (auto simp: wf_slots_def butlast_append)

lemma key_ie_prev [simp]: "key_ie large (e\<lparr>ie_prev_len := p\<rparr>) = key_ie large e"
  by (simp add: key_ie_def)

lemma end_ie_prev [simp]: "end_ie large (e\<lparr>ie_prev_len := p\<rparr>) = end_ie large e"
  by (simp add: end_ie_def)

lemma ie_data_prev [simp]: "ie_data (e\<lparr>ie_prev_len := p\<rparr>) = ie_data e"
  by (simp add: ie_data_def)

lemma ie_data_simps [simp]:
  "key_ie large (ie_data e) = key_ie large e" "end_ie large (ie_data e) = end_ie large e"
  "ie_len (ie_data e) = ie_len e" "ie_vbn (ie_data e) = ie_vbn e" "ie_key (ie_data e) = ie_key e"
  "ie_value (ie_data e) = ie_value e" "ie_flags (ie_data e) = ie_flags e"
  by (simp_all add: ie_data_def key_ie_def end_ie_def)

lemma ie_data_vbn: "ie_data a = ie_data b \<Longrightarrow> ie_data (a\<lparr>ie_vbn := v\<rparr>) = (ie_data b)\<lparr>ie_vbn := v\<rparr>"
  by (cases a; cases b) (simp add: ie_data_def)

lemma ie_data_vbn_same: "(ie_data b)\<lparr>ie_vbn := ie_vbn b\<rparr> = ie_data b"
  by (cases b) (simp add: ie_data_def)

section \<open>Inserting and removing\<close>

text \<open>The data of the keys in order, which is what a reader of the block sees.\<close>

definition contents :: "index_block \<Rightarrow> index_entry list" where
  "contents ib = map ie_data (keys_of ib)"

lemma contents_length [simp]: "length (contents ib) = nkeys ib"
  by (simp add: contents_def nkeys_def)

lemma contents_slots: "contents ib = butlast (map ie_data (slots_of ib))"
  by (simp add: contents_def keys_of_def map_butlast)

lemma end_slots: "slots_of ib \<noteq> [] \<Longrightarrow> ie_data (end_of ib) = last (map ie_data (slots_of ib))"
  by (simp add: end_of_def last_map)

lemma insert_ie_slots:
  assumes "wf_ib ib" and "i \<le> nkeys ib" and "key_ie (is_large ib) e"
    and "ib_real_size ib + ie_len e \<le> ib_alloc_size ib"
  obtains ib' where "insert_ie ib e (slot_pos ib i) = Some ib'" and "wf_ib ib'"
    and "map ie_data (slots_of ib') = take i (map ie_data (slots_of ib)) @ ie_data e # drop i (map ie_data (slots_of ib))"
    and "slot_pos ib' i = slot_pos ib i" and "ib_alloc_size ib' = ib_alloc_size ib" and "ib_node_type ib' = ib_node_type ib"
proof -
  obtain xs pos ys where s: "slots_of ib = xs @ pos # ys" and l: "length xs = i"
    and es: "ib_entries ib = begin_ie # xs @ pos # ys" and p: "slot_pos ib i = INDEX_BLOCK_SIZE + bytes xs"
    by (rule slots_split[OF assms(1,2)])
  let ?S = "xs @ e\<lparr>ie_prev_len := ie_prev_len pos\<rparr> # pos\<lparr>ie_prev_len := ie_len e\<rparr> # ys"
  let ?ib = "ib\<lparr>ib_real_size := ib_real_size ib + ie_len e, ib_entries := begin_ie # ?S\<rparr>"
  have w: "wf_slots (is_large ib) (xs @ pos # ys)" using assms(1) s wf_ib_slots by metis
  have "wf_slots (is_large ib) ?S"
    using w assms(3) by (auto simp: wf_slots_append butlast_append split: if_splits)
  then have "wf_ib ?ib"
    using assms(1,4) unfolding wf_ib_slots by (simp add: s)
  moreover have "insert_ie ib e (slot_pos ib i) = Some ?ib"
    using entries_length_tail[OF w] assms(4) ie_at_slot[OF assms(1,2)]
    by (simp add: insert_ie_def es nth_append del: get_entries_length.simps flip: l)
  moreover have "slot_pos ?ib i = slot_pos ib i" by (simp add: slot_pos_def s l)
  ultimately show thesis using that by (simp add: s l)
qed

lemma remove_ie_slots:
  assumes "wf_ib ib" and "i < nkeys ib"
  obtains ib' where "remove_ie ib (slot_pos ib i) = Some ib'" and "wf_ib ib'"
    and "map ie_data (slots_of ib') = take i (map ie_data (slots_of ib)) @ drop (Suc i) (map ie_data (slots_of ib))"
    and "ib_alloc_size ib' = ib_alloc_size ib" and "ib_node_type ib' = ib_node_type ib"
    and "ib_real_size ib' + ie_len (keys_of ib ! i) = ib_real_size ib"
proof -
  obtain xs pos ys where s: "slots_of ib = xs @ pos # ys" and l: "length xs = i" and q: "pos = slots_of ib ! i"
    and es: "ib_entries ib = begin_ie # xs @ pos # ys" and p: "slot_pos ib i = INDEX_BLOCK_SIZE + bytes xs"
    by (rule slots_split[OF assms(1) less_imp_le[OF assms(2)]])
  have "length (slots_of ib) = Suc (nkeys ib)" using assms(1) by (simp add: wf_ibD(2) nkeys_def)
  then obtain nx zs where y: "ys = nx # zs" using s l assms(2) by (cases ys) auto
  let ?S = "xs @ nx\<lparr>ie_prev_len := ie_prev_len pos\<rparr> # zs"
  let ?ib = "ib\<lparr>ib_real_size := ib_real_size ib - ie_len pos, ib_entries := begin_ie # ?S\<rparr>"
  have w: "wf_slots (is_large ib) (xs @ pos # nx # zs)" using assms(1) s y wf_ib_slots by metis
  have "wf_slots (is_large ib) ?S" using w by (auto simp: wf_slots_append split: if_splits)
  moreover have r: "ib_real_size ib = INDEX_BLOCK_SIZE + bytes (xs @ pos # nx # zs)"
    using assms(1) s y wf_ib_slots by metis
  ultimately have "wf_ib ?ib" using assms(1) unfolding wf_ib_slots by (simp add: s)
  moreover have "remove_ie ib (slot_pos ib i) = Some ?ib"
    using entries_length_tail[of "is_large ib" "xs @ [pos]" "nx # zs"] w ie_at_slot[OF assms(1) less_imp_le[OF assms(2)]]
    by (simp add: remove_ie_def es y nth_append del: get_entries_length.simps flip: l)
  moreover have "keys_of ib ! i = pos" using q slot_key[OF assms] by simp
  ultimately show thesis using that r by (simp add: s l y)
qed

lemma insert_ie_contents:
  assumes "wf_ib ib" and "i \<le> nkeys ib" and "key_ie (is_large ib) e"
    and "ib_real_size ib + ie_len e \<le> ib_alloc_size ib"
  shows "\<exists>ib'. insert_ie ib e (slot_pos ib i) = Some ib' \<and> wf_ib ib' \<and>
    contents ib' = take i (contents ib) @ ie_data e # drop i (contents ib) \<and> ie_data (end_of ib') = ie_data (end_of ib)"
proof -
  obtain ib' where r: "insert_ie ib e (slot_pos ib i) = Some ib'" and w: "wf_ib ib'"
    and s: "map ie_data (slots_of ib') = take i (map ie_data (slots_of ib)) @ ie_data e # drop i (map ie_data (slots_of ib))"
    by (rule insert_ie_slots[OF assms])
  have l: "map ie_data (slots_of ib) = contents ib @ [ie_data (end_of ib)]" and i: "i \<le> length (contents ib)"
    using assms(1,2) by (simp_all add: contents_def wf_ibD(2) nkeys_def)
  have "map ie_data (slots_of ib') = contents ib' @ [ie_data (end_of ib')]"
    using w by (simp add: contents_def wf_ibD(2))
  then have "contents ib' @ [ie_data (end_of ib')] = (take i (contents ib) @ ie_data e # drop i (contents ib)) @ [ie_data (end_of ib)]"
    using s l i by simp
  then show ?thesis using r w by (simp only: append1_eq_conv) blast
qed

text \<open>C10. An entry that fits is inserted before the given position: the block stays well formed,
  its keys are the old ones with the new one in its place, and the child after the last key is
  kept.\<close>

theorem insert_ie_keeps_block:
  assumes "wf_ib ib" and "i \<le> nkeys ib" and "key_ie (is_large ib) e"
    and "ib_real_size ib + ie_len e \<le> ib_alloc_size ib"
  shows "\<exists>ib'. insert_ie ib e (slot_pos ib i) = Some ib' \<and> wf_ib ib' \<and>
    contents ib' = take i (contents ib) @ ie_data e # drop i (contents ib) \<and> ie_data (end_of ib') = ie_data (end_of ib)"
  by (rule insert_ie_contents[OF assms])

lemma remove_ie_keeps_block:
  assumes "wf_ib ib" and "i < nkeys ib"
  shows "\<exists>ib'. remove_ie ib (slot_pos ib i) = Some ib' \<and> wf_ib ib' \<and>
    contents ib' = take i (contents ib) @ drop (Suc i) (contents ib) \<and> ie_data (end_of ib') = ie_data (end_of ib)"
proof -
  obtain ib' where r: "remove_ie ib (slot_pos ib i) = Some ib'" and w: "wf_ib ib'"
    and s: "map ie_data (slots_of ib') = take i (map ie_data (slots_of ib)) @ drop (Suc i) (map ie_data (slots_of ib))"
    by (rule remove_ie_slots[OF assms])
  have l: "map ie_data (slots_of ib) = contents ib @ [ie_data (end_of ib)]" and i: "i < length (contents ib)"
    using assms by (simp_all add: contents_def wf_ibD(2) nkeys_def)
  have "map ie_data (slots_of ib') = contents ib' @ [ie_data (end_of ib')]"
    using w by (simp add: contents_def wf_ibD(2))
  then have "contents ib' @ [ie_data (end_of ib')] = (take i (contents ib) @ drop (Suc i) (contents ib)) @ [ie_data (end_of ib)]"
    using s l i by simp
  then show ?thesis using r w by (simp only: append1_eq_conv) blast
qed


section \<open>Splitting\<close>

lemma middle_loop_slots:
  assumes "\<forall>e \<in> set (butlast es). key_ie large e" and "es \<noteq> []" and "end_ie large (last es)"
  shows "\<exists>j < length es. middle_loop es mid off = Some (off + bytes (take j es)) \<and>
    (j = 0 \<or> bytes (take j es) < mid) \<and> (mid \<le> bytes (take (Suc j) es) \<or> Suc j = length es)"
  using assms
proof (induction es arbitrary: mid off)
  case (Cons e es)
  show ?case
  proof (cases "es = []")
    case True
    then show ?thesis using Cons.prems by (simp add: ie_flag)
  next
    case False
    then have k: "key_ie large e" using Cons.prems by simp
    show ?thesis
    proof (cases "mid > ie_len e")
      case True
      have "\<exists>j < length es. middle_loop es (mid - ie_len e) (off + ie_len e) = Some (off + ie_len e + bytes (take j es)) \<and>
        (j = 0 \<or> bytes (take j es) < mid - ie_len e) \<and> (mid - ie_len e \<le> bytes (take (Suc j) es) \<or> Suc j = length es)"
        using Cons.prems False by (intro Cons.IH) auto
      then obtain j where j: "j < length es"
        "middle_loop es (mid - ie_len e) (off + ie_len e) = Some (off + ie_len e + bytes (take j es))"
        "j = 0 \<or> bytes (take j es) < mid - ie_len e" "mid - ie_len e \<le> bytes (take (Suc j) es) \<or> Suc j = length es"
        by blast
      then show ?thesis using True k key_ie_pos[OF k] by (intro exI[of _ "Suc j"]) (auto simp: ie_flag)
    next
      case False
      then show ?thesis using k by (intro exI[of _ 0]) (auto simp: ie_flag)
    qed
  qed
qed simp

text \<open>The middle entry of a block with keys is a key, and half of the bytes are before its end.\<close>

lemma get_middle_ie_slot:
  assumes "wf_ib ib" and "nkeys ib \<noteq> 0"
  obtains j where "j < nkeys ib" and "get_middle_ie ib = Some (slot_pos ib j)"
    and "j = 0 \<or> bytes (take j (slots_of ib)) < (ib_real_size ib - INDEX_BLOCK_SIZE) div 2"
    and "(ib_real_size ib - INDEX_BLOCK_SIZE) div 2 \<le> bytes (take (Suc j) (slots_of ib))"
proof -
  let ?mid = "(ib_real_size ib - INDEX_BLOCK_SIZE) div 2"
  have w: "wf_slots (is_large ib) (slots_of ib)" using assms(1) wf_ib_slots by blast
  have n: "length (slots_of ib) = Suc (nkeys ib)" using assms(1) by (simp add: wf_ibD(2) nkeys_def)
  obtain j where j: "j < Suc (nkeys ib)"
    and m: "middle_loop (slots_of ib) ?mid INDEX_BLOCK_SIZE = Some (INDEX_BLOCK_SIZE + bytes (take j (slots_of ib)))"
    and lo: "j = 0 \<or> bytes (take j (slots_of ib)) < ?mid"
    and hi: "?mid \<le> bytes (take (Suc j) (slots_of ib)) \<or> Suc j = length (slots_of ib)"
    using middle_loop_slots[of "slots_of ib" "is_large ib" ?mid INDEX_BLOCK_SIZE] w n by (auto simp: wf_slots_def)
  have "entries_from ib (ib_first_entry_off ib) = Some (slots_of ib)"
    using ie_at_slot[OF assms(1), of 0] slot_first[OF assms(1)] by (simp add: entries_from_def slots_of_def drop_Suc)
  then have g: "get_middle_ie ib = Some (slot_pos ib j)"
    using m by (simp add: get_middle_ie_def wf_ibD(6)[OF assms(1)] slot_pos_def)
  have jn: "j < nkeys ib"
  proof (rule ccontr)
    assume "\<not> j < nkeys ib"
    then have e: "j = nkeys ib" using j by simp
    have r: "ib_real_size ib - INDEX_BLOCK_SIZE = bytes (keys_of ib) + ie_len (end_of ib)"
      by (simp add: wf_ibD(7)[OF assms(1)])
    have "take j (slots_of ib) = keys_of ib" using e by (simp add: wf_ibD(2)[OF assms(1)] nkeys_def)
    then have lt: "bytes (keys_of ib) < (bytes (keys_of ib) + ie_len (end_of ib)) div 2"
      using lo e assms(2) r by simp
    obtain k ks where k: "keys_of ib = k # ks" using assms(2) by (cases "keys_of ib") (auto simp: nkeys_def)
    have "ie_len (end_of ib) \<le> bytes (keys_of ib)"
      using key_ie_len[OF wf_ibD(3)[OF assms(1), of k]] wf_ibD(4)[OF assms(1)] k by (simp add: end_ie_def)
    then show False using lt by simp
  qed
  show thesis using that[OF jn g lo] hi jn n by simp
qed

lemma ie_at_from_lens: "map ie_len es = map ie_len es' \<Longrightarrow> ie_at_from n es p = ie_at_from n es' p"
proof (induction es arbitrary: es' n)
  case (Cons e es)
  then obtain e' fs where "es' = e' # fs" and "ie_len e = ie_len e'" and "map ie_len es = map ie_len fs"
    by (cases es') auto
  then show ?case using Cons.IH[of fs] by simp
qed simp

lemma ie_at_lens: "map ie_len es = map ie_len es' \<Longrightarrow> ie_at es p = ie_at es' p"
  unfolding ie_at_def by (rule ie_at_from_lens)

lemma wf_slots_tail:
  "wf_slots large (xs @ mid # nx # zs) \<Longrightarrow> wf_slots large (nx\<lparr>ie_prev_len := ENTRY_BEGIN_SIZE\<rparr> # zs)"
  by (auto simp: wf_slots_def linked_from_append butlast_append split: if_splits)

text \<open>The upper half.\<close>

lemma copy_ib_tail_slots:
  assumes "wf_ib ib" and "slots_of ib = xs @ mid # nx # zs"
  defines "nx' \<equiv> nx\<lparr>ie_prev_len := ENTRY_BEGIN_SIZE\<rparr>"
  obtains new where
    "copy_ib_tail ib (slot_pos ib (length xs)) = Some (new, ib\<lparr>ib_entries := begin_ie # xs @ mid # nx' # zs\<rparr>)"
    and "wf_ib new" and "slots_of new = nx' # zs" and "ib_alloc_size new = ib_alloc_size ib"
    and "ib_node_type new = ib_node_type ib"
proof -
  let ?new = "\<lparr>ib_alloc_size = ib_alloc_size ib, ib_real_size = bytes (nx' # zs) + INDEX_BLOCK_SIZE,
    ib_first_entry_off = INDEX_BLOCK_SIZE, ib_node_type = ib_node_type ib, ib_entries = begin_ie # nx' # zs\<rparr>"
  have e: "ib_entries ib = begin_ie # xs @ mid # nx # zs" using assms(1,2) wf_ib_slots by metis
  have r: "ib_real_size ib = INDEX_BLOCK_SIZE + bytes (xs @ mid # nx # zs)"
    and a: "ib_real_size ib \<le> ib_alloc_size ib" using assms(1,2) wf_ib_slots by metis+
  have w: "wf_slots (is_large ib) (nx' # zs)"
    unfolding nx'_def by (rule wf_slots_tail[of _ xs mid]) (use assms(1,2) wf_ib_slots in metis)
  have wf: "wf_ib ?new"
    unfolding wf_ib_slots using w r a by (simp add: init_ib_def Let_def slots_of_def) (simp add: nx'_def)
  have "length xs \<le> nkeys ib" using assms(2) by (simp add: nkeys_def keys_of_def)
  then have at: "ie_at (begin_ie # xs @ mid # nx # zs) (slot_pos ib (length xs)) = Some (Suc (length xs))"
    using ie_at_slot[OF assms(1)] e by simp
  have p: "slot_pos ib (length xs) = INDEX_BLOCK_SIZE + bytes xs" by (simp add: slot_pos_def assms(2))
  have "copy_ib_tail ib (slot_pos ib (length xs)) = Some (?new, ib\<lparr>ib_entries := begin_ie # xs @ mid # nx' # zs\<rparr>)"
    using at r by (simp add: copy_ib_tail_def e p Let_def nth_append init_ib_def nx'_def ie_off_def begin_ie_def
        list_update_append bytes_def[symmetric])
  then show thesis by (rule that[OF _ wf]) (simp_all add: slots_of_def)
qed

text \<open>The lower half. The end entry takes over the child of the middle entry.\<close>

lemma cut_ib_tail_slots:
  assumes "wf_ib ib" and "slots_of ib = xs @ mid # nx # zs" and "ie_len nx' = ie_len nx" and "ie_data nx' = ie_data nx"
  obtains old where
    "cut_ib_tail (ib\<lparr>ib_entries := begin_ie # xs @ mid # nx' # zs\<rparr>) (slot_pos ib (length xs)) = Some old"
    and "wf_ib old" and "map ie_data (slots_of old) =
      map ie_data xs @ [(ie_data (end_of ib))\<lparr>ie_vbn := ie_vbn (if is_large ib then mid else end_of ib)\<rparr>]"
    and "ib_alloc_size old = ib_alloc_size ib" and "ib_node_type old = ib_node_type ib"
    and "ib_real_size old = slot_pos ib (length xs) + last_ie_len ib"
proof -
  let ?e = "last (nx' # zs)" and ?es = "begin_ie # xs @ mid # nx' # zs"
  let ?last = "(if is_large ib then ?e\<lparr>ie_vbn := ie_vbn mid\<rparr> else ?e)\<lparr>ie_prev_len := ie_len (last (begin_ie # xs))\<rparr>"
  have w: "wf_slots (is_large ib) (xs @ mid # nx # zs)" using assms(1,2) wf_ib_slots by metis
  have es: "ib_entries ib = begin_ie # xs @ mid # nx # zs" using assms(1,2) wf_ib_slots by metis
  have at: "ie_at ?es q = ie_at (ib_entries ib) q" for q
    by (rule ie_at_lens) (simp add: es assms(3))
  have ed: "ie_data ?e = ie_data (end_of ib)" using assms(2,4) by (simp add: end_of_def)
  have ee: "end_ie (is_large ib) ?e" using wf_ibD(4)[OF assms(1)] ed by (metis ie_data_simps(2))
  have n: "nkeys ib = length xs + length (nx # zs)" using assms(2) by (simp add: nkeys_def keys_of_def)
  have last: "ie_read (ib\<lparr>ib_entries := ?es\<rparr>) (ib_real_size ib - last_ie_len ib) = Some ?e"
    using slot_last[OF assms(1)] ie_at_slot[OF assms(1), of "nkeys ib"] n
    by (simp add: ie_read_def at nth_append last_conv_nth nth_Cons')
  have pm: "ie_prev_len mid = (if xs = [] then ENTRY_BEGIN_SIZE else ie_len (last xs))"
    using w by (simp add: wf_slots_append)
  have prev: "ie_read (ib\<lparr>ib_entries := ?es\<rparr>) (slot_pos ib (length xs) - ie_prev_len mid) = Some (last (begin_ie # xs))"
  proof (cases xs rule: rev_cases)
    case Nil
    then show ?thesis using pm by (simp add: ie_read_def ie_at_def slot_pos_def assms(2))
  next
    case (snoc us u)
    have "slot_pos ib (length xs) - ie_prev_len mid = slot_pos ib (length us)"
      using pm snoc by (simp add: slot_pos_def assms(2))
    then show ?thesis using snoc n ie_at_slot[OF assms(1), of "length us"] at[of "slot_pos ib (length us)"]
      by (simp add: ie_read_def nth_append)
  qed
  let ?old = "ib\<lparr>ib_entries := begin_ie # xs @ [?last], ib_real_size := ie_len ?last + slot_pos ib (length xs)\<rparr>"
  have "cut_ib_tail (ib\<lparr>ib_entries := ?es\<rparr>) (slot_pos ib (length xs)) = Some ?old"
    using last prev ee at ie_at_slot[OF assms(1), of "length xs"] n
    by (simp add: cut_ib_tail_def last_ie_len_def Let_def nth_append ie_flag del: last.simps)
  moreover have "wf_ib ?old"
  proof -
    have "end_ie (is_large ib) ?last" using ee by (simp add: end_ie_def)
    moreover have "ie_prev_len ?last = (if xs = [] then ENTRY_BEGIN_SIZE else ie_len (last xs))"
      by (simp add: begin_ie_def)
    ultimately have "wf_slots (is_large ib) (xs @ [?last])" using w by (simp add: wf_slots_append)
    moreover have "slots_of ?old = xs @ [?last]" by (simp add: slots_of_def)
    moreover have "ib_real_size ?old \<le> ib_alloc_size ib"
    proof -
      have "ie_len ?last = ie_len (end_of ib)" using ed by simp (metis ie_data_simps(3))
      moreover have "end_of ib = last (nx # zs)" by (simp add: end_of_def assms(2))
      moreover have "ie_len (last (nx # zs)) \<le> bytes (nx # zs)"
        by (metis append_butlast_last_id bytes_simps(2,3) le_add2 add_0_right bytes_simps(1) list.discI)
      moreover have "ib_real_size ib = INDEX_BLOCK_SIZE + bytes (xs @ mid # nx # zs)" "ib_real_size ib \<le> ib_alloc_size ib"
        using assms(1,2) wf_ib_slots by metis+
      ultimately show ?thesis by (simp add: slot_pos_def assms(2))
    qed
    ultimately show ?thesis
      unfolding wf_ib_slots using wf_ibD(6)[OF assms(1)] by (simp add: slot_pos_def assms(2))
  qed
  ultimately show thesis
  proof (rule that)
    have "ie_data ?last = (ie_data (end_of ib))\<lparr>ie_vbn := ie_vbn (if is_large ib then mid else end_of ib)\<rparr>"
      using ie_data_vbn[OF ed] by (simp add: ed ie_data_vbn_same del: last.simps)
    then show "map ie_data (slots_of ?old) =
        map ie_data xs @ [(ie_data (end_of ib))\<lparr>ie_vbn := ie_vbn (if is_large ib then mid else end_of ib)\<rparr>]"
      by (simp add: slots_of_def)
    show "ib_real_size ?old = slot_pos ib (length xs) + last_ie_len ib"
      using last_ie_len_end[OF ee] by simp
  qed simp_all
qed

text \<open>C9. A split at the middle entry loses nothing: the lower block keeps the keys before it, the
  upper block gets those after it, the child of the middle entry becomes the last child of the lower
  block, and both blocks are well formed.\<close>

theorem split_partition:
  assumes "wf_ib ib" and "nkeys ib \<noteq> 0"
  shows "\<exists>j new ib1 old. j < nkeys ib \<and> get_middle_ie ib = Some (slot_pos ib j) \<and>
    copy_ib_tail ib (slot_pos ib j) = Some (new, ib1) \<and> cut_ib_tail ib1 (slot_pos ib j) = Some old \<and>
    wf_ib old \<and> wf_ib new \<and> contents old @ contents ib ! j # contents new = contents ib \<and>
    ie_data (end_of new) = ie_data (end_of ib) \<and>
    (is_large ib \<longrightarrow> ie_vbn (end_of old) = ie_vbn (contents ib ! j))"
proof -
  obtain j where j: "j < nkeys ib" and m: "get_middle_ie ib = Some (slot_pos ib j)"
    by (rule get_middle_ie_slot[OF assms])
  obtain xs mid ys where s: "slots_of ib = xs @ mid # ys" and l: "length xs = j" and q: "mid = slots_of ib ! j"
    by (rule slots_split[OF assms(1) less_imp_le[OF j]])
  have "length (slots_of ib) = Suc (nkeys ib)" using assms(1) by (simp add: wf_ibD(2) nkeys_def)
  then obtain nx zs where y: "ys = nx # zs" using s l j by (cases ys) auto
  have s': "slots_of ib = xs @ mid # nx # zs" using s y by simp
  let ?nx = "nx\<lparr>ie_prev_len := ENTRY_BEGIN_SIZE\<rparr>"
  obtain new where c: "copy_ib_tail ib (slot_pos ib (length xs)) = Some (new, ib\<lparr>ib_entries := begin_ie # xs @ mid # ?nx # zs\<rparr>)"
    and wn: "wf_ib new" and sn: "slots_of new = ?nx # zs"
    by (rule copy_ib_tail_slots[OF assms(1) s'])
  obtain old where cut: "cut_ib_tail (ib\<lparr>ib_entries := begin_ie # xs @ mid # ?nx # zs\<rparr>) (slot_pos ib (length xs)) = Some old"
    and wo: "wf_ib old" and so: "map ie_data (slots_of old) =
      map ie_data xs @ [(ie_data (end_of ib))\<lparr>ie_vbn := ie_vbn (if is_large ib then mid else end_of ib)\<rparr>]"
    by (rule cut_ib_tail_slots[OF assms(1) s', of ?nx]) simp_all
  have ci: "contents ib = map ie_data xs @ ie_data mid # butlast (map ie_data (nx # zs))"
    by (simp add: contents_slots s' butlast_append)
  have cn: "contents new = butlast (map ie_data (nx # zs))" by (simp add: contents_slots sn)
  have co: "contents old = map ie_data xs" by (simp add: contents_slots so butlast_append)
  have "ie_data (end_of old) = (ie_data (end_of ib))\<lparr>ie_vbn := ie_vbn (if is_large ib then mid else end_of ib)\<rparr>"
  proof -
    have "slots_of old \<noteq> []" using so by auto
    then show ?thesis using end_slots[of old] by (simp add: so)
  qed
  from arg_cong[OF this, of ie_vbn] have v: "is_large ib \<Longrightarrow> ie_vbn (end_of old) = ie_vbn mid" by simp
  have e: "ie_data (end_of new) = ie_data (end_of ib)" by (simp add: end_of_def sn s')
  have mid: "contents ib ! j = ie_data mid" using l by (simp add: ci nth_append)
  have "contents old @ contents ib ! j # contents new = contents ib" unfolding mid unfolding ci cn co by simp
  moreover have "is_large ib \<longrightarrow> ie_vbn (end_of old) = ie_vbn (contents ib ! j)" using v by (simp add: mid)
  ultimately show ?thesis using j m c[unfolded l] cut[unfolded l] wo wn e by blast
qed


section \<open>A block to evaluate on\<close>

definition sample_key :: "u8 \<Rightarrow> index_entry" where
  "sample_key k = \<lparr>ie_len = 11, ie_prev_len = 0, ie_flags = INDEX_ENTRY_LEAF, ie_key = [k], ie_value = [k + 1], ie_vbn = 0\<rparr>"

definition sample_ib :: index_block where
  "sample_ib = (init_ib INDEX_BLOCK_SMALL 256)\<lparr>ib_real_size := 64, ib_entries := [begin_ie,
     (sample_key 3)\<lparr>ie_prev_len := 9\<rparr>, (sample_key 5)\<lparr>ie_prev_len := 11\<rparr>,
     \<lparr>ie_len = 9, ie_prev_len = 11, ie_flags = INDEX_ENTRY_END, ie_key = [], ie_value = [], ie_vbn = 0\<rparr>]\<rparr>"

lemma sample_ib_wf: "wf_ib sample_ib" "nkeys sample_ib = 2" "\<not> is_large sample_ib" "ib_alloc_size sample_ib = 256"
  "ib_real_size sample_ib = 64"
  by (simp_all add: sample_ib_def sample_key_def wf_ib_def nkeys_def keys_of_def slots_of_def end_of_def init_ib_def Let_def flag_def
      key_ie_def end_ie_def begin_ie_def)

lemma sample_key_ie: "key_ie False (sample_key k)"
  by (simp add: sample_key_def key_ie_def)

lemma sample_key_data: "ie_data (sample_key k) = sample_key k"
  by (simp add: sample_key_def ie_data_def)

lemma sample_contents: "contents sample_ib = [sample_key 3, sample_key 5]"
  by (simp add: contents_def keys_of_def slots_of_def sample_ib_def sample_key_data)

lemma insert_ie_keeps_block_witness:
  "\<exists>ib'. insert_ie sample_ib (sample_key 4) (slot_pos sample_ib 1) = Some ib' \<and> wf_ib ib' \<and>
    map ie_key (contents ib') = [[3], [4], [5]]"
proof -
  have p: "key_ie (is_large sample_ib) (sample_key 4)" using sample_key_ie sample_ib_wf(3) by (metis (full_types))
  obtain ib' where r: "insert_ie sample_ib (sample_key 4) (slot_pos sample_ib 1) = Some ib'" and w: "wf_ib ib'"
    and c: "contents ib' = take 1 (contents sample_ib) @ ie_data (sample_key 4) # drop 1 (contents sample_ib)"
    using insert_ie_keeps_block[OF sample_ib_wf(1) _ p, of 1] sample_ib_wf by (auto simp: sample_key_def)
  have "contents ib' = [sample_key 3, sample_key 4, sample_key 5]"
    unfolding c sample_contents by (simp add: sample_key_data)
  then have "map ie_key (contents ib') = [[3], [4], [5]]" by (simp add: sample_key_def)
  with r w show ?thesis by (intro exI[of _ ib'] conjI)
qed


lemma split_partition_witness:
  "\<exists>j new ib1 old. get_middle_ie sample_ib = Some (slot_pos sample_ib j) \<and>
    copy_ib_tail sample_ib (slot_pos sample_ib j) = Some (new, ib1) \<and> cut_ib_tail ib1 (slot_pos sample_ib j) = Some old \<and>
    contents old @ contents sample_ib ! j # contents new = contents sample_ib"
  using split_partition[OF sample_ib_wf(1)] sample_ib_wf(2) by (metis zero_neq_numeral)


end
