(* ===== verification/Ofs_Index_Tree.thy ===== *)
theory Ofs_Index_Tree imports Ofs_Index_View Ofs_Index_Spec
begin

unbundle bit_operations_syntax

text \<open>
  An index as a tree of blocks, the sequence of its keys, and the position of a handle as a path.
  The moves of \<^verbatim>\<open>ofs_btree.c\<close> between entries and levels are moves of that path.
\<close>

section \<open>Trees of blocks\<close>

datatype bt = Bt (bt_ib: index_block) (bt_kids: "bt list")

text \<open>The tree that starts at a block, in a view of the blocks.\<close>

fun holds :: "(u64 \<Rightarrow> index_block option) \<Rightarrow> bt \<Rightarrow> bool" where
  "holds S (Bt ib cs) \<longleftrightarrow> wf_ib ib \<and> (if is_large ib then length cs = Suc (nkeys ib) else cs = []) \<and>
     list_all2 (\<lambda>e c. S (ie_vbn e) = Some (bt_ib c)) (if is_large ib then slots_of ib else []) cs \<and>
     (\<forall>c \<in> set cs. holds S c)"

fun bt_within :: "nat \<Rightarrow> bt \<Rightarrow> bool" where
  "bt_within 0 (Bt ib cs) \<longleftrightarrow> cs = []"
| "bt_within (Suc d) (Bt ib cs) \<longleftrightarrow> (\<forall>c \<in> set cs. bt_within d c)"

text \<open>The keys in order: each key of a block comes after the keys of the child in front of it.\<close>

fun weave :: "'a list list \<Rightarrow> 'a list \<Rightarrow> 'a list" where
  "weave [] ks = ks"
| "weave (c # cs) [] = c"
| "weave (c # cs) (k # ks) = c @ k # weave cs ks"

fun bt_keys :: "bt \<Rightarrow> index_entry list" where
  "bt_keys (Bt ib cs) = weave (map bt_keys cs) (keys_of ib)"

text \<open>The keys from the \<open>i\<close>-th one of a block on.\<close>

definition keys_from :: "'a list list \<Rightarrow> 'a list \<Rightarrow> nat \<Rightarrow> 'a list" where
  "keys_from css ks i = (case drop i ks of [] \<Rightarrow> [] | k # ks' \<Rightarrow> k # weave (drop (Suc i) css) ks')"

lemma keys_from_key:
  "i < length ks \<Longrightarrow> css = [] \<or> length css = Suc (length ks) \<Longrightarrow>
     keys_from css ks i = ks ! i # (if css = [] then [] else css ! Suc i) @ keys_from css ks (Suc i)"
proof -
  assume i: "i < length ks" and c: "css = [] \<or> length css = Suc (length ks)"
  have k: "drop i ks = ks ! i # drop (Suc i) ks" using i by (simp add: Cons_nth_drop_Suc)
  show ?thesis
  proof (cases "css = []")
    case True
    then show ?thesis by (cases "drop (Suc i) ks") (simp_all add: keys_from_def k)
  next
    case False
    then have "drop (Suc i) css = css ! Suc i # drop (Suc (Suc i)) css" using c i by (simp add: Cons_nth_drop_Suc)
    then show ?thesis using False by (cases "drop (Suc i) ks") (simp_all add: keys_from_def k)
  qed
qed

lemma keys_from_end: "keys_from css ks (length ks) = []"
  by (simp add: keys_from_def)

lemma weave_from:
  "css = [] \<or> length css = Suc (length ks) \<Longrightarrow> weave css ks = (if css = [] then [] else css ! 0) @ keys_from css ks 0"
  by (cases css; cases ks) (auto simp: keys_from_def)

section \<open>Paths\<close>

fun bt_sub :: "bt \<Rightarrow> nat list \<Rightarrow> bt" where
  "bt_sub b [] = b"
| "bt_sub b (k # is) = bt_sub (bt_kids b ! k) is"

fun bt_path :: "bt \<Rightarrow> nat list \<Rightarrow> bool" where
  "bt_path b [] \<longleftrightarrow> True"
| "bt_path b (k # is) \<longleftrightarrow> k < length (bt_kids b) \<and> bt_path (bt_kids b ! k) is"

definition bt_rest :: "bt \<Rightarrow> nat \<Rightarrow> index_entry list" where
  "bt_rest b i = keys_from (map bt_keys (bt_kids b)) (keys_of (bt_ib b)) i"

text \<open>The keys from an entry on: the rest of its block, then those of the blocks above.\<close>

fun bt_after :: "bt \<Rightarrow> nat list \<Rightarrow> nat \<Rightarrow> index_entry list" where
  "bt_after b [] i = bt_rest b i"
| "bt_after b (k # is) i = bt_after (bt_kids b ! k) is i @ bt_rest b k"

lemma bt_sub_append: "bt_sub b (is @ js) = bt_sub (bt_sub b is) js"
  by (induction "is" arbitrary: b) auto

lemma bt_path_append: "bt_path b (is @ js) \<longleftrightarrow> bt_path b is \<and> bt_path (bt_sub b is) js"
  by (induction "is" arbitrary: b) auto

lemma bt_after_append:
  "bt_after b (is @ [k]) i = bt_rest (bt_sub b (is @ [k])) i @ bt_after b is k"
  by (induction "is" arbitrary: b) auto

lemma holds_kids:
  assumes "holds S b"
  shows "wf_ib (bt_ib b)" and "bt_kids b = [] \<or> length (bt_kids b) = Suc (nkeys (bt_ib b))"
    and "is_large (bt_ib b) \<longleftrightarrow> bt_kids b \<noteq> []"
    and "k < length (bt_kids b) \<Longrightarrow> S (ie_vbn (slots_of (bt_ib b) ! k)) = Some (bt_ib (bt_kids b ! k))"
    and "c \<in> set (bt_kids b) \<Longrightarrow> holds S c"
  using assms by (cases b; auto simp: list_all2_conv_all_nth split: if_splits)+

lemma holds_sub: "holds S b \<Longrightarrow> bt_path b is \<Longrightarrow> holds S (bt_sub b is)"
  by (induction "is" arbitrary: b) (auto intro: holds_kids(5) nth_mem)

lemma bt_within_sub: "bt_within d b \<Longrightarrow> bt_path b is \<Longrightarrow> length is \<le> d \<and> bt_within (d - length is) (bt_sub b is)"
proof (induction "is" arbitrary: b d)
  case (Cons k js)
  obtain ib cs e where b: "b = Bt ib cs" and d: "d = Suc e" and k: "k < length cs"
    using Cons.prems by (cases b; cases d) auto
  then have "bt_within e (cs ! k)" using Cons.prems(1) by simp
  then show ?case using Cons.IH[of e "cs ! k"] Cons.prems(2) by (simp add: b d)
qed simp

text \<open>A view determines the tree at a block, so no block is among its own children.\<close>

lemma holds_unique: "holds S a \<Longrightarrow> holds S b \<Longrightarrow> bt_ib a = bt_ib b \<Longrightarrow> a = b"
proof (induction a arbitrary: b)
  case (Bt ib cs)
  obtain ds where b: "b = Bt ib ds" using Bt.prems(3) by (cases b) simp
  have len: "length cs = length ds" using Bt.prems(1,2) by (auto simp: b split: if_splits)
  have "cs ! k = ds ! k" if k: "k < length cs" for k
  proof (rule Bt.IH)
    show "cs ! k \<in> set cs" using k by simp
    show "holds S (cs ! k)" "holds S (ds ! k)" using Bt.prems(1,2) k len by (auto simp: b)
    show "bt_ib (cs ! k) = bt_ib (ds ! k)"
      using holds_kids(4)[OF Bt.prems(1), of k] holds_kids(4)[OF Bt.prems(2), of k] k len by (simp add: b)
  qed
  then show ?case using len by (simp add: b list_eq_iff_nth_eq)
qed

lemma kid_smaller: "c \<in> set (bt_kids b) \<Longrightarrow> size c < size b"
  by (cases b) (simp add: size_list_estimation less_Suc_eq_le size_list_estimation')

lemma kid_block: "holds S b \<Longrightarrow> k < length (bt_kids b) \<Longrightarrow> bt_ib (bt_kids b ! k) \<noteq> bt_ib b"
  by (metis holds_kids(5) holds_unique kid_smaller less_irrefl nth_mem)

lemma rest_keys:
  assumes "holds S b"
  shows "bt_keys b = (if bt_kids b = [] then [] else bt_keys (bt_kids b ! 0)) @ bt_rest b 0"
    and "i < nkeys (bt_ib b) \<Longrightarrow>
      bt_rest b i = keys_of (bt_ib b) ! i # (if bt_kids b = [] then [] else bt_keys (bt_kids b ! Suc i)) @ bt_rest b (Suc i)"
    and "bt_rest b (nkeys (bt_ib b)) = []"
proof -
  have c: "map bt_keys (bt_kids b) = [] \<or> length (map bt_keys (bt_kids b)) = Suc (length (keys_of (bt_ib b)))"
    using holds_kids(2)[OF assms] by (auto simp: nkeys_def)
  have k: "bt_keys b = weave (map bt_keys (bt_kids b)) (keys_of (bt_ib b))" by (cases b) simp
  show "bt_keys b = (if bt_kids b = [] then [] else bt_keys (bt_kids b ! 0)) @ bt_rest b 0"
    unfolding k using weave_from[OF c] by (auto simp: bt_rest_def)
  show "bt_rest b i = keys_of (bt_ib b) ! i # (if bt_kids b = [] then [] else bt_keys (bt_kids b ! Suc i)) @ bt_rest b (Suc i)"
    if "i < nkeys (bt_ib b)"
    using keys_from_key[of i "keys_of (bt_ib b)", OF _ c] that c by (auto simp: bt_rest_def nkeys_def)
  show "bt_rest b (nkeys (bt_ib b)) = []" by (simp add: bt_rest_def nkeys_def keys_from_end)
qed

section \<open>The position of a handle\<close>

definition on_stack :: "'e levels \<Rightarrow> 'e object \<Rightarrow> nat \<Rightarrow> index_block \<Rightarrow> bool" where
  "on_stack lv t d ib \<longleftrightarrow> get_ib lv t (t_cache_stack t d) = Some ib \<and>
     (if d = 0 then t_cache_stack t 0 = t_root t
      else map_option (\<lambda>c. block_view lv t (c_vbn c)) (cache_at lv t (t_cache_stack t d)) = Some (Some ib))"

definition stands :: "'e levels \<Rightarrow> 'e object \<Rightarrow> bt \<Rightarrow> nat list \<Rightarrow> nat \<Rightarrow> bool" where
  "stands lv t b is i \<longleftrightarrow> t_depth t = length is \<and> bt_path b is \<and> i \<le> nkeys (bt_ib (bt_sub b is)) \<and>
     (\<forall>d \<le> length is. on_stack lv t d (bt_ib (bt_sub b (take d is)))) \<and>
     (\<forall>d < length is. t_position_stack t d = slot_pos (bt_ib (bt_sub b (take d is))) (is ! d)) \<and>
     t_cache t = t_cache_stack t (length is) \<and> t_ie t = t_position t \<and>
     t_position t = slot_pos (bt_ib (bt_sub b is)) i"

text \<open>An index that can be read: its root in the cache, the blocks below in view, and no deeper
  than the stacks of a handle.\<close>

definition index_ok :: "'e levels \<Rightarrow> 'e object \<Rightarrow> bt \<Rightarrow> bool" where
  "index_ok lv t b \<longleftrightarrow> caches_ok lv t \<and> get_ib lv t (t_root t) = Some (bt_ib b) \<and> holds (block_view lv t) b \<and>
     bt_within (TREE_MAX_DEPTH - 1) b"

lemma index_ok_extends: "index_ok lv t b \<Longrightarrow> extends lv t t' \<Longrightarrow> index_ok lv t' b"
  unfolding index_ok_def using extendsD[of lv t t'] by auto

lemma on_stack_extends:
  assumes "on_stack lv t d ib" and "extends lv t t'" and "t_cache_stack t' d = t_cache_stack t d"
  shows "on_stack lv t' d ib"
  using assms extendsD[OF assms(2)] by (auto simp: on_stack_def split: if_splits)

lemma stands_block:
  assumes "index_ok lv t b" and "stands lv t b is i"
  shows "wf_ib (bt_ib (bt_sub b is))" and "cur_ib lv t = Some (bt_ib (bt_sub b is))"
    and "cur_ie lv t = Some (slots_of (bt_ib (bt_sub b is)) ! i)" and "holds (block_view lv t) (bt_sub b is)"
proof -
  show h: "holds (block_view lv t) (bt_sub b is)" using assms holds_sub by (auto simp: index_ok_def stands_def)
  then show w: "wf_ib (bt_ib (bt_sub b is))" by (rule holds_kids)
  show c: "cur_ib lv t = Some (bt_ib (bt_sub b is))" using assms(2) by (auto simp: stands_def on_stack_def cur_ib_def)
  show "cur_ie lv t = Some (slots_of (bt_ib (bt_sub b is)) ! i)"
    using assms(2) ie_read_slot[OF w] by (simp add: cur_ie_def c stands_def)
qed

section \<open>Moves\<close>

definition same_handle :: "'e object \<Rightarrow> 'e object \<Rightarrow> bool" where
  "same_handle t t' \<longleftrightarrow> t_depth t' = t_depth t \<and> t_cache_stack t' = t_cache_stack t \<and>
     t_position_stack t' = t_position_stack t \<and> t_position t' = t_position t \<and> t_ie t' = t_ie t"

context level_laws
begin

lemma reset_stands:
  assumes "index_ok lv t b"
  obtains t' where "reset_cache_stack lv flags t = Some t'" and "extends lv t t'"
    and "stands lv t' b [] (if flag flags INDEX_GET_LAST then nkeys (bt_ib b) else 0)"
proof -
  let ?i = "if flag flags INDEX_GET_LAST then nkeys (bt_ib b) else 0"
  let ?t = "t\<lparr>t_cache := t_root t, t_cache_stack := (t_cache_stack t)(0 := t_root t), t_depth := 0,
    t_ie := slot_pos (bt_ib b) ?i, t_position := slot_pos (bt_ib b) ?i\<rparr>"
  have r: "get_ib lv t (t_root t) = Some (bt_ib b)" and w: "wf_ib (bt_ib b)" and c: "caches_ok lv t"
    using assms holds_kids(1) by (auto simp: index_ok_def)
  have cur: "cur_ib lv (t\<lparr>t_cache := t_root t, t_cache_stack := (t_cache_stack t)(0 := t_root t), t_depth := 0\<rparr>) = Some (bt_ib b)"
    using r by (simp add: cur_ib_def)
  have "last_ie_len (bt_ib b) \<le> ib_real_size (bt_ib b)"
    using wf_ibD(7)[OF w] last_ie_len_end[OF wf_ibD(4)[OF w]] by simp
  then have "reset_cache_stack lv flags t = Some ?t"
    using cur slot_last[OF w] slot_first[OF w]
    by (simp add: reset_cache_stack_def get_last_ie_def get_first_ie_def Let_def)
  moreover have e: "extends lv t ?t" by (rule extends_position) (simp_all add: c)
  moreover have "stands lv ?t b [] ?i"
    using extendsD(4)[OF e r] by (simp add: stands_def on_stack_def)
  ultimately show thesis using that by blast
qed

text \<open>Going down reads the child and never mistakes the current block for it.\<close>

lemma child_read:
  assumes ok: "index_ok lv t b" and st: "stands lv t b is i" and kids: "bt_kids (bt_sub b is) \<noteq> []"
  defines "kid \<equiv> bt_kids (bt_sub b is) ! i"
  obtains p t' e where "cur_ie lv t = Some e" and "index_block_read lv (ie_vbn e) INDEX_MAGIC t = Some (0, t'\<lparr>t_cache := p\<rparr>)"
    and "extends lv t t'" and "get_ib lv t' p = Some (bt_ib kid)" and "block_view lv t' (ie_vbn e) = Some (bt_ib kid)"
    and "\<exists>c. cache_at lv t' p = Some c \<and> c_vbn c = ie_vbn e"
    and "same_handle t t'"
proof -
  let ?b = "bt_sub b is" and ?e = "slots_of (bt_ib (bt_sub b is)) ! i"
  have cok: "caches_ok lv t" using ok by (simp add: index_ok_def)
  have h: "holds (block_view lv t) ?b" and cur: "cur_ie lv t = Some ?e" using stands_block[OF ok st] by simp_all
  have "i \<le> nkeys (bt_ib ?b)" using st by (simp add: stands_def)
  then have ik: "i < length (bt_kids ?b)" using holds_kids(2)[OF h] kids by auto
  have v: "block_view lv t (ie_vbn ?e) = Some (bt_ib kid)" unfolding kid_def by (rule holds_kids(4)[OF h ik])
  obtain p t' where r: "index_block_read2 lv (ie_vbn ?e) INDEX_MAGIC t = Some (0, p, t')" and x: "extends lv t t'"
    and g: "get_ib lv t' p = Some (bt_ib kid)" and c: "\<exists>c. cache_at lv t' p = Some c \<and> c_vbn c = ie_vbn ?e"
    and t': "t' = core_set lv (core_of lv t') (t\<lparr>t_caches := t_caches t'\<rparr>)"
    by (rule index_block_read2_view[OF cok v])
  have s: "on_stack lv t (length is) (bt_ib ?b)" and tc: "t_cache t = t_cache_stack t (length is)"
    using st by (auto simp: stands_def)
  obtain d where d: "cache_at lv t (t_cache t) = Some d"
    using s tc by (auto simp: on_stack_def get_ib_def bind_eq_Some_conv)
  have "c_vbn d \<noteq> ie_vbn ?e"
  proof (cases "is = []")
    case True
    then show ?thesis using v d s tc by (auto simp: block_view_def on_stack_def)
  next
    case False
    then have "block_view lv t (c_vbn d) = Some (bt_ib ?b)" using s tc d by (simp add: on_stack_def)
    then show ?thesis using v kid_block[OF h ik] by (auto simp: kid_def)
  qed
  then have "index_block_read lv (ie_vbn ?e) INDEX_MAGIC t = Some (0, t'\<lparr>t_cache := p\<rparr>)"
    using d r by (simp add: index_block_read_def)
  moreover have "same_handle t t'" by (subst t') (simp add: same_handle_def)
  ultimately show thesis using that cur x g c v extendsD(2)[OF x] by simp
qed

lemma push_stands:
  assumes ok: "index_ok lv t b" and st: "stands lv t b is i" and kids: "bt_kids (bt_sub b is) \<noteq> []"
  obtains t' where "push_cache_stack lv flags t = Some (0, t')" and "extends lv t t'"
    and "stands lv t' b (is @ [i])
      (if flag flags (INDEX_GET_LAST OR INDEX_GET_PREV) then nkeys (bt_ib (bt_sub b (is @ [i]))) else 0)"
proof -
  let ?b = "bt_sub b is" and ?kid = "bt_sub b (is @ [i])"
  have k: "?kid = bt_kids ?b ! i" by (simp add: bt_sub_append)
  obtain p u e where cur: "cur_ie lv t = Some e" and r: "index_block_read lv (ie_vbn e) INDEX_MAGIC t = Some (0, u\<lparr>t_cache := p\<rparr>)"
    and x: "extends lv t u" and g: "get_ib lv u p = Some (bt_ib (bt_kids ?b ! i))"
    and v: "block_view lv u (ie_vbn e) = Some (bt_ib (bt_kids ?b ! i))"
    and c: "\<exists>c. cache_at lv u p = Some c \<and> c_vbn c = ie_vbn e" and u: "same_handle t u"
    by (rule child_read[OF ok st kids])
  have h: "holds (block_view lv t) ?b" by (rule stands_block[OF ok st])
  have i: "i \<le> nkeys (bt_ib ?b)" and path: "bt_path b is" and dep: "t_depth t = length is" using st by (simp_all add: stands_def)
  have ik: "i < length (bt_kids ?b)" using holds_kids(2)[OF h] kids i by auto
  have path': "bt_path b (is @ [i])" using path ik by (simp add: bt_path_append)
  have w: "wf_ib (bt_ib ?kid)" unfolding k by (rule holds_kids(1)[OF holds_kids(5)[OF h nth_mem[OF ik]]])
  have depth: "Suc (length is) \<le> TREE_MAX_DEPTH - 1"
    using bt_within_sub[OF _ path', of "TREE_MAX_DEPTH - 1"] ok by (simp add: index_ok_def)
  let ?j = "if flag flags (INDEX_GET_LAST OR INDEX_GET_PREV) then nkeys (bt_ib ?kid) else 0"
  define t' where "t' = u\<lparr>t_cache := p, t_position_stack := (t_position_stack u)(length is := t_position u),
    t_depth := Suc (length is), t_cache_stack := (t_cache_stack u)(Suc (length is) := p),
    t_max_depth := (if \<not> is_large (bt_ib ?kid) \<and> t_max_depth u \<noteq> Suc (length is) then Suc (length is) else t_max_depth u),
    t_ie := slot_pos (bt_ib ?kid) ?j, t_position := slot_pos (bt_ib ?kid) ?j\<rparr>"
  have "last_ie_len (bt_ib ?kid) \<le> ib_real_size (bt_ib ?kid)"
    using wf_ibD(7)[OF w] last_ie_len_end[OF wf_ibD(4)[OF w]] by simp
  then have "push_cache_stack lv flags t = Some (0, t')"
    using depth dep cur r u g slot_last[OF w] slot_first[OF w]
    by (simp add: push_cache_stack_def same_handle_def Let_def cur_ib_def get_last_ie_def get_first_ie_def k t'_def)
  moreover have x': "extends lv t t'"
    by (rule extends_trans[OF x]) (rule extends_position; simp add: t'_def extendsD(1)[OF x])
  moreover have "stands lv t' b (is @ [i]) ?j"
  proof -
    have "on_stack lv t' d (bt_ib (bt_sub b (take d (is @ [i]))))" if "d \<le> length (is @ [i])" for d
    proof (cases "d = Suc (length is)")
      case True
      have "block_view lv t' = block_view lv u" using extendsD(2)[OF x'] extendsD(2)[OF x] by simp
      then show ?thesis using True g v c by (auto simp: on_stack_def t'_def k)
    next
      case False
      then have "on_stack lv t d (bt_ib (bt_sub b (take d is)))" and "d \<le> length is" using st that by (auto simp: stands_def)
      then show ?thesis using on_stack_extends[OF _ x'] u False by (simp add: t'_def same_handle_def)
    qed
    then show ?thesis using st u path'
      by (auto simp: stands_def same_handle_def t'_def less_Suc_eq nth_append)
  qed
  ultimately show thesis using that by blast
qed

lemma next_stands:
  assumes ok: "index_ok lv t b" and st: "stands lv t b is i" and i: "i < nkeys (bt_ib (bt_sub b is))"
  obtains t' where "get_next_ie lv t = Some (0, t')" and "extends lv t t'" and "stands lv t' b is (Suc i)"
proof -
  let ?ib = "bt_ib (bt_sub b is)"
  let ?t = "t\<lparr>t_position := slot_pos ?ib (Suc i), t_ie := slot_pos ?ib (Suc i)\<rparr>"
  have w: "wf_ib ?ib" and cur: "cur_ib lv t = Some ?ib" and ie: "cur_ie lv t = Some (slots_of ?ib ! i)"
    using stands_block[OF ok st] by simp_all
  have key: "key_ie (is_large ?ib) (keys_of ?ib ! i)" using wf_ibD(3)[OF w] i by (simp add: nkeys_def)
  have x: "extends lv t ?t" by (rule extends_position) (use ok in \<open>simp_all add: index_ok_def\<close>)
  have st': "stands lv ?t b is (Suc i)"
    using st i on_stack_extends[OF _ x] by (simp add: stands_def)
  then have ie': "cur_ie lv ?t = Some (slots_of ?ib ! Suc i)" using stands_block(3)[OF index_ok_extends[OF ok x]] by simp
  have "slots_of ?ib ! Suc i \<in> set (ib_entries ?ib)" using w i by (simp add: wf_ibD(1,2) nkeys_def nth_append)
  then have pos: "0 < ie_len (slots_of ?ib ! Suc i)" using wf_pos[OF w] by blast
  have "t_ie t = slot_pos ?ib i" "t_position t = slot_pos ?ib i" using st by (simp_all add: stands_def)
  then have "get_next_ie lv t = Some (0, ?t)"
    using cur ie ie' pos slot_next[OF w i] slot_key[OF w i] key slot_less_real[OF w, of "Suc i"] i
    by (simp add: get_next_ie_def ie_flag Let_def)
  then show thesis using that x st' by blast
qed

lemma next_at_end:
  assumes ok: "index_ok lv t b" and st: "stands lv t b is (nkeys (bt_ib (bt_sub b is)))"
  shows "get_next_ie lv t = Some (- INDEX_ERR_NEXT_ENTRY, t)"
  using stands_block[OF ok st] wf_ibD(4)[OF stands_block(1)[OF ok st]] slot_end
  by (simp add: get_next_ie_def ie_flag)

lemma pop_stands:
  assumes ok: "index_ok lv t b" and st: "stands lv t b (is @ [k]) i"
  defines "t' \<equiv> t\<lparr>t_depth := length is, t_cache := t_cache_stack t (length is),
    t_position := t_position_stack t (length is), t_ie := t_position_stack t (length is)\<rparr>"
  shows "pop_cache_stack lv flags t = (if flag flags INDEX_GET_PREV then get_prev_ie lv t' else Some (0, t'))"
    and "extends lv t t'" and "stands lv t' b is k"
proof -
  show x: "extends lv t t'" unfolding t'_def by (rule extends_position) (use ok in \<open>simp_all add: index_ok_def\<close>)
  show "pop_cache_stack lv flags t = (if flag flags INDEX_GET_PREV then get_prev_ie lv t' else Some (0, t'))"
    using st by (simp add: pop_cache_stack_def stands_def t'_def Let_def)
  have path: "bt_path b is" "k < length (bt_kids (bt_sub b is))" using st by (auto simp: stands_def bt_path_append)
  have "holds (block_view lv t) (bt_sub b is)" using ok path holds_sub by (auto simp: index_ok_def)
  then have "k \<le> nkeys (bt_ib (bt_sub b is))" using path(2) holds_kids(2) by fastforce
  moreover have "on_stack lv t' d (bt_ib (bt_sub b (take d is)))" if "d \<le> length is" for d
  proof -
    have "\<forall>d \<le> Suc (length is). on_stack lv t d (bt_ib (bt_sub b (take d (is @ [k]))))"
      using st by (simp add: stands_def)
    from this[rule_format, of d] that have "on_stack lv t d (bt_ib (bt_sub b (take d is)))" by simp
    then show ?thesis using on_stack_extends[OF _ x] by (simp add: t'_def)
  qed
  moreover have "t_position_stack t d = slot_pos (bt_ib (bt_sub b (take d is))) ((is @ [k]) ! d)" if "d \<le> length is" for d
  proof -
    have "t_position_stack t d = slot_pos (bt_ib (bt_sub b (take d (is @ [k])))) ((is @ [k]) ! d)"
      using st that by (simp add: stands_def)
    then show ?thesis using that by simp
  qed
  ultimately show "stands lv t' b is k" using path by (auto simp: stands_def t'_def nth_append)
qed

lemma pop_at_root: "stands lv t b [] i \<Longrightarrow> pop_cache_stack lv flags t = Some (- INDEX_ERR_ROOT, t)"
  by (simp add: pop_cache_stack_def stands_def)

end

end
