(* ===== verification/Ofs_Index_Walk.thy ===== *)
theory Ofs_Index_Walk imports Ofs_Index_Tree
begin

unbundle bit_operations_syntax

text \<open>
  Walking and searching an index of any depth: the walk visits every key once and in order, and a
  search finds a key exactly when it is there.
\<close>

section \<open>To the next key\<close>

text \<open>The flags of a walk from the first key to the last that leaves the blocks alone.\<close>

definition forward :: "u8 \<Rightarrow> bool" where
  "forward flags \<longleftrightarrow> \<not> flag flags (INDEX_GET_LAST OR INDEX_GET_PREV) \<and> \<not> flag flags INDEX_GET_LAST \<and>
     \<not> flag flags INDEX_GET_PREV \<and> \<not> flag flags INDEX_REMOVE_BLOCK"

text \<open>The keys that follow an entry, those below it first.\<close>

definition bt_ahead :: "bt \<Rightarrow> nat list \<Rightarrow> nat \<Rightarrow> index_entry list" where
  "bt_ahead b is i =
     (if bt_kids (bt_sub b is) = [] then [] else bt_keys (bt_kids (bt_sub b is) ! i)) @ bt_after b is i"

lemma bt_after_rest:
  assumes "holds S (bt_sub b is)" and "i < nkeys (bt_ib (bt_sub b is))"
  shows "bt_after b is i = keys_of (bt_ib (bt_sub b is)) ! i # bt_ahead b is (Suc i)"
  using rest_keys(2)[OF assms]
  by (cases "is" rule: rev_cases) (simp_all add: bt_ahead_def bt_after_append)

lemma bt_after_end:
  assumes "holds S (bt_sub b (is @ [k]))"
  shows "bt_after b (is @ [k]) (nkeys (bt_ib (bt_sub b (is @ [k])))) = bt_after b is k"
  by (simp add: bt_after_append rest_keys(3)[OF assms])

lemma bt_ahead_child:
  assumes "holds S (bt_sub b (is @ [i]))" and "bt_kids (bt_sub b is) \<noteq> []"
  shows "bt_ahead b (is @ [i]) 0 = bt_ahead b is i"
proof -
  have k: "bt_sub b (is @ [i]) = bt_kids (bt_sub b is) ! i" by (simp add: bt_sub_append)
  have "bt_keys (bt_sub b (is @ [i])) =
      (if bt_kids (bt_sub b (is @ [i])) = [] then [] else bt_keys (bt_kids (bt_sub b (is @ [i])) ! 0)) @ bt_rest (bt_sub b (is @ [i])) 0"
    by (rule rest_keys(1)[OF assms(1)])
  then show ?thesis using assms(2) by (simp add: bt_ahead_def bt_after_append k)
qed

lemma bt_keys_ahead: "holds S b \<Longrightarrow> bt_keys b = bt_ahead b [] 0"
  using rest_keys(1) by (simp add: bt_ahead_def)

text \<open>The handle is at a key and these are the keys from it on.\<close>

definition at_key :: "'e levels \<Rightarrow> 'e object \<Rightarrow> bt \<Rightarrow> index_entry list \<Rightarrow> bool" where
  "at_key lv t b es \<longleftrightarrow>
     (\<exists>is i. stands lv t b is i \<and> i < nkeys (bt_ib (bt_sub b is)) \<and> es = bt_after b is i)"

lemma at_key_entry:
  assumes "index_ok lv t b" and "at_key lv t b es"
  shows "es \<noteq> []" and "cur_ie lv t = Some (hd es)"
proof -
  obtain "is" i where st: "stands lv t b is i" and i: "i < nkeys (bt_ib (bt_sub b is))" and es: "es = bt_after b is i"
    using assms(2) by (auto simp: at_key_def)
  have "es = keys_of (bt_ib (bt_sub b is)) ! i # bt_ahead b is (Suc i)"
    using bt_after_rest[OF stands_block(4)[OF assms(1) st] i] es by simp
  then show "es \<noteq> []" and "cur_ie lv t = Some (hd es)"
    using stands_block(3)[OF assms(1) st] slot_key[OF stands_block(1)[OF assms(1) st] i] by simp_all
qed

lemma at_keyI:
  assumes "index_ok lv t b" and "stands lv t b is i" and "i < nkeys (bt_ib (bt_sub b is))"
  shows "at_key lv t b (bt_after b is i)" and "bt_after b is i \<noteq> []"
proof -
  show "at_key lv t b (bt_after b is i)" using assms(2,3) unfolding at_key_def by blast
  show "bt_after b is i \<noteq> []" using bt_after_rest[OF stands_block(4)[OF assms(1,2)] assms(3)] by simp
qed

text \<open>What a walk leaves of a state that each key is shown to, until an error.\<close>

fun visit :: "(index_entry \<Rightarrow> 's \<Rightarrow> int \<times> 's) \<Rightarrow> index_entry list \<Rightarrow> 's \<Rightarrow> int \<times> 's" where
  "visit f [] s = (0, s)"
| "visit f (e # es) s = (let (r, s') = f e s in if r < 0 then (r, s') else visit f es s')"

text \<open>A callback that looks at the current key and leaves the index alone.\<close>

definition shows_key ::
  "'e levels \<Rightarrow> ('e object \<times> 's \<Rightarrow> int \<times> 'e object \<times> 's) \<Rightarrow> (index_entry \<Rightarrow> 's \<Rightarrow> int \<times> 's) \<Rightarrow> bool" where
  "shows_key lv cb f \<longleftrightarrow>
     (\<forall>t s e. cur_ie lv t = Some e \<longrightarrow> cb (t, s) = (fst (f e s), t, snd (f e s)))"

text \<open>How the key searched for compares with the keys of the index, which are ordered around it.
  A positive number is a larger key.\<close>

definition compares :: "'e object \<Rightarrow> u8 list \<Rightarrow> u8 list \<Rightarrow> (index_entry \<Rightarrow> int) \<Rightarrow> index_entry list \<Rightarrow> bool" where
  "compares t key value c es \<longleftrightarrow>
     (\<forall>e \<in> set es. collate_key (unat (t_attr_flags t AND 0xF)) e key value = Some (c e) \<and> c e \<noteq> - INDEX_ERR_COLLATE) \<and>
     sorted_wrt (\<lambda>x y. sgn (c x) \<le> sgn (c y)) es"

lemma sgn_bounds [simp]: "sgn (a :: int) \<le> - 1 \<longleftrightarrow> a < 0" "1 \<le> sgn (a :: int) \<longleftrightarrow> 0 < a"
  by (auto simp: sgn_if)

text \<open>Where a key that is not there belongs.\<close>

definition gap :: "(index_entry \<Rightarrow> int) \<Rightarrow> bt \<Rightarrow> nat list \<Rightarrow> nat \<Rightarrow> bool" where
  "gap c b is j \<longleftrightarrow> bt_kids (bt_sub b is) = [] \<and>
     (\<exists>lo. bt_keys b = lo @ bt_after b is j \<and> (\<forall>e \<in> set lo. c e < 0) \<and> (\<forall>e \<in> set (bt_after b is j). 0 < c e))"

context level_laws
begin

lemma go_down_stands:
  assumes "index_ok lv t b" and "stands lv t b is i" and "forward flags"
  shows "\<exists>t' js j. go_down lv flags t = Some (0, t') \<and> extends lv t t' \<and> stands lv t' b js j \<and>
    bt_kids (bt_sub b js) = [] \<and> bt_after b js j = bt_ahead b is i"
  using assms
proof (induction "size (bt_sub b is)" arbitrary: t "is" i rule: less_induct)
  case less
  let ?b = "bt_sub b is"
  have h: "holds (block_view lv t) ?b" and ie: "cur_ie lv t = Some (slots_of (bt_ib ?b) ! i)" and w: "wf_ib (bt_ib ?b)"
    using stands_block[OF less.prems(1,2)] by simp_all
  have i: "i \<le> nkeys (bt_ib ?b)" using less.prems(2) by (simp add: stands_def)
  have "slots_of (bt_ib ?b) ! i = (if i < nkeys (bt_ib ?b) then keys_of (bt_ib ?b) ! i else end_of (bt_ib ?b))"
    using slot_key[OF w] slot_end[OF w] i by (cases "i = nkeys (bt_ib ?b)") auto
  moreover have "key_ie (is_large (bt_ib ?b)) (keys_of (bt_ib ?b) ! i)" if "i < nkeys (bt_ib ?b)"
    using wf_ibD(3)[OF w] that by (simp add: nkeys_def)
  ultimately have node: "has_flag (slots_of (bt_ib ?b) ! i) INDEX_ENTRY_NODE \<longleftrightarrow> bt_kids ?b \<noteq> []"
    using wf_ibD(4)[OF w] holds_kids(3)[OF h] by (auto simp: ie_flag)
  show ?case
  proof (cases "bt_kids ?b = []")
    case True
    have "go_down lv flags t = Some (0, t)" using ie node True by (subst go_down.simps) simp
    moreover have "extends lv t t" by (rule extends_position) (use less.prems(1) in \<open>simp_all add: index_ok_def\<close>)
    ultimately show ?thesis using less.prems(2) True by (intro exI[of _ t] exI[of _ "is"] exI[of _ i]) (simp add: bt_ahead_def)
  next
    case False
    obtain t1 where p: "push_cache_stack lv flags t = Some (0, t1)" and x: "extends lv t t1"
      and st: "stands lv t1 b (is @ [i]) 0"
      using push_stands[OF less.prems(1,2) False, of flags] less.prems(3) by (auto simp: forward_def)
    have ok: "index_ok lv t1 b" by (rule index_ok_extends[OF less.prems(1) x])
    have "bt_sub b (is @ [i]) \<in> set (bt_kids ?b)"
      using False i holds_kids(2)[OF h] by (simp add: bt_sub_append)
    then have "size (bt_sub b (is @ [i])) < size ?b" by (rule kid_smaller)
    from less.hyps[OF this ok st less.prems(3)]
    obtain t' js j where g: "go_down lv flags t1 = Some (0, t')" "extends lv t1 t'" "stands lv t' b js j"
      "bt_kids (bt_sub b js) = []" "bt_after b js j = bt_ahead b (is @ [i]) 0" by blast
    have "go_down lv flags t = go_down lv flags t1" using ie node False p by (subst go_down.simps) simp
    then show ?thesis
      using g extends_trans[OF x] bt_ahead_child[OF stands_block(4)[OF ok st] False] by auto
  qed
qed

lemma go_up_stands:
  assumes "index_ok lv t b" and "stands lv t b is i" and "forward flags"
  shows "\<exists>t'. go_up lv flags t = Some (if bt_after b is i = [] then - INDEX_ERR_ROOT else 0, t') \<and> extends lv t t' \<and>
    (bt_after b is i \<noteq> [] \<longrightarrow> at_key lv t' b (bt_after b is i))"
  using assms
proof (induction "is" arbitrary: t i rule: rev_induct)
  case Nil
  let ?ib = "bt_ib b"
  have h: "holds (block_view lv t) b" and ie: "cur_ie lv t = Some (slots_of ?ib ! i)" and w: "wf_ib ?ib"
    using stands_block[OF Nil.prems(1,2)] by simp_all
  have x: "extends lv t t" by (rule extends_position) (use Nil.prems(1) in \<open>simp_all add: index_ok_def\<close>)
  show ?case
  proof (cases "i < nkeys ?ib")
    case True
    then have "key_ie (is_large ?ib) (slots_of ?ib ! i)" using wf_ibD(3)[OF w] slot_key[OF w True] by (simp add: nkeys_def)
    then have "go_up lv flags t = Some (0, t)" using ie by (subst go_up.simps) (simp add: ie_flag)
    then show ?thesis using x at_keyI[OF Nil.prems(1,2)] True by auto
  next
    case False
    then have i: "i = nkeys ?ib" using Nil.prems(2) by (simp add: stands_def)
    have "end_ie (is_large ?ib) (slots_of ?ib ! i)" using wf_ibD(4)[OF w] slot_end[OF w] i by simp
    then have "go_up lv flags t = Some (- INDEX_ERR_ROOT, t)"
      using ie Nil.prems(3) pop_at_root[OF Nil.prems(2)]
      by (subst go_up.simps) (simp add: ie_flag forward_def add_or_remove_ib_def)
    then show ?thesis using x rest_keys(3)[OF h] by (simp add: i)
  qed
next
  case (snoc k js)
  let ?b = "bt_sub b (js @ [k])"
  have h: "holds (block_view lv t) ?b" and ie: "cur_ie lv t = Some (slots_of (bt_ib ?b) ! i)" and w: "wf_ib (bt_ib ?b)"
    using stands_block[OF snoc.prems(1,2)] by simp_all
  have x: "extends lv t t" by (rule extends_position) (use snoc.prems(1) in \<open>simp_all add: index_ok_def\<close>)
  show ?case
  proof (cases "i < nkeys (bt_ib ?b)")
    case True
    then have "key_ie (is_large (bt_ib ?b)) (slots_of (bt_ib ?b) ! i)" using wf_ibD(3)[OF w] slot_key[OF w True] by (simp add: nkeys_def)
    then have "go_up lv flags t = Some (0, t)" using ie by (subst go_up.simps) (simp add: ie_flag)
    then show ?thesis using x at_keyI[OF snoc.prems(1,2) True] by auto
  next
    case False
    then have i: "i = nkeys (bt_ib ?b)" using snoc.prems(2) by (simp add: stands_def)
    define t1 where "t1 = t\<lparr>t_depth := length js, t_cache := t_cache_stack t (length js),
      t_position := t_position_stack t (length js), t_ie := t_position_stack t (length js)\<rparr>"
    have pop: "pop_cache_stack lv flags t = Some (0, t1)" and x1: "extends lv t t1" and st1: "stands lv t1 b js k"
      using pop_stands[OF snoc.prems(1,2)] snoc.prems(3) by (simp_all add: t1_def forward_def)
    have "end_ie (is_large (bt_ib ?b)) (slots_of (bt_ib ?b) ! i)" using wf_ibD(4)[OF w] slot_end[OF w] i by simp
    then have g: "go_up lv flags t = go_up lv flags t1"
      using ie snoc.prems(3) pop
      by (subst go_up.simps) (simp add: ie_flag forward_def add_or_remove_ib_def)
    show ?thesis
      using snoc.IH[OF index_ok_extends[OF snoc.prems(1) x1] st1 snoc.prems(3)] extends_trans[OF x1] bt_after_end[OF h]
      unfolding g i by auto
  qed
qed

lemma get_current_stands:
  assumes "index_ok lv t b" and "stands lv t b is i" and "forward flags"
  shows "\<exists>t'. get_current_ie lv flags t = Some (if bt_ahead b is i = [] then - INDEX_ERR_ROOT else 0, t') \<and>
    extends lv t t' \<and> (bt_ahead b is i \<noteq> [] \<longrightarrow> at_key lv t' b (bt_ahead b is i))"
proof -
  obtain t1 js j where d: "go_down lv flags t = Some (0, t1)" and x: "extends lv t t1" and st: "stands lv t1 b js j"
    and a: "bt_after b js j = bt_ahead b is i"
    using go_down_stands[OF assms] by blast
  obtain t' where "go_up lv flags t1 = Some (if bt_after b js j = [] then - INDEX_ERR_ROOT else 0, t')"
    "extends lv t1 t'" "bt_after b js j \<noteq> [] \<longrightarrow> at_key lv t' b (bt_after b js j)"
    using go_up_stands[OF index_ok_extends[OF assms(1) x] st assms(3)] by blast
  then show ?thesis using d a extends_trans[OF x] by (auto simp: get_current_ie_def)
qed

lemma walk_first:
  assumes "index_ok lv t b" and "forward flags" and "flag flags INDEX_GET_FIRST"
  shows "\<exists>t'. walk_tree lv flags t = Some (if bt_keys b = [] then - INDEX_ERR_ROOT else 0, t') \<and>
    extends lv t t' \<and> (bt_keys b \<noteq> [] \<longrightarrow> at_key lv t' b (bt_keys b))"
proof -
  have f: "flag flags (INDEX_GET_FIRST OR INDEX_GET_LAST)"
    unfolding flag_or using assms(3) by blast
  obtain t1 where r: "reset_cache_stack lv flags t = Some t1" and x: "extends lv t t1" and st: "stands lv t1 b [] 0"
    using reset_stands[OF assms(1), of flags] assms(2) by (auto simp: forward_def)
  have k: "bt_keys b = bt_ahead b [] 0" using assms(1) bt_keys_ahead by (auto simp: index_ok_def)
  show ?thesis
    using get_current_stands[OF index_ok_extends[OF assms(1) x] st assms(2)] f r extends_trans[OF x]
    unfolding k by (auto simp: walk_tree_def)
qed

lemma walk_next:
  assumes "index_ok lv t b" and "at_key lv t b (e # es)" and "forward flags" and "\<not> flag flags INDEX_GET_FIRST"
    and "\<not> flag flags INDEX_GET_CURRENT"
  shows "\<exists>t'. walk_tree lv flags t = Some (if es = [] then - INDEX_ERR_ROOT else 0, t') \<and>
    extends lv t t' \<and> (es \<noteq> [] \<longrightarrow> at_key lv t' b es)"
proof -
  obtain "is" i where st: "stands lv t b is i" and i: "i < nkeys (bt_ib (bt_sub b is))" and es: "e # es = bt_after b is i"
    using assms(2) by (auto simp: at_key_def)
  have es': "es = bt_ahead b is (Suc i)"
    using bt_after_rest[OF stands_block(4)[OF assms(1) st] i] es by simp
  obtain t1 where n: "get_next_ie lv t = Some (0, t1)" and x: "extends lv t t1" and st1: "stands lv t1 b is (Suc i)"
    by (rule next_stands[OF assms(1) st i])
  have f: "\<not> flag flags (INDEX_GET_FIRST OR INDEX_GET_LAST)" "\<not> flag flags INDEX_GET_PREV"
    using assms(3,4) unfolding flag_or forward_def by blast+
  show ?thesis
    using get_current_stands[OF index_ok_extends[OF assms(1) x] st1 assms(3)] f n extends_trans[OF x] assms(5)
    unfolding es' by (auto simp: walk_tree_def)
qed

section \<open>Counting and walking over all keys\<close>

lemma forward_flags: "forward 0" "forward INDEX_GET_FIRST"
  by (simp_all add: forward_def flag_def)

lemma total_loop_keys:
  assumes "index_ok lv t b" and "at_key lv t b es"
  shows "\<exists>t'. total_loop lv n t = Some (n + int (length es), t') \<and> extends lv t t'"
  using assms
proof (induction es arbitrary: t n)
  case Nil
  then show ?case using at_key_entry(1) by blast
next
  case (Cons e es)
  obtain t1 where w: "walk_tree lv 0 t = Some (if es = [] then - INDEX_ERR_ROOT else 0, t1)" and x: "extends lv t t1"
    and a: "es \<noteq> [] \<longrightarrow> at_key lv t1 b es"
    using walk_next[OF Cons.prems forward_flags(1)] by (auto simp: flag_def)
  show ?case
  proof (cases "es = []")
    case True
    then show ?thesis using w x by (subst total_loop.simps) auto
  next
    case False
    then obtain t' where "total_loop lv (n + 1) t1 = Some (n + 1 + int (length es), t')" "extends lv t1 t'"
      using Cons.IH[OF index_ok_extends[OF Cons.prems(1) x]] a by blast
    then show ?thesis using w False extends_trans[OF x] by (subst total_loop.simps) auto
  qed
qed

lemma total_key_count:
  assumes "index_ok lv t b"
  shows "\<exists>t'. index_get_total_key lv t = Some (int (length (bt_keys b)), t') \<and> extends lv t t'"
proof -
  obtain t1 where w: "walk_tree lv INDEX_GET_FIRST t = Some (if bt_keys b = [] then - INDEX_ERR_ROOT else 0, t1)"
    and x: "extends lv t t1" and a: "bt_keys b \<noteq> [] \<longrightarrow> at_key lv t1 b (bt_keys b)"
    using walk_first[OF assms forward_flags(2)] by (auto simp: flag_def)
  show ?thesis
  proof (cases "bt_keys b = []")
    case False
    then obtain t' where "total_loop lv 0 t1 = Some (int (length (bt_keys b)), t')" "extends lv t1 t'"
      using total_loop_keys[OF index_ok_extends[OF assms x], of "bt_keys b" 0] a by auto
    then show ?thesis using w False extends_trans[OF x] by (auto simp: index_get_total_key_def)
  qed (use w x in \<open>auto simp: index_get_total_key_def\<close>)
qed

lemma walk_flags:
  assumes "\<not> flag flags INDEX_REMOVE_BLOCK"
  shows "forward (flags AND NOT INDEX_WALK_MASK)" and "\<not> flag (flags AND NOT INDEX_WALK_MASK) INDEX_GET_FIRST"
    and "\<not> flag (flags AND NOT INDEX_WALK_MASK) INDEX_GET_CURRENT"
    and "forward (INDEX_GET_FIRST OR (flags AND NOT INDEX_WALK_MASK))"
    and "flag (INDEX_GET_FIRST OR (flags AND NOT INDEX_WALK_MASK)) INDEX_GET_FIRST"
  using assms by (simp_all add: forward_def flag_def bit.conj_disj_distrib2 and.assoc)

lemma index_walk_loop_keys:
  assumes "index_ok lv t b" and "at_key lv t b es" and "shows_key lv cb f"
    and "forward flags" and "\<not> flag flags INDEX_GET_FIRST" and "\<not> flag flags INDEX_GET_CURRENT"
  shows "\<exists>t'. index_walk_loop lv flags cb (t, s) = Some (fst (visit f es s), t', snd (visit f es s)) \<and> extends lv t t'"
  using assms(1,2)
proof (induction es arbitrary: t s)
  case Nil
  then show ?case using at_key_entry(1) by blast
next
  case (Cons e es)
  have x: "extends lv t t" by (rule extends_position) (use Cons.prems(1) in \<open>simp_all add: index_ok_def\<close>)
  have "cur_ie lv t = Some e" using at_key_entry(2)[OF Cons.prems] by simp
  then have cb: "cb (t, s) = (fst (f e s), t, snd (f e s))" using assms(3) by (simp add: shows_key_def)
  show ?case
  proof (cases "fst (f e s) < 0")
    case True
    then show ?thesis using cb x by (subst index_walk_loop.simps) (auto simp: Let_def split_beta)
  next
    case False
    obtain t1 where w: "walk_tree lv flags t = Some (if es = [] then - INDEX_ERR_ROOT else 0, t1)" and x1: "extends lv t t1"
      and a: "es \<noteq> [] \<longrightarrow> at_key lv t1 b es"
      using walk_next[OF Cons.prems assms(4-6)] by blast
    show ?thesis
    proof (cases "es = []")
      case True
      then show ?thesis using cb False w x1 by (subst index_walk_loop.simps) (auto simp: Let_def split_beta)
    next
      case ne: False
      then obtain t' where "index_walk_loop lv flags cb (t1, snd (f e s)) =
          Some (fst (visit f es (snd (f e s))), t', snd (visit f es (snd (f e s))))" "extends lv t1 t'"
        using Cons.IH[OF index_ok_extends[OF Cons.prems(1) x1]] a by blast
      then show ?thesis using cb False ne w extends_trans[OF x1]
        by (subst index_walk_loop.simps) (auto simp: Let_def split_beta)
    qed
  qed
qed

lemma index_walk_all_keys:
  assumes "index_ok lv t b" and "shows_key lv cb f" and "\<not> flag flags INDEX_REMOVE_BLOCK"
  shows "\<exists>t'. index_walk_all lv False flags cb (t, s) = Some (fst (visit f (bt_keys b) s), t', snd (visit f (bt_keys b) s)) \<and>
    extends lv t t'"
proof -
  let ?f1 = "INDEX_GET_FIRST OR (flags AND NOT INDEX_WALK_MASK)" and ?f2 = "flags AND NOT INDEX_WALK_MASK"
  obtain t1 where w: "walk_tree lv ?f1 t = Some (if bt_keys b = [] then - INDEX_ERR_ROOT else 0, t1)"
    and x: "extends lv t t1" and a: "bt_keys b \<noteq> [] \<longrightarrow> at_key lv t1 b (bt_keys b)"
    using walk_first[OF assms(1) walk_flags(4,5)[OF assms(3)]] by blast
  show ?thesis
  proof (cases "bt_keys b = []")
    case False
    then obtain t' where "index_walk_loop lv ?f2 cb (t1, s) = Some (fst (visit f (bt_keys b) s), t', snd (visit f (bt_keys b) s))"
      "extends lv t1 t'"
      using index_walk_loop_keys[OF index_ok_extends[OF assms(1) x] _ assms(2) walk_flags(1-3)[OF assms(3)], of "bt_keys b" s] a by blast
    then show ?thesis using w False extends_trans[OF x] by (auto simp: index_walk_all_def Let_def)
  qed (use w x in \<open>auto simp: index_walk_all_def Let_def\<close>)
qed

section \<open>Searching\<close>

lemma bt_ahead_key:
  assumes "holds S (bt_sub b is)" and "i < nkeys (bt_ib (bt_sub b is))"
  shows "bt_ahead b is i = (if bt_kids (bt_sub b is) = [] then [] else bt_keys (bt_kids (bt_sub b is) ! i)) @
    keys_of (bt_ib (bt_sub b is)) ! i # bt_ahead b is (Suc i)"
  using bt_after_rest[OF assms] by (simp add: bt_ahead_def)

lemma search_scan_stands:
  assumes "index_ok lv t b" and "stands lv t b is i" and "compares t key value c (bt_keys b)"
    and "bt_keys b = lo @ bt_ahead b is i" and "\<forall>e \<in> set lo. c e < 0"
  shows "\<exists>r t' j lo'. search_scan lv key value t = Some (r, t') \<and> extends lv t t' \<and> stands lv t' b is j \<and>
    bt_keys b = lo' @ bt_ahead b is j \<and> (\<forall>e \<in> set lo'. c e < 0) \<and>
    (if r = None then j < nkeys (bt_ib (bt_sub b is)) \<longrightarrow> 0 < c (keys_of (bt_ib (bt_sub b is)) ! j)
     else r = Some 0 \<and> j < nkeys (bt_ib (bt_sub b is)) \<and> c (keys_of (bt_ib (bt_sub b is)) ! j) = 0)"
  using assms
proof (induction "nkeys (bt_ib (bt_sub b is)) - i" arbitrary: t i lo)
  case 0
  let ?ib = "bt_ib (bt_sub b is)"
  have i: "i = nkeys ?ib" using 0 by (simp add: stands_def)
  have w: "wf_ib ?ib" and ie: "cur_ie lv t = Some (slots_of ?ib ! i)" using stands_block[OF 0(2,3)] by simp_all
  have x: "extends lv t t" by (rule extends_position) (use 0(2) in \<open>simp_all add: index_ok_def\<close>)
  have "end_ie (is_large ?ib) (slots_of ?ib ! i)" using wf_ibD(4)[OF w] slot_end[OF w] i by simp
  then have "search_scan lv key value t = Some (None, t)" using ie by (subst search_scan.simps) (simp add: ie_flag)
  then show ?case using 0 x i by (intro exI[of _ None] exI[of _ t] exI[of _ i] exI[of _ lo]) simp
next
  case (Suc n)
  let ?ib = "bt_ib (bt_sub b is)"
  let ?k = "keys_of ?ib ! i"
  have i: "i < nkeys ?ib" using Suc(2) by simp
  have w: "wf_ib ?ib" and ie: "cur_ie lv t = Some ?k" and h: "holds (block_view lv t) (bt_sub b is)"
    using stands_block[OF Suc(3,4)] slot_key[OF _ i] by simp_all
  have x: "extends lv t t" by (rule extends_position) (use Suc(3) in \<open>simp_all add: index_ok_def\<close>)
  have key: "key_ie (is_large ?ib) ?k" using wf_ibD(3)[OF w] i by (simp add: nkeys_def)
  let ?kid = "if bt_kids (bt_sub b is) = [] then [] else bt_keys (bt_kids (bt_sub b is) ! i)"
  have split: "bt_keys b = (lo @ ?kid) @ ?k # bt_ahead b is (Suc i)"
    using Suc(6) bt_ahead_key[OF h i] by simp
  have cmp: "collate_key (unat (t_attr_flags t AND 0xF)) ?k key value = Some (c ?k)" "c ?k \<noteq> - INDEX_ERR_COLLATE"
    and srt: "sorted_wrt (\<lambda>x y. sgn (c x) \<le> sgn (c y)) ((lo @ ?kid) @ ?k # bt_ahead b is (Suc i))"
    using Suc(5) unfolding compares_def split by auto
  consider "0 < c ?k" | "c ?k = 0" | "c ?k < 0" by linarith
  then show ?case
  proof cases
    case 1
    then have "search_scan lv key value t = Some (None, t)"
      using ie key cmp by (subst search_scan.simps) (simp add: ie_flag)
    then show ?thesis using Suc(4,6,7) x 1 by (intro exI[of _ None] exI[of _ t] exI[of _ i] exI[of _ lo]) simp
  next
    case 2
    then have "search_scan lv key value t = Some (Some 0, t)"
      using ie key cmp by (subst search_scan.simps) (simp add: ie_flag)
    then show ?thesis using Suc(4,6,7) x 2 i by (intro exI[of _ "Some 0"] exI[of _ t] exI[of _ i] exI[of _ lo]) simp
  next
    case 3
    obtain t1 where nx: "get_next_ie lv t = Some (0, t1)" and x1: "extends lv t t1" and st1: "stands lv t1 b is (Suc i)"
      by (rule next_stands[OF Suc(3,4) i])
    have low: "\<forall>e \<in> set (lo @ ?kid @ [?k]). c e < 0"
      using srt 3 Suc(7) by (auto simp: sorted_wrt_append)
    have "compares t1 key value c (bt_keys b)" using Suc(5) extendsD(6)[OF x1] by (simp add: compares_def)
    moreover have "n = nkeys ?ib - Suc i" using Suc(2) by simp
    moreover have "bt_keys b = (lo @ ?kid @ [?k]) @ bt_ahead b is (Suc i)" using split by simp
    ultimately have "\<exists>r t' j lo'. search_scan lv key value t1 = Some (r, t') \<and> extends lv t1 t' \<and> stands lv t' b is j \<and>
        bt_keys b = lo' @ bt_ahead b is j \<and> (\<forall>e \<in> set lo'. c e < 0) \<and>
        (if r = None then j < nkeys ?ib \<longrightarrow> 0 < c (keys_of ?ib ! j) else r = Some 0 \<and> j < nkeys ?ib \<and> c (keys_of ?ib ! j) = 0)"
      using Suc(1)[OF _ index_ok_extends[OF Suc(3) x1] st1 _ _ low] by blast
    then
    obtain r t' j lo' where r: "search_scan lv key value t1 = Some (r, t')" "extends lv t1 t'" "stands lv t' b is j"
      "bt_keys b = lo' @ bt_ahead b is j" "\<forall>e \<in> set lo'. c e < 0"
      "if r = None then j < nkeys ?ib \<longrightarrow> 0 < c (keys_of ?ib ! j) else r = Some 0 \<and> j < nkeys ?ib \<and> c (keys_of ?ib ! j) = 0"
      by blast
    have "search_scan lv key value t = search_scan lv key value t1"
      using ie key cmp 3 nx by (subst search_scan.simps) (simp add: ie_flag)
    then show ?thesis using r extends_trans[OF x1] by metis
  qed
qed

text \<open>Down the tree: what is before the block is smaller than the key, what comes after it larger.\<close>

lemma search_loop_stands:
  assumes "index_ok lv t b" and "stands lv t b is 0" and "compares t key value c (bt_keys b)"
    and "bt_keys b = lo @ bt_ahead b is 0" and "\<forall>e \<in> set lo. c e < 0"
    and "\<forall>e \<in> set (bt_after b is (nkeys (bt_ib (bt_sub b is)))). 0 < c e"
  shows "\<exists>ret t' js j. search_loop lv key value t = Some (ret, t') \<and> extends lv t t' \<and> stands lv t' b js j \<and>
    (if ret = 0 then j < nkeys (bt_ib (bt_sub b js)) \<and> c (keys_of (bt_ib (bt_sub b js)) ! j) = 0
     else ret = - INDEX_ERR_KEY_NOT_FOUND \<and> gap c b js j)"
  using assms
proof (induction "size (bt_sub b is)" arbitrary: t "is" lo rule: less_induct)
  case less
  let ?b = "bt_sub b is" and ?ib = "bt_ib (bt_sub b is)"
  obtain r t1 j lo' where s: "search_scan lv key value t = Some (r, t1)" and x: "extends lv t t1"
    and st: "stands lv t1 b is j" and k: "bt_keys b = lo' @ bt_ahead b is j" and low: "\<forall>e \<in> set lo'. c e < 0"
    and r: "if r = None then j < nkeys ?ib \<longrightarrow> 0 < c (keys_of ?ib ! j)
      else r = Some 0 \<and> j < nkeys ?ib \<and> c (keys_of ?ib ! j) = 0"
    using search_scan_stands[OF less.prems(1-5)] by blast
  have ok: "index_ok lv t1 b" by (rule index_ok_extends[OF less.prems(1) x])
  have h: "holds (block_view lv t1) ?b" and ie: "cur_ie lv t1 = Some (slots_of ?ib ! j)" and w: "wf_ib ?ib"
    using stands_block[OF ok st] by simp_all
  have cmp: "compares t1 key value c (bt_keys b)" using less.prems(3) extendsD(6)[OF x] by (simp add: compares_def)
  show ?case
  proof (cases r)
    case (Some q)
    then have "search_loop lv key value t = Some (0, t1)" using s r by (subst search_loop.simps) simp
    then show ?thesis using x st r Some by (intro exI[of _ 0] exI[of _ t1] exI[of _ "is"] exI[of _ j]) simp
  next
    case None
    have j: "j \<le> nkeys ?ib" using st by (simp add: stands_def)
    have high: "\<forall>e \<in> set (bt_after b is j). 0 < c e"
    proof (cases "j < nkeys ?ib")
      case True
      have "bt_after b is j = keys_of ?ib ! j # bt_ahead b is (Suc j)" by (rule bt_after_rest[OF h True])
      moreover have "0 < c (keys_of ?ib ! j)" using r None True by simp
      moreover have "sorted_wrt (\<lambda>x y. sgn (c x) \<le> sgn (c y)) (bt_keys b)" using cmp by (simp add: compares_def)
      ultimately show ?thesis unfolding k by (auto simp: bt_ahead_def sorted_wrt_append)
    next
      case False
      then show ?thesis using less.prems(6) j by simp
    qed
    have "slots_of ?ib ! j = (if j < nkeys ?ib then keys_of ?ib ! j else end_of ?ib)"
      using slot_key[OF w] slot_end[OF w] j by (cases "j = nkeys ?ib") auto
    moreover have "key_ie (is_large ?ib) (keys_of ?ib ! j)" if "j < nkeys ?ib"
      using wf_ibD(3)[OF w] that by (simp add: nkeys_def)
    ultimately have node: "has_flag (slots_of ?ib ! j) INDEX_ENTRY_NODE \<longleftrightarrow> bt_kids ?b \<noteq> []"
      using wf_ibD(4)[OF w] holds_kids(3)[OF h] by (auto simp: ie_flag)
    show ?thesis
    proof (cases "bt_kids ?b = []")
      case True
      then have "search_loop lv key value t = Some (- INDEX_ERR_KEY_NOT_FOUND, t1)"
        using s None ie node by (subst search_loop.simps) simp
      moreover have "gap c b is j" using True k low high by (auto simp: gap_def bt_ahead_def)
      ultimately show ?thesis using x st
        by (intro exI[of _ "- INDEX_ERR_KEY_NOT_FOUND"] exI[of _ t1] exI[of _ "is"] exI[of _ j]) simp
    next
      case False
      obtain t2 where p: "push_cache_stack lv 0 t1 = Some (0, t2)" and x2: "extends lv t1 t2"
        and st2: "stands lv t2 b (is @ [j]) 0"
        using push_stands[OF ok st False, of 0] by (auto simp: flag_def)
      have ok2: "index_ok lv t2 b" by (rule index_ok_extends[OF ok x2])
      have "bt_sub b (is @ [j]) \<in> set (bt_kids ?b)" using False j holds_kids(2)[OF h] by (simp add: bt_sub_append)
      then have sz: "size (bt_sub b (is @ [j])) < size ?b" by (rule kid_smaller)
      have h2: "holds (block_view lv t2) (bt_sub b (is @ [j]))" by (rule stands_block(4)[OF ok2 st2])
      have cmp2: "compares t2 key value c (bt_keys b)" using cmp extendsD(6)[OF x2] by (simp add: compares_def)
      have "bt_keys b = lo' @ bt_ahead b (is @ [j]) 0" using k bt_ahead_child[OF h2 False] by simp
      from less.hyps[OF sz ok2 st2 cmp2 this low] high
      obtain ret t' js i where l: "search_loop lv key value t2 = Some (ret, t')" "extends lv t2 t'" "stands lv t' b js i"
        "if ret = 0 then i < nkeys (bt_ib (bt_sub b js)) \<and> c (keys_of (bt_ib (bt_sub b js)) ! i) = 0
         else ret = - INDEX_ERR_KEY_NOT_FOUND \<and> gap c b js i"
        unfolding bt_after_end[OF h2] by blast
      have "search_loop lv key value t = search_loop lv key value t2"
        using s None ie node False p by (subst search_loop.simps) simp
      then have "search_loop lv key value t = Some (ret, t')" using l(1) by simp
      moreover have "extends lv t t'" by (rule extends_trans[OF extends_trans[OF x x2] l(2)])
      ultimately show ?thesis using l(3,4) by blast
    qed
  qed
qed

lemma key_of_tree:
  assumes "index_ok lv t b" and "stands lv t b is j" and "j < nkeys (bt_ib (bt_sub b is))"
  shows "keys_of (bt_ib (bt_sub b is)) ! j \<in> set (bt_keys b)"
proof -
  have sub: "set (bt_keys (bt_sub b' js)) \<subseteq> set (bt_keys b')" if "holds S b'" "bt_path b' js" for S b' js
    using that
  proof (induction js arbitrary: b')
    case (Cons k js)
    have kids: "bt_kids b' \<noteq> []" "k < length (bt_kids b')" using Cons.prems(2) by auto
    have w: "length css = Suc (length ks) \<Longrightarrow> xs \<in> set css \<Longrightarrow> set xs \<subseteq> set (weave css ks)" for css :: "index_entry list list" and ks xs
      by (induction css ks rule: weave.induct) auto
    have "set (bt_keys (bt_kids b' ! k)) \<subseteq> set (weave (map bt_keys (bt_kids b')) (keys_of (bt_ib b')))"
      using holds_kids(2)[OF Cons.prems(1)] kids by (intro w) (auto simp: nkeys_def)
    moreover have "weave (map bt_keys (bt_kids b')) (keys_of (bt_ib b')) = bt_keys b'" by (cases b') simp
    moreover have "set (bt_keys (bt_sub (bt_kids b' ! k) js)) \<subseteq> set (bt_keys (bt_kids b' ! k))"
      using Cons.IH[OF holds_kids(5)[OF Cons.prems(1) nth_mem[OF kids(2)]]] Cons.prems(2) by simp
    ultimately show ?case by auto
  qed simp
  have h: "holds (block_view lv t) b" "bt_path b is" using assms by (auto simp: index_ok_def stands_def)
  have "keys_of (bt_ib (bt_sub b is)) ! j \<in> set (bt_keys (bt_sub b is))"
  proof -
    have w: "css = [] \<or> length css = Suc (length ks) \<Longrightarrow> set ks \<subseteq> set (weave css ks)" for css :: "index_entry list list" and ks
      by (induction css ks rule: weave.induct) auto
    have "set (keys_of (bt_ib (bt_sub b is))) \<subseteq> set (weave (map bt_keys (bt_kids (bt_sub b is))) (keys_of (bt_ib (bt_sub b is))))"
      using holds_kids(2)[OF holds_sub[OF h]] by (intro w) (auto simp: nkeys_def)
    moreover have "weave (map bt_keys (bt_kids (bt_sub b is))) (keys_of (bt_ib (bt_sub b is))) = bt_keys (bt_sub b is)"
      by (cases "bt_sub b is") simp
    ultimately show ?thesis using assms(3) by (auto simp: nkeys_def)
  qed
  then show ?thesis using sub[OF h] by blast
qed

lemma search_key_stands:
  assumes "index_ok lv t b" and "compares t key value c (bt_keys b)"
  shows "\<exists>ret t' js j. search_key_internal lv key value t = Some (ret, t') \<and> extends lv t t' \<and> stands lv t' b js j \<and>
    (if ret = 0 then j < nkeys (bt_ib (bt_sub b js)) \<and> c (keys_of (bt_ib (bt_sub b js)) ! j) = 0
     else ret = - INDEX_ERR_KEY_NOT_FOUND \<and> gap c b js j)"
proof -
  obtain t1 where rs: "reset_cache_stack lv 0 t = Some t1" and x: "extends lv t t1" and st: "stands lv t1 b [] 0"
    using reset_stands[OF assms(1), of 0] by (auto simp: flag_def)
  have ok: "index_ok lv t1 b" by (rule index_ok_extends[OF assms(1) x])
  have h: "holds (block_view lv t1) b" using ok by (simp add: index_ok_def)
  have "compares t1 key value c (bt_keys b)" using assms(2) extendsD(6)[OF x] by (simp add: compares_def)
  from search_loop_stands[OF ok st this, of "[]"]
  obtain ret t' js j where l: "search_loop lv key value t1 = Some (ret, t')" and x': "extends lv t1 t'"
    and st': "stands lv t' b js j"
    and r: "if ret = 0 then j < nkeys (bt_ib (bt_sub b js)) \<and> c (keys_of (bt_ib (bt_sub b js)) ! j) = 0
         else ret = - INDEX_ERR_KEY_NOT_FOUND \<and> gap c b js j"
    using bt_keys_ahead[OF h] rest_keys(3)[OF h] by auto
  have "search_key_internal lv key value t = Some (ret, t')" using rs l by (simp add: search_key_internal_def)
  then show ?thesis using extends_trans[OF x x'] st' r by blast
qed

lemma gap_no_key: "gap c b js j \<Longrightarrow> e \<in> set (bt_keys b) \<Longrightarrow> c e \<noteq> 0"
  unfolding gap_def by (metis Un_iff less_irrefl set_append)

lemma search_key_keys:
  assumes "index_ok lv t b" and "compares t key value c (bt_keys b)"
  shows "\<exists>t'. extends lv t t' \<and>
    (if \<exists>e \<in> set (bt_keys b). c e = 0
     then search_key_internal lv key value t = Some (0, t') \<and>
       (\<exists>e \<in> set (bt_keys b). cur_ie lv t' = Some e \<and> c e = 0)
     else search_key_internal lv key value t = Some (- INDEX_ERR_KEY_NOT_FOUND, t') \<and>
       (\<exists>is j. stands lv t' b is j \<and> gap c b is j))"
proof -
  obtain ret t' js j where s: "search_key_internal lv key value t = Some (ret, t')" and x: "extends lv t t'"
    and st: "stands lv t' b js j"
    and r: "if ret = 0 then j < nkeys (bt_ib (bt_sub b js)) \<and> c (keys_of (bt_ib (bt_sub b js)) ! j) = 0
     else ret = - INDEX_ERR_KEY_NOT_FOUND \<and> gap c b js j"
    using search_key_stands[OF assms] by blast
  have ok: "index_ok lv t' b" by (rule index_ok_extends[OF assms(1) x])
  show ?thesis
  proof (cases "ret = 0")
    case True
    then have j: "j < nkeys (bt_ib (bt_sub b js))" and z: "c (keys_of (bt_ib (bt_sub b js)) ! j) = 0" using r by auto
    have "cur_ie lv t' = Some (keys_of (bt_ib (bt_sub b js)) ! j)"
      using stands_block(1,3)[OF ok st] slot_key[OF _ j] by simp
    then show ?thesis using s True z key_of_tree[OF ok st j] x by auto
  next
    case False
    then have g: "gap c b js j" and e: "ret = - INDEX_ERR_KEY_NOT_FOUND" using r by auto
    then show ?thesis using s e st g x gap_no_key[OF g] by auto
  qed
qed

end

end
