(* ===== verification/Ofs_Index_Root.thy ===== *)
theory Ofs_Index_Root imports Ofs_Index_Walk
begin

unbundle bit_operations_syntax

text \<open>
  An index whose keys fit into its root, as the indexes of the space managers do at first: inserting
  and removing keys act on the sequence of keys and allocate no block, because the root, once
  changed, is dirty and stays where it is.
\<close>

definition root_index :: "'e levels \<Rightarrow> 'e object \<Rightarrow> index_block \<Rightarrow> bool" where
  "root_index lv t ib \<longleftrightarrow> caches_ok lv t \<and> get_ib lv t (t_root t) = Some ib \<and> wf_ib ib \<and> \<not> is_large ib \<and>
     map_option CACHE_DIRTY (cache_at lv t (t_root t)) = Some True"

lemma root_index_ok: "root_index lv t ib \<Longrightarrow> index_ok lv t (Bt ib [])"
  by (simp add: root_index_def index_ok_def numeral_eq_Suc)

lemma root_keys: "bt_keys (Bt ib []) = keys_of ib" "bt_after (Bt ib []) [] j = drop j (keys_of ib)"
  "bt_ahead (Bt ib []) [] j = drop j (keys_of ib)"
proof -
  show "bt_keys (Bt ib []) = keys_of ib" by simp
  have "keys_from [] ks j = drop j ks" for ks :: "index_entry list"
    by (cases "drop j ks") (simp_all add: keys_from_def)
  then show "bt_after (Bt ib []) [] j = drop j (keys_of ib)" "bt_ahead (Bt ib []) [] j = drop j (keys_of ib)"
    by (simp_all add: bt_rest_def bt_ahead_def)
qed

lemma root_index_extends: "root_index lv t ib \<Longrightarrow> extends lv t t' \<Longrightarrow> root_index lv t' ib"
  by (auto simp: root_index_def extends_def frame_def)

lemma root_stands: "stands lv t (Bt ib []) is j \<Longrightarrow> is = []"
  by (cases "is") (simp_all add: stands_def)

context level_laws
begin

lemma malloc_extends:
  assumes "caches_ok lv t"
  obtains co where "malloc (core_of lv t) = (True, co)" and "extends lv t (core_set lv co t)"
proof
  let ?co = "(core_of lv t)\<lparr>co_mallocs := Suc (co_mallocs (core_of lv t))\<rparr>"
  let ?t = "core_set lv ?co t"
  show "malloc (core_of lv t) = (True, ?co)" using assms by (simp add: malloc_def caches_ok_def core_ok_def)
  have at: "cache_at lv ?t = cache_at lv t" by (simp add: cache_at_def fun_eq_iff)
  have ib: "get_ib lv ?t = get_ib lv t"
    by (simp add: get_ib_def at fun_eq_iff) (simp add: blk_of_def cong: option.case_cong blk.case_cong)
  have "co_meta (core_of lv ?t) = co_meta (core_of lv t)" "co_disk (core_of lv ?t) = co_disk (core_of lv t)" by simp_all
  then have "block_view lv ?t = block_view lv t" by (intro ext) (simp only: block_view_def at ib core_set_fields)
  moreover have "caches_ok lv ?t" using assms by (simp add: caches_ok_def at core_ok_def)
  moreover have "frame lv t ?t" by (simp add: frame_def core_kept_def root_caches_def) (simp add: core_set_def)
  ultimately show "extends lv t ?t" by (simp add: extends_def at ib)
qed

lemma stands_extends:
  assumes "stands lv t b is j" and "extends lv t t'" and "same_handle t t'" and "t_cache t' = t_cache t"
  shows "stands lv t' b is j"
  using assms(1,3,4) on_stack_extends[OF _ assms(2)] by (auto simp: stands_def same_handle_def)

text \<open>The root block is inside the inode, or a block of its own.\<close>

lemma put_root:
  assumes "root_index lv t ib" and "wf_ib ib'" and "\<not> is_large ib'"
  obtains t' where "put_ib lv (t_root t) ib' t = Some t'" and "root_index lv t' ib'" and "frame lv t t'"
    and "same_handle t t'" and "t_cache t' = t_cache t"
proof -
  let ?co = "core_of lv t"
  obtain c where c: "cache_at lv t (t_root t) = Some c" and d: "CACHE_DIRTY c" and g: "blk_of ?co (c_blk c) = Some ib"
    and ok: "caches_ok lv t"
    using assms(1) by (auto simp: root_index_def get_ib_def bind_eq_Some_conv)
  have "\<exists>x y y0. put_ib lv (t_root t) ib' t = Some (cache_set lv x y t) \<and> cache_at lv t x = Some y0 \<and>
    c_vbn y = c_vbn y0 \<and> c_state y = c_state y0 \<and> (\<forall>q. c_blk y \<noteq> InodeOf q) \<and>
    (x = t_root t \<and> (\<exists>a. c_blk c = Indx a) \<and> c_blk y = Indx ib' \<or>
     x \<noteq> t_root t \<and> c_blk c = InodeOf x \<and> (\<exists>i. c_blk y = Obje i \<and> ar_content (in_attr i) = Some ib'))"
  proof (cases "c_blk c")
    case (Indx a)
    then show ?thesis using c by (intro exI[of _ "t_root t"] exI[of _ "c\<lparr>c_blk := Indx ib'\<rparr>"] exI[of _ c]) (simp add: put_ib_def)
  next
    case (InodeOf q)
    then obtain d i where d: "cache_at lv t q = Some d" "c_blk d = Obje i"
      using g by (auto simp: blk_of_def cache_at_def split: option.splits blk.splits)
    then have "q \<noteq> t_root t" using c InodeOf by auto
    then show ?thesis using c d InodeOf
      by (intro exI[of _ q] exI[of _ "d\<lparr>c_blk := Obje (i\<lparr>in_attr := (in_attr i)\<lparr>ar_content := Some ib'\<rparr>\<rparr>)\<rparr>"] exI[of _ d])
        (simp add: put_ib_def)
  qed (use g in \<open>simp_all add: blk_of_def\<close>)
  then obtain x y y0 where p: "put_ib lv (t_root t) ib' t = Some (cache_set lv x y t)" and y0: "cache_at lv t x = Some y0"
    and y: "c_vbn y = c_vbn y0" "c_state y = c_state y0" "\<forall>q. c_blk y \<noteq> InodeOf q"
    and cs: "x = t_root t \<and> (\<exists>a. c_blk c = Indx a) \<and> c_blk y = Indx ib' \<or>
     x \<noteq> t_root t \<and> c_blk c = InodeOf x \<and> (\<exists>i. c_blk y = Obje i \<and> ar_content (in_attr i) = Some ib')"
    by blast
  define t' where "t' = cache_set lv x y t"
  have at: "cache_at lv t' q = (if q = x then Some y else cache_at lv t q)" for q
    by (simp add: t'_def cache_set_def cache_at_def put_cache_def)
  have co: "core_of lv t' = ?co\<lparr>co_heap := (co_heap ?co)(x \<mapsto> y)\<rparr>" by (simp add: t'_def cache_set_def put_cache_def)
  have hx: "co_heap ?co x = Some y0" using y0 by (simp add: cache_at_def)
  have f: "frame lv t t'"
  proof -
    have r: "t_root t' = t_root t" by (simp add: t'_def cache_set_def)
    have hc: "co_heap ?co (t_root t) = Some c" using c by (simp add: cache_at_def)
    then have x: "x \<in> own lv t" using cs by (auto simp: root_caches_def)
    have "own lv t' = own lv t" unfolding r using hc cs by (auto simp: root_caches_def co)
    moreover have "core_kept (own lv t) ?co (core_of lv t')" using x hx y(1) by (auto simp: core_kept_def co)
    ultimately show ?thesis unfolding frame_def
      by (simp add: co) (simp add: t'_def cache_set_def core_set_def put_cache_def get_set)
  qed
  have "core_ok (core_of lv t')"
    using ok hx y by (auto simp: caches_ok_def core_ok_def co split: if_splits)
  moreover have "t_caches t' = t_caches t" "t_root t' = t_root t" by (simp_all add: t'_def cache_set_def)
  ultimately have "caches_ok lv t'" using ok at y y0 by (fastforce simp: caches_ok_def co)
  moreover have "get_ib lv t' (t_root t) = Some ib'" using cs at c y0 by (auto simp: get_ib_def blk_of_def cache_at_def[symmetric])
  moreover have "map_option CACHE_DIRTY (cache_at lv t' (t_root t)) = Some True"
    using cs at c d y y0 by (auto simp: CACHE_DIRTY_def)
  ultimately have "root_index lv t' ib'" using assms(2,3) \<open>t_root t' = t_root t\<close> by (simp add: root_index_def)
  then show thesis using that p f by (simp add: t'_def same_handle_def cache_set_def)
qed

lemma root_set_dirty:
  assumes "root_index lv t ib" and "stands lv t b [] j"
  shows "set_ib_dirty lv t = Some (0, t)"
proof -
  have "t_depth t = 0" "t_cache_stack t 0 = t_root t" using assms(2) by (auto simp: stands_def on_stack_def)
  moreover obtain c where "cache_at lv t (t_root t) = Some c" "CACHE_DIRTY c" using assms(1) by (auto simp: root_index_def)
  ultimately show ?thesis by (simp add: set_ib_dirty_def dirty_step_def set_link_def)
qed

lemma root_at:
  assumes "root_index lv t ib" and "stands lv t (Bt ib []) [] j"
  shows "t_cache t = t_root t" and "t_depth t = 0" and "t_ie t = slot_pos ib j" and "cur_ib lv t = Some ib" and "j \<le> nkeys ib"
  using assms by (auto simp: stands_def on_stack_def cur_ib_def root_index_def)

lemma root_stands_at:
  assumes "root_index lv t' ib'" and "stands lv t (Bt ib []) [] j" and "same_handle t t'" and "t_cache t' = t_cache t"
    and "t_root t' = t_root t" and "slot_pos ib' j = slot_pos ib j" and "j \<le> nkeys ib'"
  shows "stands lv t' (Bt ib' []) [] j"
  using assms by (auto simp: stands_def on_stack_def same_handle_def root_index_def)

section \<open>Inserting at a position\<close>

lemma tree_insert_root:
  assumes r: "root_index lv t ib" and st: "stands lv t (Bt ib []) [] j" and k: "key_ie False e"
    and fits: "ib_real_size ib + ie_len e \<le> ib_alloc_size ib"
  obtains t' ib' where "tree_insert_ie lv e t = Some (0, t')" and "root_index lv t' ib'" and "frame lv t t'"
    and "contents ib' = take j (contents ib) @ ie_data e # drop j (contents ib)" and "ib_alloc_size ib' = ib_alloc_size ib"
    and "ib_real_size ib' = ib_real_size ib + ie_len e" and "stands lv t' (Bt ib' []) [] j"
proof -
  note at = root_at[OF r st]
  have w: "wf_ib ib" and s: "\<not> is_large ib" using r by (simp_all add: root_index_def)
  then have k': "key_ie (is_large ib) e" using k by simp
  obtain ib' where i: "insert_ie ib e (slot_pos ib j) = Some ib'" and w': "wf_ib ib'"
    and d: "map ie_data (slots_of ib') = take j (map ie_data (slots_of ib)) @ ie_data e # drop j (map ie_data (slots_of ib))"
    and p: "slot_pos ib' j = slot_pos ib j" and a: "ib_alloc_size ib' = ib_alloc_size ib" and n: "ib_node_type ib' = ib_node_type ib"
    by (rule insert_ie_slots[OF w at(5) k' fits])
  have con: "contents ib' = take j (contents ib) @ ie_data e # drop j (contents ib)"
    using insert_ie_contents[OF w at(5) k' fits] i by auto
  have real: "ib_real_size ib' = ib_real_size ib + ie_len e"
  proof -
    have "bytes (slots_of ib') = bytes (map ie_data (slots_of ib'))" by simp
    also have "\<dots> = bytes (map ie_data (slots_of ib)) + ie_len e"
      unfolding d bytes_insert by simp
    finally show ?thesis using w w' by (simp add: wf_ib_slots)
  qed
  obtain t' where pt: "put_ib lv (t_root t) ib' t = Some t'" and r': "root_index lv t' ib'" and f: "frame lv t t'"
    and sh: "same_handle t t'" and tc: "t_cache t' = t_cache t"
    using put_root[OF r w'] s n by auto
  have j': "j \<le> nkeys ib'"
  proof -
    have "nkeys ib' = length (take j (contents ib) @ ie_data e # drop j (contents ib))" using con by (metis contents_length)
    then show ?thesis using at(5) by simp
  qed
  have st': "stands lv t' (Bt ib' []) [] j"
    by (rule root_stands_at[OF r' st sh tc _ p j']) (use f in \<open>simp add: frame_def\<close>)
  have "change_ib lv (t_cache t) (\<lambda>ib. insert_ie ib e (t_ie t)) t = Some t'"
    using at i pt by (simp add: change_ib_def cur_ib_def)
  then have "tree_insert_ie lv e t = Some (0, t')"
    using at fits root_set_dirty[OF r' st'] by (subst tree_insert_ie.simps) simp
  then show thesis using that r' f con a real st' by blast
qed

section \<open>Removing at a position\<close>

lemma tree_remove_root:
  assumes r: "root_index lv t ib" and st: "stands lv t (Bt ib []) [] j" and j: "j < nkeys ib"
  obtains t' ib' where "tree_remove_ie lv t = Some (0, t')" and "root_index lv t' ib'" and "frame lv t t'"
    and "contents ib' = take j (contents ib) @ drop (Suc j) (contents ib)" and "ib_alloc_size ib' = ib_alloc_size ib"
    and "ib_real_size ib' + ie_len (keys_of ib ! j) = ib_real_size ib"
proof -
  note at = root_at[OF r st]
  have w: "wf_ib ib" and s: "\<not> is_large ib" using r by (simp_all add: root_index_def)
  have key: "key_ie False (keys_of ib ! j)" using wf_ibD(3)[OF w] j s by (simp add: nkeys_def)
  have ie: "cur_ie lv t = Some (keys_of ib ! j)"
    using stands_block(3)[OF root_index_ok[OF r] st] slot_key[OF w j] by simp
  obtain ib' where i: "remove_ie ib (slot_pos ib j) = Some ib'" and w': "wf_ib ib'"
    and d: "map ie_data (slots_of ib') = take j (map ie_data (slots_of ib)) @ drop (Suc j) (map ie_data (slots_of ib))"
    and a: "ib_alloc_size ib' = ib_alloc_size ib" and n: "ib_node_type ib' = ib_node_type ib"
    and real: "ib_real_size ib' + ie_len (keys_of ib ! j) = ib_real_size ib"
    by (rule remove_ie_slots[OF w j])
  have con: "contents ib' = take j (contents ib) @ drop (Suc j) (contents ib)"
    using remove_ie_keeps_block[OF w j] i by auto
  obtain t' where pt: "put_ib lv (t_root t) ib' t = Some t'" and r': "root_index lv t' ib'" and f: "frame lv t t'"
    and sh: "same_handle t t'" and tc: "t_cache t' = t_cache t"
    using put_root[OF r w'] s n by auto
  have j': "j \<le> nkeys ib'"
  proof -
    have "nkeys ib' = length (take j (contents ib) @ drop (Suc j) (contents ib))" using con by (metis contents_length)
    then show ?thesis using j by simp
  qed
  have take: "take j (map ie_data (slots_of ib')) = take j (map ie_data (slots_of ib))" using d j
    by (simp add: wf_ibD(2)[OF w] nkeys_def)
  have p: "slot_pos ib' j = slot_pos ib j"
    using arg_cong[OF take, of bytes] by (simp add: slot_pos_def take_map)
  have st': "stands lv t' (Bt ib' []) [] j"
    by (rule root_stands_at[OF r' st sh tc _ p j']) (use f in \<open>simp add: frame_def\<close>)
  have "change_ib lv (t_cache t) (\<lambda>ib. remove_ie ib (t_ie t)) t = Some t'"
    using at i pt by (simp add: change_ib_def cur_ib_def)
  moreover have "check_removed_ib lv t' = Some (0, t')"
    using root_at(2,4)[OF r' st'] ie_read_slot[OF w', of 0] slot_first[OF w'] by (simp add: check_removed_ib_def first_is_end_def)
  ultimately have "remove_leaf lv t = Some (0, t')"
    using root_set_dirty[OF r' st'] by (simp add: remove_leaf_def)
  then have "tree_remove_ie lv t = Some (0, t')" using ie key by (simp add: tree_remove_ie_def ie_flag)
  then show thesis using that r' f con a real by blast
qed

section \<open>Searching and inserting a key\<close>

lemma search_root:
  assumes r: "root_index lv t ib" and c: "compares t key value c (keys_of ib)"
  shows "\<exists>ret t' j. search_key_internal lv key value t = Some (ret, t') \<and> extends lv t t' \<and> root_index lv t' ib \<and>
    stands lv t' (Bt ib []) [] j \<and>
    (if ret = 0 then j < nkeys ib \<and> c (keys_of ib ! j) = 0
     else ret = - INDEX_ERR_KEY_NOT_FOUND \<and> (\<forall>e \<in> set (take j (keys_of ib)). c e < 0) \<and>
       (\<forall>e \<in> set (drop j (keys_of ib)). 0 < c e))"
proof -
  have c': "compares t key value c (bt_keys (Bt ib []))" using c by (simp only: root_keys)
  obtain ret t' js j where s: "search_key_internal lv key value t = Some (ret, t')" and x: "extends lv t t'"
    and st: "stands lv t' (Bt ib []) js j"
    and res: "if ret = 0 then j < nkeys (bt_ib (bt_sub (Bt ib []) js)) \<and> c (keys_of (bt_ib (bt_sub (Bt ib []) js)) ! j) = 0
     else ret = - INDEX_ERR_KEY_NOT_FOUND \<and> gap c (Bt ib []) js j"
    using search_key_stands[OF root_index_ok[OF r] c'] by blast
  have js: "js = []" by (rule root_stands[OF st])
  have "(\<forall>e \<in> set (take j (keys_of ib)). c e < 0) \<and> (\<forall>e \<in> set (drop j (keys_of ib)). 0 < c e)"
    if g: "gap c (Bt ib []) [] j"
  proof -
    obtain lo where k: "keys_of ib = lo @ drop j (keys_of ib)" and lo: "\<forall>e \<in> set lo. c e < 0"
      and hi: "\<forall>e \<in> set (drop j (keys_of ib)). 0 < c e"
      using g unfolding gap_def root_keys by blast
    have "lo = take j (keys_of ib)" using k by (metis append_same_eq append_take_drop_id)
    then show ?thesis using lo hi by simp
  qed
  then show ?thesis using s x st res js root_index_extends[OF r x]
    by (intro exI[of _ ret] exI[of _ t'] exI[of _ j]) auto
qed

text \<open>A new key goes between the smaller and the larger ones; a key that is there is refused.\<close>

lemma insert_key_root:
  assumes r: "root_index lv t ib" and c: "compares t key value c (keys_of ib)" and key: "key \<noteq> []"
    and fits: "ib_real_size ib + (ENTRY_END_SIZE + length key + length value) \<le> ib_alloc_size ib"
    and small: "ENTRY_END_SIZE + length key + length value < 2 ^ 16"
    and new: "\<forall>e \<in> set (keys_of ib). c e \<noteq> 0"
  obtains t' ib' j where "index_insert_key_nolock lv (Some key) value t = Some (0, t')" and "root_index lv t' ib'"
    and "frame lv t t'" and "ib_alloc_size ib' = ib_alloc_size ib"
    and "ib_real_size ib' = ib_real_size ib + (ENTRY_END_SIZE + length key + length value)"
    and "contents ib' = take j (contents ib) @
      \<lparr>ie_len = ENTRY_END_SIZE + length key + length value, ie_prev_len = 0, ie_flags = 0, ie_key = key, ie_value = value, ie_vbn = 0\<rparr> #
      drop j (contents ib)"
    and "\<forall>e \<in> set (take j (keys_of ib)). c e < 0" and "\<forall>e \<in> set (drop j (keys_of ib)). 0 < c e"
proof -
  let ?e = "\<lparr>ie_len = ENTRY_END_SIZE + length key + length value, ie_prev_len = 0, ie_flags = 0, ie_key = key, ie_value = value, ie_vbn = 0\<rparr>"
  obtain ret t1 j where s: "search_key_internal lv key value t = Some (ret, t1)" and x: "extends lv t t1" and r1: "root_index lv t1 ib"
    and st: "stands lv t1 (Bt ib []) [] j"
    and res: "if ret = 0 then j < nkeys ib \<and> c (keys_of ib ! j) = 0
     else ret = - INDEX_ERR_KEY_NOT_FOUND \<and> (\<forall>e \<in> set (take j (keys_of ib)). c e < 0) \<and> (\<forall>e \<in> set (drop j (keys_of ib)). 0 < c e)"
    using search_root[OF r c] by blast
  have ret: "ret = - INDEX_ERR_KEY_NOT_FOUND" and lo: "\<forall>e \<in> set (take j (keys_of ib)). c e < 0"
    and hi: "\<forall>e \<in> set (drop j (keys_of ib)). 0 < c e"
    using res new by (auto simp: nkeys_def split: if_splits)
  have "caches_ok lv t1" using r1 by (simp add: root_index_def)
  then obtain co where m: "malloc (core_of lv t1) = (True, co)" and x2: "extends lv t1 (core_set lv co t1)"
    by (rule malloc_extends)
  have r2: "root_index lv (core_set lv co t1) ib" by (rule root_index_extends[OF r1 x2])
  have st2: "stands lv (core_set lv co t1) (Bt ib []) [] j"
    by (rule stands_extends[OF st x2]) (simp_all add: same_handle_def)
  have k: "key_ie False ?e" using key small by (simp add: key_ie_def)
  obtain t' ib' where i: "tree_insert_ie lv ?e (core_set lv co t1) = Some (0, t')" and r': "root_index lv t' ib'"
    and f: "frame lv (core_set lv co t1) t'" and con: "contents ib' = take j (contents ib) @ ie_data ?e # drop j (contents ib)"
    and a: "ib_alloc_size ib' = ib_alloc_size ib" and real: "ib_real_size ib' = ib_real_size ib + ie_len ?e"
    by (rule tree_insert_root[OF r2 st2 k]) (use fits in simp)
  have "index_insert_key_nolock lv (Some key) value t = Some (0, t')"
    using key s ret m i small by (simp add: index_insert_key_nolock_def bad_key_def new_ie_def Let_def)
  moreover have "frame lv t t'" by (rule frame_trans[OF frame_trans[OF extendsD(8)[OF x] extendsD(8)[OF x2]] f])
  moreover have "ie_data ?e = ?e" by (simp add: ie_data_def)
  ultimately show thesis using that[OF _ r'] con a real lo hi by simp
qed

lemma insert_key_root_exists:
  assumes r: "root_index lv t ib" and c: "compares t key value c (keys_of ib)" and key: "key \<noteq> []"
    and dup: "\<exists>e \<in> set (keys_of ib). c e = 0"
  obtains t' where "index_insert_key_nolock lv (Some key) value t = Some (- INDEX_ERR_KEY_EXIST, t')"
    and "extends lv t t'" and "root_index lv t' ib"
proof -
  obtain ret t1 j where s: "search_key_internal lv key value t = Some (ret, t1)" and x: "extends lv t t1" and r1: "root_index lv t1 ib"
    and res: "if ret = 0 then j < nkeys ib \<and> c (keys_of ib ! j) = 0
     else ret = - INDEX_ERR_KEY_NOT_FOUND \<and> (\<forall>e \<in> set (take j (keys_of ib)). c e < 0) \<and> (\<forall>e \<in> set (drop j (keys_of ib)). 0 < c e)"
    using search_root[OF r c] by blast
  have "ret = 0"
  proof (rule ccontr)
    assume "ret \<noteq> 0"
    then have "c e \<noteq> 0" if "e \<in> set (keys_of ib)" for e
      using res that by (metis Un_iff append_take_drop_id less_irrefl set_append)
    then show False using dup by blast
  qed
  then have "index_insert_key_nolock lv (Some key) value t = Some (- INDEX_ERR_KEY_EXIST, t1)"
    using key s by (simp add: index_insert_key_nolock_def bad_key_def)
  then show thesis using that x r1 by blast
qed

end

end
