(* ===== verification/Ofs_Extents.thy ===== *)
theory Ofs_Extents imports Ofs_Index_Root Ofs_Space_Manager
begin

unbundle bit_operations_syntax

text \<open>
  The free extents of a space manager as a set of blocks. The index of a manager holds extents that
  are in order and do not overlap, and its searches, insertions and removals are the operations on
  that set. The index fits into its root.
\<close>

section \<open>Lists of extents\<close>

definition blocks :: "nat \<times> nat \<Rightarrow> nat set" where
  "blocks x = {fst x ..< fst x + snd x}"

definition free_set :: "(nat \<times> nat) list \<Rightarrow> nat set" where
  "free_set xs = (\<Union>x \<in> set xs. blocks x)"

definition extents_ordered :: "(nat \<times> nat) list \<Rightarrow> bool" where
  "extents_ordered xs \<longleftrightarrow> (\<forall>x \<in> set xs. 0 < snd x) \<and> sorted_wrt (\<lambda>x y. fst x + snd x \<le> fst y) xs"

text \<open>On which side of the blocks from \<open>s\<close> to \<open>s + n\<close> an extent lies; 0 is an overlap.\<close>

definition side :: "nat \<Rightarrow> nat \<Rightarrow> nat \<times> nat \<Rightarrow> int" where
  "side s n x = (if s + n \<le> fst x then 1 else if fst x + snd x \<le> s then - 1 else 0)"

lemma side_simps: "0 < n \<Longrightarrow> side s n x < 0 \<Longrightarrow> fst x + snd x \<le> s" "0 < side s n x \<Longrightarrow> s + n \<le> fst x"
  by (auto simp: side_def split: if_splits)

lemma side_overlap: "0 < n \<Longrightarrow> 0 < snd x \<Longrightarrow> side s n x = 0 \<longleftrightarrow> blocks x \<inter> {s ..< s + n} \<noteq> {}"
proof -
  assume "0 < n" "0 < snd x"
  moreover have "max (fst x) s \<in> blocks x \<inter> {s ..< s + n}" if "side s n x = 0"
    using that \<open>0 < n\<close> \<open>0 < snd x\<close> by (auto simp: side_def blocks_def max_def split: if_splits)
  ultimately show ?thesis by (auto simp: side_def blocks_def split: if_splits)
qed

lemma side_mono: "fst x + snd x \<le> fst y \<Longrightarrow> 0 < snd y \<Longrightarrow> sgn (side s n x) \<le> sgn (side s n y)"
  by (auto simp: side_def)

lemma free_set_simps [simp]: "free_set [] = {}" "free_set (x # xs) = blocks x \<union> free_set xs"
  "free_set (xs @ ys) = free_set xs \<union> free_set ys"
  by (auto simp: free_set_def)

lemma finite_free_set [simp]: "finite (free_set xs)"
  by (simp add: free_set_def blocks_def)

lemma free_set_empty: "extents_ordered xs \<Longrightarrow> free_set xs = {} \<longleftrightarrow> xs = []"
  by (cases xs) (auto simp: extents_ordered_def blocks_def)

lemma extents_insert:
  assumes "extents_ordered (xs @ ys)" and "\<forall>x \<in> set xs. side s n x < 0" and "\<forall>y \<in> set ys. 0 < side s n y" and "0 < n"
  shows "extents_ordered (xs @ (s, n) # ys)"
  using assms side_simps by (fastforce simp: extents_ordered_def sorted_wrt_append)

lemma extents_remove:
  assumes "extents_ordered (xs @ x # ys)"
  shows "extents_ordered (xs @ ys)" and "free_set (xs @ ys) = free_set (xs @ x # ys) - blocks x"
proof -
  show "extents_ordered (xs @ ys)" using assms by (auto simp: extents_ordered_def sorted_wrt_append)
  have "blocks x \<inter> free_set (xs @ ys) = {}"
    using assms by (fastforce simp: extents_ordered_def sorted_wrt_append free_set_def blocks_def)
  then show "free_set (xs @ ys) = free_set (xs @ x # ys) - blocks x" by auto
qed

lemma carve_end: "{a ..< e} \<subseteq> F \<Longrightarrow> b \<le> e \<Longrightarrow> F - {a ..< e} \<union> {a ..< b} = F - ({b ..< e} :: nat set)" if "a \<le> b"
  using that by fastforce

section \<open>Extents in an index\<close>

definition extent_of :: "index_entry \<Rightarrow> nat \<times> nat" where
  "extent_of e = (le_nat (ie_key e), le_nat (ie_value e))"

definition extent_ie :: "index_entry \<Rightarrow> bool" where
  "extent_ie e \<longleftrightarrow> length (ie_key e) \<in> {1..8} \<and> length (ie_value e) \<in> {1..8} \<and>
     snd (extent_of e) < 2 ^ 32 \<and> fst (extent_of e) + snd (extent_of e) \<le> 2 ^ 62"

text \<open>The index in the root block \<open>ib\<close> holds the extents \<open>xs\<close>.\<close>

definition extents_in :: "'e levels \<Rightarrow> 'e object \<Rightarrow> index_block \<Rightarrow> (nat \<times> nat) list \<Rightarrow> bool" where
  "extents_in lv t ib xs \<longleftrightarrow> root_index lv t ib \<and> unat (t_attr_flags t AND 0xF) = CR_EXTENT \<and>
     (\<forall>e \<in> set (contents ib). extent_ie e) \<and> map extent_of (contents ib) = xs \<and> extents_ordered xs"

text \<open>Each extent takes at most 25 bytes of the block.\<close>

definition capacity :: "index_block \<Rightarrow> nat" where
  "capacity ib = (ib_alloc_size ib - INDEX_BLOCK_SIZE - ENTRY_END_SIZE) div 25"

lemma data_fields [simp]: "ie_key (ie_data e) = ie_key e" "ie_value (ie_data e) = ie_value e" "ie_len (ie_data e) = ie_len e"
  "ie_flags (ie_data e) = ie_flags e"
  by (simp_all add: ie_data_def)

lemma extent_data [simp]: "extent_of (ie_data e) = extent_of e" "extent_ie (ie_data e) = extent_ie e"
  by (simp_all add: extent_of_def extent_ie_def)

lemma extents_inD:
  assumes "extents_in lv t ib xs"
  shows "root_index lv t ib" and "map extent_of (keys_of ib) = xs" and "length xs = nkeys ib" and "extents_ordered xs"
    and "\<forall>e \<in> set (keys_of ib). extent_ie e" and "unat (t_attr_flags t AND 0xF) = CR_EXTENT" and "wf_ib ib" and "\<not> is_large ib"
proof -
  show "map extent_of (keys_of ib) = xs" using assms by (auto simp: extents_in_def contents_def)
  then show "length xs = nkeys ib" by (auto simp: nkeys_def)
qed (use assms in \<open>auto simp: extents_in_def contents_def root_index_def\<close>)

lemma extents_in_real_size:
  assumes "extents_in lv t ib xs"
  shows "ib_real_size ib \<le> INDEX_BLOCK_SIZE + ENTRY_END_SIZE + 25 * length xs"
proof -
  note x = extents_inD[OF assms]
  have "bytes es \<le> 25 * length es" if "\<forall>e \<in> set es. ie_len e \<le> 25" for es
    using that by (induction es) (auto simp: bytes_def)
  moreover have "ie_len e \<le> 25" if "e \<in> set (keys_of ib)" for e
    using wf_ibD(3)[OF x(7) that] x(5,8) that by (fastforce simp: key_ie_def extent_ie_def)
  ultimately have "bytes (keys_of ib) \<le> 25 * nkeys ib" by (simp add: nkeys_def)
  moreover have "ie_len (end_of ib) = ENTRY_END_SIZE" using wf_ibD(4)[OF x(7)] x(8) by (simp add: end_ie_def)
  ultimately show ?thesis using wf_ibD(7)[OF x(7)] x(3) by simp
qed

lemma capacity_fits:
  assumes "extents_in lv t ib xs" and "length xs < capacity ib"
  shows "ib_real_size ib + 25 \<le> ib_alloc_size ib"
  using extents_in_real_size[OF assms(1)] assms(2) by (simp add: capacity_def)

lemma extents_in_extends:
  assumes "extents_in lv t ib xs" and "extends lv t t'"
  shows "extents_in lv t' ib xs"
  using assms(1) root_index_extends[OF _ assms(2)] extendsD(6)[OF assms(2)] by (simp add: extents_in_def)

lemma bstr_length: "length (os_u64_to_bstr w) \<in> {1..8}"
  using os_u64_size_spec[of w] by (simp add: length_os_u64_to_bstr)

lemma bstr_value [simp]: "le_nat (os_u64_to_bstr w) = unat w"
  by (simp add: os_u64_to_bstr_nat_le le_nat_nat_le os_u64_size_spec(3))

lemma bstr_not_empty [simp]: "os_u64_to_bstr w \<noteq> []"
  using bstr_length[of w] by auto

lemma bad_key_bstr [simp]: "\<not> bad_key (Some (os_u64_to_bstr w))"
  by (simp add: bad_key_def)

text \<open>The blocks from \<open>s\<close> on compare with the extents by the side they lie on.\<close>

lemma extents_compare:
  assumes x: "extents_in lv t ib xs" and n: "unat s + unat n \<le> 2 ^ 63"
  shows "compares t (os_u64_to_bstr s) (os_u64_to_bstr n) (\<lambda>e. side (unat s) (unat n) (extent_of e)) (keys_of ib)"
proof -
  note d = extents_inD[OF x]
  have "collate_key CR_EXTENT e (os_u64_to_bstr s) (os_u64_to_bstr n) = Some (side (unat s) (unat n) (extent_of e))"
    if "e \<in> set (keys_of ib)" for e
  proof -
    have "extent_ie e" using d(5) that by blast
    then show ?thesis using bstr_length[of s] bstr_length[of n] n
      by (simp add: collate_key_def extent_ie_def extent_of_def side_def os_collate_extent_eq)
  qed
  moreover have "side (unat s) (unat n) (extent_of e) \<noteq> - INDEX_ERR_COLLATE" for e by (simp add: side_def)
  moreover have "sorted_wrt (\<lambda>x y. sgn (side (unat s) (unat n) (extent_of x)) \<le> sgn (side (unat s) (unat n) (extent_of y))) (keys_of ib)"
  proof -
    have s: "sorted_wrt (\<lambda>x y. fst (extent_of x) + snd (extent_of x) \<le> fst (extent_of y)) (keys_of ib)"
      and pos: "\<forall>e \<in> set (keys_of ib). 0 < snd (extent_of e)"
      using d(2,4) by (auto simp: extents_ordered_def sorted_wrt_map)
    show ?thesis by (rule sorted_wrt_mono_rel[OF _ s]) (use pos side_mono in auto)
  qed
  ultimately show ?thesis unfolding compares_def d(6) by blast
qed

section \<open>Searching an extent\<close>

context level_laws
begin

lemma near_key_root:
  assumes "root_index lv t ib" and st: "stands lv t (Bt ib []) [] j"
  shows "get_to_near_key lv t = Some t"
proof -
  note at = root_at[OF assms]
  have w: "wf_ib ib" and ok: "index_ok lv t (Bt ib [])" using assms(1) root_index_ok by (auto simp: root_index_def)
  have c: "cur_ie lv t = Some (slots_of ib ! j)" using stands_block(3)[OF ok st] by simp
  have p: "pop_cache_stack lv 0 t = Some (- INDEX_ERR_ROOT, t)" using at(2) by (simp add: pop_cache_stack_def)
  show ?thesis by (subst get_to_near_key.simps) (simp add: c p)
qed

lemma search_extent:
  assumes x: "extents_in lv t ib xs" and n: "unat s + unat n \<le> 2 ^ 63"
  obtains ret t' j where "index_search_key_nolock lv (Some (os_u64_to_bstr s)) (os_u64_to_bstr n) t = Some (ret, t')"
    and "extends lv t t'" and "extents_in lv t' ib xs" and "stands lv t' (Bt ib []) [] j" and "j \<le> length xs"
    and "if ret = 0 then j < length xs \<and> side (unat s) (unat n) (xs ! j) = 0
     else ret = - INDEX_ERR_KEY_NOT_FOUND \<and> (\<forall>x \<in> set (take j xs). side (unat s) (unat n) x < 0) \<and>
       (\<forall>x \<in> set (drop j xs). 0 < side (unat s) (unat n) x)"
proof -
  note d = extents_inD[OF x]
  obtain ret t' j where s: "search_key_internal lv (os_u64_to_bstr s) (os_u64_to_bstr n) t = Some (ret, t')"
    and e: "extends lv t t'" and r: "root_index lv t' ib" and st: "stands lv t' (Bt ib []) [] j"
    and res: "if ret = 0 then j < nkeys ib \<and> side (unat s) (unat n) (extent_of (keys_of ib ! j)) = 0
     else ret = - INDEX_ERR_KEY_NOT_FOUND \<and> (\<forall>e \<in> set (take j (keys_of ib)). side (unat s) (unat n) (extent_of e) < 0) \<and>
       (\<forall>e \<in> set (drop j (keys_of ib)). 0 < side (unat s) (unat n) (extent_of e))"
    using search_root[OF d(1) extents_compare[OF x n]] by blast
  have "index_search_key_nolock lv (Some (os_u64_to_bstr s)) (os_u64_to_bstr n) t = Some (ret, t')"
    using s near_key_root[OF r st] by (simp add: index_search_key_nolock_def)
  moreover have "xs ! j = extent_of (keys_of ib ! j)" if "j < nkeys ib" using d(2) that by (auto simp: nkeys_def)
  moreover have "take j xs = map extent_of (take j (keys_of ib))" "drop j xs = map extent_of (drop j (keys_of ib))"
    using d(2) by (auto simp: take_map drop_map)
  moreover have "j \<le> length xs" using root_at(5)[OF r st] d(3) by simp
  ultimately show thesis using that[OF _ e extents_in_extends[OF x e] st] res d(3) by auto
qed

lemma cur_extent_root:
  assumes x: "extents_in lv t ib xs" and st: "stands lv t (Bt ib []) [] j" and j: "j < length xs"
  obtains addr len where "cur_extent lv t = Some (addr, len)" and "unat addr = fst (xs ! j)" and "unat len = snd (xs ! j)"
    and "cur_ie lv t = Some (keys_of ib ! j)" and "\<not> has_flag (keys_of ib ! j) INDEX_ENTRY_END"
proof -
  note d = extents_inD[OF x]
  let ?e = "keys_of ib ! j"
  have k: "?e \<in> set (keys_of ib)" using j d(3) by (simp add: nkeys_def)
  have at: "cur_ie lv t = Some ?e"
    using stands_block(3)[OF root_index_ok[OF d(1)] st] slot_key[OF d(7)] j d(3) by simp
  have "extent_ie ?e" using d(5) k by blast
  then have l: "length (ie_key ?e) \<le> 8" "length (ie_value ?e) \<le> 8" "le_nat (ie_value ?e) < 2 ^ 32"
    by (simp_all add: extent_ie_def extent_of_def)
  have x: "xs ! j = extent_of ?e" using d(2) j by auto
  have "unat (ucast (u32_of_u64 (u64_of_bytes (ie_value ?e))) :: u64) = le_nat (ie_value ?e)"
    using l by (simp add: unsigned_ucast_eq take_bit_eq_mod unat_mod_distrib unat_u64_of_bytes)
  moreover have "\<not> has_flag ?e INDEX_ENTRY_END" using wf_ibD(3)[OF d(7) k] by (simp add: ie_flag)
  ultimately show thesis using that at l x by (simp add: cur_extent_def os_bstr_to_u64_eq extent_of_def unat_u64_of_bytes)
qed

text \<open>The entry that an allocation takes from ends behind the start.\<close>

lemma find_extent_found:
  assumes x: "extents_in lv t ib xs" and n: "0 < n" "unat s + unat (ucast n :: u64) \<le> 2 ^ 63" and ne: "xs \<noteq> []"
  obtains s' t' j where "find_extent lv s n t = Some (0, s', t')" and "extends lv t t'" and "extents_in lv t' ib xs"
    and "stands lv t' (Bt ib []) [] j" and "j < length xs" and "unat s' < fst (xs ! j) + snd (xs ! j)"
proof -
  let ?n = "ucast n :: u64"
  have pos: "0 < snd (xs ! j)" if "j < length xs" for j using extents_inD(4)[OF x] that by (auto simp: extents_ordered_def)
  obtain ret t1 j where sr: "index_search_key_nolock lv (Some (os_u64_to_bstr s)) (os_u64_to_bstr ?n) t = Some (ret, t1)"
    and e1: "extends lv t t1" and x1: "extents_in lv t1 ib xs" and st1: "stands lv t1 (Bt ib []) [] j" and j: "j \<le> length xs"
    and res: "if ret = 0 then j < length xs \<and> side (unat s) (unat ?n) (xs ! j) = 0
     else ret = - INDEX_ERR_KEY_NOT_FOUND \<and> (\<forall>x \<in> set (take j xs). side (unat s) (unat ?n) x < 0) \<and>
       (\<forall>x \<in> set (drop j xs). 0 < side (unat s) (unat ?n) x)"
    by (rule search_extent[OF x n(2)])
  show thesis
  proof (cases "ret = 0")
    case True
    then have "j < length xs" and "unat s < fst (xs ! j) + snd (xs ! j)" using res by (auto simp: side_def split: if_splits)
    moreover have "find_extent lv s n t = Some (0, s, t1)" using sr True by (simp add: find_extent_def)
    ultimately show thesis using that e1 x1 st1 by blast
  next
    case False
    then have ret: "ret = - INDEX_ERR_KEY_NOT_FOUND" using res by simp
    note d = extents_inD[OF x1]
    have c: "cur_ie lv t1 = Some (slots_of ib ! j)" using stands_block(3)[OF root_index_ok[OF d(1)] st1] by simp
    show thesis
    proof (cases "j < length xs")
      case j: True
      obtain addr len where a: "cur_extent lv t1 = Some (addr, len)" "unat addr = fst (xs ! j)"
        and k: "cur_ie lv t1 = Some (keys_of ib ! j)" "\<not> has_flag (keys_of ib ! j) INDEX_ENTRY_END"
        by (rule cur_extent_root[OF x1 st1 j])
      have "find_extent lv s n t = Some (0, addr, t1)" using sr ret a k by (simp add: find_extent_def)
      then show thesis using that[OF _ e1 x1 st1 j] a pos[OF j] by simp
    next
      case False
      then have last: "has_flag (slots_of ib ! j) INDEX_ENTRY_END"
        using j d(3) slot_end[OF d(7)] wf_ibD(4)[OF d(7)] by (simp add: ie_flag)
      have keys: "keys_of ib \<noteq> []" using ne d(2) by auto
      obtain t' where w: "walk_tree lv INDEX_GET_FIRST t1 = Some (0, t')" and e2: "extends lv t1 t'"
        and k: "at_key lv t' (Bt ib []) (keys_of ib)"
        using walk_first[OF root_index_ok[OF d(1)] forward_flags(2)] keys unfolding root_keys by (auto simp: flag_def)
      obtain "is" i where st0: "stands lv t' (Bt ib []) is i" and i0: "i < nkeys (bt_ib (bt_sub (Bt ib []) is))"
        using k unfolding at_key_def by blast
      have "is = []" by (rule root_stands[OF st0])
      then have st: "stands lv t' (Bt ib []) [] i" and i: "i < length xs" using st0 i0 d(3) by simp_all
      have x': "extents_in lv t' ib xs" by (rule extents_in_extends[OF x1 e2])
      obtain addr len where a: "cur_extent lv t' = Some (addr, len)" "unat addr = fst (xs ! i)"
        by (rule cur_extent_root[OF x' st i])
      have "find_extent lv s n t = Some (0, addr, t')" using sr ret c last w a by (simp add: find_extent_def)
      then show thesis using that[OF _ extends_trans[OF e1 e2] x' st i] a pos[OF i] by simp
    qed
  qed
qed

lemma find_extent_empty:
  assumes x: "extents_in lv t ib []" and n: "0 < n" "unat s + unat (ucast n :: u64) \<le> 2 ^ 63"
  obtains t' where "find_extent lv s n t = Some (- INDEX_ERR_NO_FREE_BLOCKS, s, t')" and "extends lv t t'"
proof -
  let ?n = "ucast n :: u64"
  obtain ret t1 j where sr: "index_search_key_nolock lv (Some (os_u64_to_bstr s)) (os_u64_to_bstr ?n) t = Some (ret, t1)"
    and e1: "extends lv t t1" and x1: "extents_in lv t1 ib []" and st1: "stands lv t1 (Bt ib []) [] j" and j: "j \<le> length ([] :: (nat \<times> nat) list)"
    and res: "if ret = 0 then j < length ([] :: (nat \<times> nat) list) \<and> side (unat s) (unat ?n) ([] ! j) = 0
     else ret = - INDEX_ERR_KEY_NOT_FOUND \<and> (\<forall>x \<in> set (take j []). side (unat s) (unat ?n) x < 0) \<and>
       (\<forall>x \<in> set (drop j []). 0 < side (unat s) (unat ?n) x)"
    by (rule search_extent[OF x n(2)])
  then have ret: "ret = - INDEX_ERR_KEY_NOT_FOUND" by (simp split: if_splits)
  note d = extents_inD[OF x1]
  have c: "cur_ie lv t1 = Some (slots_of ib ! j)" using stands_block(3)[OF root_index_ok[OF d(1)] st1] by simp
  have "has_flag (slots_of ib ! j) INDEX_ENTRY_END"
    using j d(3) slot_end[OF d(7)] wf_ibD(4)[OF d(7)] by (simp add: ie_flag)
  moreover obtain t' where "walk_tree lv INDEX_GET_FIRST t1 = Some (- INDEX_ERR_ROOT, t')" and e2: "extends lv t1 t'"
    using walk_first[OF root_index_ok[OF d(1)] forward_flags(2)] d(2) unfolding root_keys by (auto simp: flag_def)
  ultimately have "find_extent lv s n t = Some (- INDEX_ERR_NO_FREE_BLOCKS, s, t')" using sr ret c by (simp add: find_extent_def)
  then show thesis using that extends_trans[OF e1 e2] by blast
qed

section \<open>Inserting an extent\<close>

lemma insert_extent_root:
  assumes x: "extents_in lv t ib xs" and n: "0 < unat n" "unat n < 2 ^ 32" "unat s + unat n \<le> 2 ^ 62"
    and room: "length xs < capacity ib" and new: "free_set xs \<inter> {unat s ..< unat s + unat n} = {}"
  obtains t' ib' xs' where "insert_extent lv s n t = Some (0, t')" and "extents_in lv t' ib' xs'" and "frame lv t t'"
    and "capacity ib' = capacity ib" and "length xs' = Suc (length xs)"
    and "free_set xs' = free_set xs \<union> {unat s ..< unat s + unat n}"
proof -
  note d = extents_inD[OF x]
  let ?c = "\<lambda>e. side (unat s) (unat n) (extent_of e)"
  let ?e = "\<lparr>ie_len = ENTRY_END_SIZE + length (os_u64_to_bstr s) + length (os_u64_to_bstr n), ie_prev_len = 0, ie_flags = 0,
    ie_key = os_u64_to_bstr s, ie_value = os_u64_to_bstr n, ie_vbn = 0\<rparr>"
  have e: "extent_of ?e = (unat s, unat n)" by (simp add: extent_of_def)
  then have ee: "extent_ie ?e" using n bstr_length by (simp add: extent_ie_def)
  have free: "free_set xs = (\<Union>e \<in> set (keys_of ib). blocks (extent_of e))" unfolding free_set_def d(2)[symmetric] by simp
  have "?c e \<noteq> 0" if "e \<in> set (keys_of ib)" for e
  proof -
    have "0 < snd (extent_of e)" using d(2,4) that by (auto simp: extents_ordered_def)
    then show ?thesis using new that n(1) unfolding free by (auto simp: side_overlap)
  qed
  moreover have "ib_real_size ib + (ENTRY_END_SIZE + length (os_u64_to_bstr s) + length (os_u64_to_bstr n)) \<le> ib_alloc_size ib"
    using capacity_fits[OF x room] bstr_length[of s] bstr_length[of n] by simp
  moreover have "ENTRY_END_SIZE + length (os_u64_to_bstr s) + length (os_u64_to_bstr n) < 2 ^ 16"
    using bstr_length[of s] bstr_length[of n] by simp
  moreover have m: "unat s + unat n \<le> 2 ^ 63" using n(3) by simp
  ultimately obtain t' ib' j where i: "index_insert_key_nolock lv (Some (os_u64_to_bstr s)) (os_u64_to_bstr n) t = Some (0, t')"
    and r': "root_index lv t' ib'" and f: "frame lv t t'" and a: "ib_alloc_size ib' = ib_alloc_size ib"
    and con: "contents ib' = take j (contents ib) @ ?e # drop j (contents ib)"
    and lo: "\<forall>e \<in> set (take j (keys_of ib)). ?c e < 0" and hi: "\<forall>e \<in> set (drop j (keys_of ib)). 0 < ?c e"
    using insert_key_root[OF d(1) extents_compare[OF x m]] by (metis bstr_not_empty)
  let ?xs = "take j xs @ (unat s, unat n) # drop j xs"
  have old: "map extent_of (contents ib) = xs" "\<forall>e \<in> set (contents ib). extent_ie e" using x by (simp_all add: extents_in_def)
  have td: "take j xs = map extent_of (take j (keys_of ib))" "drop j xs = map extent_of (drop j (keys_of ib))"
    using d(2) by (auto simp: take_map drop_map)
  have "extents_ordered (take j xs @ drop j xs)" using d(4) by simp
  moreover have "\<forall>x \<in> set (take j xs). side (unat s) (unat n) x < 0" "\<forall>x \<in> set (drop j xs). 0 < side (unat s) (unat n) x"
    unfolding td using lo hi by simp_all
  ultimately have "extents_ordered ?xs" using n(1) by (rule extents_insert)
  moreover have "map extent_of (contents ib') = ?xs" unfolding con using old(1) e by (auto simp: take_map drop_map)
  moreover have "\<forall>e \<in> set (contents ib'). extent_ie e"
    unfolding con using old(2) ee by (auto dest: in_set_takeD in_set_dropD)
  ultimately have "extents_in lv t' ib' ?xs" using r' f d(6) by (simp add: extents_in_def frame_def)
  moreover have "free_set ?xs = free_set xs \<union> {unat s ..< unat s + unat n}"
  proof -
    have "free_set xs = free_set (take j xs) \<union> free_set (drop j xs)" by (metis append_take_drop_id free_set_simps(3))
    then show ?thesis by (auto simp: blocks_def)
  qed
  moreover have "length ?xs = Suc (length xs)" by simp
  ultimately show thesis using that[OF _ _ f] i a by (simp add: insert_extent_def capacity_def)
qed

lemma insert_extent_overlap:
  assumes x: "extents_in lv t ib xs" and n: "unat s + unat n \<le> 2 ^ 63"
    and dup: "free_set xs \<inter> {unat s ..< unat s + unat n} \<noteq> {}"
  obtains t' where "insert_extent lv s n t = Some (- INDEX_ERR_KEY_EXIST, t')" and "extends lv t t'" and "extents_in lv t' ib xs"
proof -
  note d = extents_inD[OF x]
  obtain y where y: "y \<in> set xs" "blocks y \<inter> {unat s ..< unat s + unat n} \<noteq> {}" using dup by (auto simp: free_set_def)
  then have "0 < unat n" "0 < snd y" using d(4) by (auto simp: extents_ordered_def)
  then have "side (unat s) (unat n) y = 0" using y(2) side_overlap by blast
  then have "\<exists>e \<in> set (keys_of ib). side (unat s) (unat n) (extent_of e) = 0" using y(1) d(2) by auto
  then obtain t' where "index_insert_key_nolock lv (Some (os_u64_to_bstr s)) (os_u64_to_bstr n) t = Some (- INDEX_ERR_KEY_EXIST, t')"
    and e: "extends lv t t'"
    using insert_key_root_exists[OF d(1) extents_compare[OF x n]] by (metis bstr_not_empty)
  then show thesis using that extents_in_extends[OF x e] by (simp add: insert_extent_def)
qed

section \<open>Removing the extent found\<close>

lemma remove_extent_root:
  assumes x: "extents_in lv t ib xs" and st: "stands lv t (Bt ib []) [] j" and j: "j < length xs"
  obtains t' ib' xs' where "tree_remove_ie lv t = Some (0, t')" and "extents_in lv t' ib' xs'" and "frame lv t t'"
    and "capacity ib' = capacity ib" and "Suc (length xs') = length xs" and "free_set xs' = free_set xs - blocks (xs ! j)"
proof -
  note d = extents_inD[OF x]
  obtain t' ib' where r: "tree_remove_ie lv t = Some (0, t')" and r': "root_index lv t' ib'" and f: "frame lv t t'"
    and con: "contents ib' = take j (contents ib) @ drop (Suc j) (contents ib)" and a: "ib_alloc_size ib' = ib_alloc_size ib"
    by (rule tree_remove_root[OF d(1) st]) (use j d(3) in simp)
  let ?xs = "take j xs @ drop (Suc j) xs"
  have old: "map extent_of (contents ib) = xs" "\<forall>e \<in> set (contents ib). extent_ie e" using x by (simp_all add: extents_in_def)
  have xs: "xs = take j xs @ xs ! j # drop (Suc j) xs" using j by (rule id_take_nth_drop)
  have o: "extents_ordered (take j xs @ xs ! j # drop (Suc j) xs)" using d(4) xs by simp
  have "map extent_of (contents ib') = ?xs" unfolding con using old(1) by (auto simp: take_map drop_map)
  moreover have "\<forall>e \<in> set (contents ib'). extent_ie e"
    unfolding con using old(2) by (auto dest: in_set_takeD in_set_dropD)
  ultimately have "extents_in lv t' ib' ?xs" using r' f d(6) extents_remove(1)[OF o] by (simp add: extents_in_def frame_def)
  moreover have "free_set ?xs = free_set xs - blocks (xs ! j)" using extents_remove(2)[OF o] xs by simp
  moreover have "Suc (length ?xs) = length xs" using j by simp
  ultimately show thesis using that[OF r _ f] a by (simp add: capacity_def)
qed

end

end
