(* ===== verification/Ofs_Cache_Spec.thy ===== *)
theory Ofs_Cache_Spec imports Ofs_Index_View
begin

unbundle bit_operations_syntax

text \<open>
  What the metadata cache promises: the contents of a container, seen through its dirty caches, do
  not change when the caches are written to the disk, whatever writes fail. After a read that fails
  the cache of the block stays in the trees, and the next read takes it for the block.
\<close>

section \<open>The contents of a container\<close>





lemma clean_not_dirty [simp]: "\<not> CACHE_DIRTY (c\<lparr>c_state := CLEAN\<rparr>)"
  by (simp add: CACHE_DIRTY_def)

section \<open>Writing one cache\<close>



section \<open>Writing all of them\<close>



section \<open>Properties\<close>


section \<open>A failed read\<close>

context level_laws
begin

lemma failed_read:
  assumes ok: "caches_ok lv t" and miss: "map_of (t_caches t) v = None"
    and meta: "v \<notin> fst ` set (co_meta (core_of lv t))" and disk: "co_disk (core_of lv t) v = None"
  obtains p t' where "index_block_read2 lv v oid t = Some (- FILE_BLOCK_ERR_INVALID_OBJECT, 0, t')"
    and "index_block_read2 lv v oid t' = Some (0, p, t')" and "cache_at lv t' p = Some \<lparr>c_vbn = v, c_state = EMPTY, c_blk = Raw\<rparr>"
proof -
  note f = caches_ok_fresh[OF ok miss]
  let ?p = "co_next (core_of lv t)"
  obtain ns ms where a: "alloc_obj_cache lv v t =
      Some (?p, core_set lv ((core_of lv t)\<lparr>co_heap := (co_heap (core_of lv t))(?p \<mapsto> \<lparr>c_vbn = v, c_state = EMPTY, c_blk = Raw\<rparr>),
        co_next := Suc ?p, co_mallocs := Suc (Suc (co_mallocs (core_of lv t))), co_meta := ms\<rparr>) (t\<lparr>t_caches := ns\<rparr>))" (is "_ = Some (_, ?t)")
    and n: "map_of ns = (map_of (t_caches t))(v \<mapsto> ?p)" and "set ns = insert (v, ?p) (set (t_caches t))"
    and "set ms = insert (v, ?p) (set (co_meta (core_of lv t)))" and z: "0 < ?p"
    by (rule alloc_cache_ok[OF f(1,2) meta f(3)])
  have "index_block_read2 lv v oid t = Some (- FILE_BLOCK_ERR_INVALID_OBJECT, 0, ?t)"
    using miss disk z a by (simp add: index_block_read2_def cache_at_def read_block_def)
  moreover have "index_block_read2 lv v oid ?t = Some (0, ?p, ?t)" using n by (simp add: index_block_read2_def)
  moreover have "cache_at lv ?t ?p = Some \<lparr>c_vbn = v, c_state = EMPTY, c_blk = Raw\<rparr>" by (simp add: cache_at_def)
  ultimately show thesis using that by blast
qed

end

section \<open>Caches to evaluate on\<close>




end
