(* ===== verification/Ofs_Levels.thy ===== *)
theory Ofs_Levels imports Ofs_Space_Manager Ofs_Index_Walk Ofs_Cache_Spec
begin

unbundle bit_operations_syntax

text \<open>
  The three levels of the space manager obey the laws that the index relies on, so what is proved
  of an index holds for the indexes of both managers and of every object. The properties are
  stated for the objects of a container, with a two-level index to evaluate them on.
\<close>

section \<open>The levels\<close>

interpretation base_lv: level_laws base_level
  by unfold_locales (simp_all add: base_level_def)

lemma sm_core_laws:
  assumes "level_laws lv"
  shows "sm_core lv (sm_core_set lv c sm) = c" and "sm_core_set lv (sm_core lv sm) sm = sm"
    and "sm_core_set lv c (sm_core_set lv d sm) = sm_core_set lv c sm"
proof -
  note l = level_laws.core_of_set[OF assms] level_laws.core_set_get[OF assms] level_laws.core_set_set[OF assms]
  show "sm_core lv (sm_core_set lv c sm) = c" "sm_core_set lv (sm_core lv sm) sm = sm"
    "sm_core_set lv c (sm_core_set lv d sm) = sm_core_set lv c sm"
    by (simp_all add: sm_core_def sm_core_set_def l)
qed

interpretation space_lv: level_laws space_level
  by unfold_locales (simp_all add: space_level_def sm_core_laws[OF base_lv.level_laws_axioms])

interpretation object_lv: level_laws "object_level oid" for oid
  by unfold_locales
    (simp_all add: object_level_def spaces_core_def spaces_core_set_def sm_core_laws[OF space_lv.level_laws_axioms])

section \<open>Searching and walking the index of an object\<close>

text \<open>C2. A search in an index of any depth finds the key exactly when it is there, and otherwise
  stops at the place in a leaf where it belongs. It returns for every index that fits the stacks of a
  handle, reads the blocks it needs and leaves the contents of the index unchanged.\<close>

theorem index_search_finds:
  assumes "index_ok (object_level oid) t b" and "compares t key value c (bt_keys b)"
  shows "\<exists>t'. extends (object_level oid) t t' \<and> index_ok (object_level oid) t' b \<and>
    (if \<exists>e \<in> set (bt_keys b). c e = 0
     then search_key_internal (object_level oid) key value t = Some (0, t') \<and>
       (\<exists>e \<in> set (bt_keys b). cur_ie (object_level oid) t' = Some e \<and> c e = 0)
     else search_key_internal (object_level oid) key value t = Some (- INDEX_ERR_KEY_NOT_FOUND, t') \<and>
       (\<exists>is j. stands (object_level oid) t' b is j \<and> gap c b is j))"
  using object_lv.search_key_keys[OF assms] index_ok_extends[OF assms(1)] by blast

text \<open>C7. The walk over an index calls the callback once for each key, in order, until the callback
  fails, and then ends.\<close>

theorem index_walk_visits:
  assumes "index_ok (object_level oid) t b" and "shows_key (object_level oid) cb f"
    and "\<not> flag flags INDEX_REMOVE_BLOCK"
  shows "\<exists>t'. index_walk_all (object_level oid) False flags cb (t, s) =
      Some (fst (visit f (bt_keys b) s), t', snd (visit f (bt_keys b) s)) \<and> index_ok (object_level oid) t' b"
  using object_lv.index_walk_all_keys[OF assms] index_ok_extends[OF assms(1)] by blast

text \<open>C40. The count of keys is the number of keys.\<close>

theorem index_total_keys:
  assumes "index_ok (object_level oid) t b"
  shows "\<exists>t'. index_get_total_key (object_level oid) t = Some (int (length (bt_keys b)), t') \<and>
    index_ok (object_level oid) t' b"
  using object_lv.total_key_count[OF assms] index_ok_extends[OF assms] by blast

section \<open>An index to evaluate on\<close>

text \<open>A root inside an inode, with the key 5, and two leaves on the disk, in blocks 10 and 11.\<close>

definition leaf_key :: "nat \<Rightarrow> u8 \<Rightarrow> index_entry" where
  "leaf_key p k = \<lparr>ie_len = 11, ie_prev_len = p, ie_flags = 0, ie_key = [k], ie_value = [k], ie_vbn = 0\<rparr>"

definition leaf_end :: "nat \<Rightarrow> index_entry" where
  "leaf_end p = \<lparr>ie_len = 9, ie_prev_len = p, ie_flags = 2, ie_key = [], ie_value = [], ie_vbn = 0\<rparr>"

definition ex_low :: index_block where
  "ex_low = \<lparr>ib_alloc_size = 4096, ib_real_size = 53, ib_first_entry_off = 33, ib_node_type = 0,
     ib_entries = [begin_ie, leaf_key 9 3, leaf_end 11]\<rparr>"

definition ex_high :: index_block where
  "ex_high = \<lparr>ib_alloc_size = 4096, ib_real_size = 64, ib_first_entry_off = 33, ib_node_type = 0,
     ib_entries = [begin_ie, leaf_key 9 7, leaf_key 11 8, leaf_end 11]\<rparr>"

definition ex_root :: index_block where
  "ex_root = \<lparr>ib_alloc_size = 3722, ib_real_size = 69, ib_first_entry_off = 33, ib_node_type = 1,
     ib_entries = [begin_ie,
       \<lparr>ie_len = 19, ie_prev_len = 9, ie_flags = 1, ie_key = [5], ie_value = [5], ie_vbn = 10\<rparr>,
       \<lparr>ie_len = 17, ie_prev_len = 19, ie_flags = 3, ie_key = [], ie_value = [], ie_vbn = 11\<rparr>]\<rparr>"

definition ex_tree :: bt where
  "ex_tree = Bt ex_root [Bt ex_low [], Bt ex_high []]"

definition ex_inode :: inode_record where
  "ex_inode = \<lparr>in_alloc_size = 4096, in_real_size = 4096, in_first_attr_off = 362, in_objid = 200, in_base_objid = 0,
     in_mode = 0, in_uid = 0, in_gid = 0, in_size = 0, in_links = 0, in_ctime = 0, in_atime = 0, in_mtime = 0,
     in_snapshot_no = 0, in_name_size = 0, in_name = [],
     in_attr = \<lparr>ar_record_size = 3734, ar_flags = 0x4033, ar_attr_size = 0, ar_content = Some ex_root\<rparr>\<rparr>"

definition ex_core :: core where
  "ex_core = \<lparr>co_heap = [1 \<mapsto> \<lparr>c_vbn = 5, c_state = CLEAN, c_blk = Obje ex_inode\<rparr>,
                         2 \<mapsto> \<lparr>c_vbn = 5, c_state = EMPTY, c_blk = InodeOf 1\<rparr>],
     co_next = 3, co_oom = (\<lambda>_. False), co_mallocs = 0, co_meta = [(5, 1)],
     co_disk = [10 \<mapsto> Indx ex_low, 11 \<mapsto> Indx ex_high], co_block_size = 4096, co_base_blk = 0\<rparr>"

definition ex_object :: "'e \<Rightarrow> 'e object" where
  "ex_object e = \<lparr>t_objid = 200, t_attr_flags = 0x4033, t_root = 2, t_inode_cache = 1, t_inode_no = 5, t_name = [],
     t_caches = [(5, 1)], t_max_depth = 0, t_depth = 0, t_cache_stack = (\<lambda>_. 0), t_position_stack = (\<lambda>_. 0),
     t_cache = 0, t_position = 0, t_ie = 0, t_env = e\<rparr>"

definition ex_spaces :: spaces where
  "ex_spaces = ofs_init_sm (ex_object (ofs_init_sm (ex_object ex_core) 0 0)) 0 0"

lemma ex_blocks_wf: "wf_ib ex_low" "wf_ib ex_high" "wf_ib ex_root"
  by (simp_all add: wf_ib_def ex_low_def ex_high_def ex_root_def leaf_key_def leaf_end_def keys_of_def end_of_def
      slots_of_def begin_ie_def key_ie_def end_ie_def flag_def)

lemma ex_keys: "keys_of ex_low = [leaf_key 9 3]" "keys_of ex_high = [leaf_key 9 7, leaf_key 11 8]"
  "nkeys ex_root = 1" "is_large ex_root" "\<not> is_large ex_low" "\<not> is_large ex_high"
  by (simp_all add: nkeys_def keys_of_def slots_of_def ex_low_def ex_high_def ex_root_def flag_def)

lemma ex_core_of: "core_of (object_level oid) (ex_object ex_spaces) = ex_core"
  by (simp add: core_of_def object_level_def ex_object_def ex_spaces_def spaces_core_def sm_core_def space_level_def
      ofs_init_sm_def base_level_def)

lemma ex_cache_at: "cache_at (object_level oid) (ex_object ex_spaces) p = co_heap ex_core p"
  by (simp add: cache_at_def ex_core_of)

lemma ex_get_root: "get_ib (object_level oid) (ex_object ex_spaces) 2 = Some ex_root"
  by (simp add: get_ib_def ex_cache_at ex_core_of) (simp add: ex_core_def blk_of_def ex_inode_def)

lemma ex_fields: "t_root (ex_object e) = 2" "t_caches (ex_object e) = [(5, 1)]" "t_attr_flags (ex_object e) = 0x4033"
  "t_env (ex_object e) = e"
  by (simp_all add: ex_object_def)

lemma ex_view: "block_view (object_level oid) (ex_object ex_spaces) 10 = Some ex_low"
  "block_view (object_level oid) (ex_object ex_spaces) 11 = Some ex_high"
  by (simp_all add: block_view_def ex_cache_at ex_core_of ex_fields) (simp_all add: ex_core_def)

lemma ex_ok: "index_ok (object_level oid) (ex_object ex_spaces) ex_tree"
proof -
  have "core_ok ex_core" by (auto simp: core_ok_def ex_core_def split: if_splits)
  then have "caches_ok (object_level oid) (ex_object ex_spaces)"
    by (simp add: caches_ok_def ex_core_of ex_cache_at) (simp add: ex_object_def ex_core_def)
  moreover have "holds (block_view (object_level oid) (ex_object ex_spaces)) ex_tree"
    using ex_blocks_wf ex_keys ex_view by (simp add: ex_tree_def) (simp add: ex_root_def slots_of_def)
  moreover have "get_ib (object_level oid) (ex_object ex_spaces) (t_root (ex_object ex_spaces)) = Some (bt_ib ex_tree)"
    using ex_get_root by (simp add: ex_object_def ex_tree_def)
  moreover have "bt_within 15 ex_tree" by (simp add: ex_tree_def numeral_eq_Suc)
  ultimately show ?thesis by (simp add: index_ok_def)
qed

lemma ex_bt_keys: "map ie_key (bt_keys ex_tree) = [[3], [5], [7], [8]]"
  by (simp add: ex_tree_def ex_keys leaf_key_def) (simp add: ex_root_def keys_of_def slots_of_def)


lemma ex_bt_keys_eq: "bt_keys ex_tree = [leaf_key 9 3, \<lparr>ie_len = 19, ie_prev_len = 9, ie_flags = 1, ie_key = [5], ie_value = [5], ie_vbn = 10\<rparr>,
    leaf_key 9 7, leaf_key 11 8]"
  by (simp add: ex_tree_def ex_keys) (simp add: ex_root_def keys_of_def slots_of_def)

text \<open>The comparison of the keys of the index with 7 and with 6.\<close>

definition ex_cmp :: "u8 \<Rightarrow> index_entry \<Rightarrow> int" where
  "ex_cmp k e = cmp_u64 (u64_of_bytes (ie_key e)) (u64_of_bytes [k])"

lemma ex_compares: "k = 7 \<or> k = 6 \<Longrightarrow> compares (ex_object ex_spaces) [k] [] (ex_cmp k) (bt_keys ex_tree)"
  unfolding compares_def ex_bt_keys_eq
  by (auto simp: ex_fields collate_key_def os_collate_u64_def os_bstr_to_u64_eq ex_cmp_def leaf_key_def cmp_u64_def u64_of_bytes_def)

lemma index_search_finds_witness:
  "(\<exists>t' e. search_key_internal (object_level 200) [7] [] (ex_object ex_spaces) = Some (0, t') \<and>
     cur_ie (object_level 200) t' = Some e \<and> ie_key e = [7]) \<and>
   (\<exists>t'. search_key_internal (object_level 200) [6] [] (ex_object ex_spaces) = Some (- INDEX_ERR_KEY_NOT_FOUND, t'))"
proof -
  have c: "ex_cmp k e = 0 \<longleftrightarrow> ie_key e = [k]" if "e \<in> set (bt_keys ex_tree)" "k = 7 \<or> k = 6" for e k
    using that unfolding ex_bt_keys_eq by (auto simp: ex_cmp_def leaf_key_def cmp_u64_def u64_of_bytes_def)
  have 7: "\<exists>e \<in> set (bt_keys ex_tree). ex_cmp 7 e = 0" using c[of "leaf_key 9 7" 7] by (simp add: ex_bt_keys_eq leaf_key_def)
  have found: "\<exists>t' e. search_key_internal (object_level 200) [7] [] (ex_object ex_spaces) = Some (0, t') \<and>
     cur_ie (object_level 200) t' = Some e \<and> ie_key e = [7]"
    using index_search_finds[OF ex_ok ex_compares[of 7], of 200] 7 c by auto
  have 6: "\<not> (\<exists>e \<in> set (bt_keys ex_tree). ex_cmp 6 e = 0)" using c[of _ 6] by (auto simp: ex_bt_keys_eq leaf_key_def)
  have "\<exists>t'. search_key_internal (object_level 200) [6] [] (ex_object ex_spaces) = Some (- INDEX_ERR_KEY_NOT_FOUND, t')"
    using index_search_finds[OF ex_ok ex_compares[of 6], of 200] 6 by auto
  with found show ?thesis ..
qed

lemma index_walk_visits_witness:
  "\<exists>t'. index_walk_all (object_level 200) False 0
     (\<lambda>(t, ks). (0, t, ks @ [map_option ie_key (cur_ie (object_level 200) t)])) (ex_object ex_spaces, []) =
     Some (0, t', map Some [[3], [5], [7], [8]])"
proof -
  let ?cb = "\<lambda>(t, ks). (0, t, ks @ [map_option ie_key (cur_ie (object_level 200) t)])"
  let ?f = "\<lambda>e ks. (0, ks @ [Some (ie_key e)])"
  have "shows_key (object_level 200) ?cb ?f" by (simp add: shows_key_def)
  from index_walk_visits[OF ex_ok this, of 0 "[]"]
  obtain t' where "index_walk_all (object_level 200) False 0 ?cb (ex_object ex_spaces, []) =
      Some (fst (visit ?f (bt_keys ex_tree) []), t', snd (visit ?f (bt_keys ex_tree) []))"
    by (auto simp: flag_def)
  moreover have "visit ?f (bt_keys ex_tree) [] = (0, map Some [[3], [5], [7], [8]])"
    by (simp add: ex_bt_keys_eq leaf_key_def)
  ultimately show ?thesis by auto
qed

lemma index_total_keys_witness:
  "\<exists>t'. index_get_total_key (object_level 200) (ex_object ex_spaces) = Some (4, t')"
  using index_total_keys[OF ex_ok, of 200] by (auto simp: ex_bt_keys_eq)

end
