(* ===== verification/Ofs_Space_Spec.thy ===== *)
theory Ofs_Space_Spec imports Ofs_Extents Ofs_Levels
begin

unbundle bit_operations_syntax

text \<open>
  What a space manager promises. Its state stands for a set of free blocks; an allocation takes
  blocks out of the set and a release puts them back, and the counter of free blocks is the size of
  the set. Over any history no block is handed out twice.
\<close>

section \<open>Allocating and freeing extents\<close>

lemma sint_small: "unat (w :: u32) < 2 ^ 31 \<Longrightarrow> sint w = int (unat w)"
  using int32_small[of "unat w"] by (simp add: int32_def)

lemma unat_minus: "unat (b :: u64) \<le> unat a \<Longrightarrow> unat (a - b) = unat a - unat b"
  by (simp add: unat_sub_if_size)

lemma u32_value: "unat (w :: u64) < 2 ^ 32 \<Longrightarrow> unat (u32_of_u64 w) = unat w"
  by (simp add: unsigned_ucast_eq take_bit_eq_mod unat_mod_distrib)

lemma u32_sint: "unat (w :: u64) < 2 ^ 31 \<Longrightarrow> sint (u32_of_u64 w) = int (unat w)"
  using sint_small[of "u32_of_u64 w"] u32_value[of w] by simp

lemma unat_widen [simp]: "unat (ucast (n :: u32) :: u64) = unat n"
proof -
  have "unat n < 2 ^ 32" using unsigned_less[of n] by simp
  then show ?thesis by (simp add: unsigned_ucast_eq take_bit_eq_mod)
qed

lemma u32_widen [simp]: "u32_of_u64 (ucast (n :: u32)) = n"
proof -
  have "unat n < 2 ^ 32" using unsigned_less[of n] by simp
  then have "unat (u32_of_u64 (ucast n)) = unat n" by (subst u32_value) simp_all
  then show ?thesis by (simp only: unsigned_word_eqI)
qed

text \<open>A manager: its index holds extents, its counter is the number of free blocks.\<close>

definition manager_ok :: "'e levels \<Rightarrow> 'e space_manager \<Rightarrow> index_block \<Rightarrow> (nat \<times> nat) list \<Rightarrow> bool" where
  "manager_ok lv sm ib xs \<longleftrightarrow> extents_in lv (sm_obj sm) ib xs \<and> unat (sm_first_free sm) \<le> 2 ^ 62 \<and>
     unat (sm_total_free sm) = card (free_set xs)"

lemma free_set_bound: "extents_in lv t ib xs \<Longrightarrow> card (free_set xs) \<le> 2 ^ 62"
proof -
  assume x: "extents_in lv t ib xs"
  have "fst y + snd y \<le> 2 ^ 62" if "y \<in> set xs" for y using x that by (auto simp: extents_in_def extent_ie_def)
  then have "free_set xs \<subseteq> {0 ..< 2 ^ 62}" by (fastforce simp: free_set_def blocks_def)
  then have "card (free_set xs) \<le> card {0 ..< (2 :: nat) ^ 62}" by (intro card_mono) simp_all
  then show ?thesis by simp
qed

context level_laws
begin

lemma alloc_space_extents:
  assumes x: "extents_in lv t ib xs" and ne: "xs \<noteq> []" and n: "0 < unat n" "unat n < 2 ^ 31" and s: "unat start \<le> 2 ^ 62"
    and room: "length xs < capacity ib"
  obtains k real t' ib' xs' where "alloc_space lv start n t = Some (int k, real, t')" and "0 < k" and "k \<le> unat n"
    and "{unat real ..< unat real + k} \<subseteq> free_set xs" and "unat real + k \<le> 2 ^ 62"
    and "extents_in lv t' ib' xs'" and "capacity ib' = capacity ib"
    and "free_set xs' = free_set xs - {unat real ..< unat real + k}" and "frame lv t t'" and "length xs' \<le> Suc (length xs)"
proof -
  have m: "unat start + unat n \<le> 2 ^ 63" using n s by simp
  obtain s' t1 j where fe: "find_extent lv start n t = Some (0, s', t1)" and e1: "extends lv t t1" and x1: "extents_in lv t1 ib xs"
    and st: "stands lv t1 (Bt ib []) [] j" and j: "j < length xs" and s': "unat s' < fst (xs ! j) + snd (xs ! j)"
    by (rule find_extent_found[OF x _ _ ne]) (use n m in \<open>simp_all add: word_less_nat_alt\<close>)
  obtain a l where ce: "cur_extent lv t1 = Some (a, l)" and a: "unat a = fst (xs ! j)" and l: "unat l = snd (xs ! j)"
    by (rule cur_extent_root[OF x1 st j])
  let ?x = "xs ! j"
  have xj: "?x \<in> set xs" using j by simp
  have ee: "snd ?x < 2 ^ 32" "fst ?x + snd ?x \<le> 2 ^ 62"
    using x1 xj by (auto simp: extents_in_def extent_ie_def)
  have pos: "0 < snd ?x" using extents_inD(4)[OF x] xj by (auto simp: extents_ordered_def)
  have sub: "blocks ?x \<subseteq> free_set xs" using xj by (auto simp: free_set_def)
  have bl: "blocks ?x = {unat a ..< unat a + unat l}" by (simp add: blocks_def a l)
  obtain t2 ib2 xs2 where rm: "tree_remove_ie lv t1 = Some (0, t2)" and x2: "extents_in lv t2 ib2 xs2" and f2: "frame lv t1 t2"
    and c2: "capacity ib2 = capacity ib" and n2: "Suc (length xs2) = length xs" and s2: "free_set xs2 = free_set xs - blocks ?x"
    by (rule remove_extent_root[OF x1 st j])
  have f: "frame lv t t2" by (rule frame_trans[OF extendsD(8)[OF e1] f2])
  have last: "unat (a + l) = unat a + unat l" using ee a l by (intro unat_add_no_wrap) simp
  show thesis
  proof (cases "s' \<le> a")
    case True
    have eb: "unat (a + ucast n) = unat a + unat n" using ee a n by (subst unat_add_no_wrap) simp_all
    show thesis
    proof (cases "a + ucast n < a + l")
      case more: True
      then have nl: "unat n < unat l" by (simp add: word_less_nat_alt eb last)
      have r: "unat (a + l - (a + ucast n)) = unat l - unat n" using nl eb last by (subst unat_minus) simp_all
      have e: "unat (a + ucast n) + unat (a + l - (a + ucast n)) = unat a + unat l" unfolding r eb using nl by simp
      have w: "u32_of_u64 (a + ucast n - a) = n" by simp
      obtain t3 ib3 xs3 where i: "insert_extent lv (a + ucast n) (a + l - (a + ucast n)) t2 = Some (0, t3)"
        and x3: "extents_in lv t3 ib3 xs3" and f3: "frame lv t2 t3" and c3: "capacity ib3 = capacity ib2"
        and n3: "length xs3 = Suc (length xs2)" and s3: "free_set xs3 = free_set xs2 \<union> {unat a + unat n ..< unat a + unat l}"
        by (rule insert_extent_root[OF x2, of "a + l - (a + ucast n)" "a + ucast n"])
          (use r e eb nl ee a l n2 c2 room s2 bl in auto)
      have "alloc_space lv start n t = Some (int (unat n), a, t3)"
        using fe ce rm i more True n by (simp add: alloc_space_def Let_def w sint_small)
      moreover have "{unat a ..< unat a + unat n} \<subseteq> free_set xs" using sub bl nl by auto
      moreover have "free_set xs3 = free_set xs - {unat a ..< unat a + unat n}" unfolding s3 s2 using sub bl nl by auto
      ultimately show thesis
        using that[of "unat n" a t3 ib3 xs3] n nl ee a l x3 c3 c2 n2 n3 frame_trans[OF f f3] by simp
    next
      case less: False
      then have nl: "unat l \<le> unat n" by (simp add: word_less_nat_alt eb last)
      have "alloc_space lv start n t = Some (int (unat l), a, t2)"
        using fe ce rm less True n nl by (simp add: alloc_space_def Let_def u32_sint)
      then show thesis using that[of "unat l" a t2 ib2 xs2] pos nl l a ee sub bl x2 c2 n2 f s2 by simp
    qed
  next
    case False
    then have as: "unat a < unat s'" and sl: "unat s' < unat a + unat l" using s' a l by (simp_all add: word_le_nat_alt)
    have r: "unat (s' - a) = unat s' - unat a" using as by (subst unat_minus) simp_all
    have eb: "unat (s' + ucast n) = unat s' + unat n" using ee a l sl n by (subst unat_add_no_wrap) simp_all
    obtain t3 ib3 xs3 where i: "insert_extent lv a (s' - a) t2 = Some (0, t3)"
      and x3: "extents_in lv t3 ib3 xs3" and f3: "frame lv t2 t3" and c3: "capacity ib3 = capacity ib2"
      and n3: "length xs3 = Suc (length xs2)" and s3: "free_set xs3 = free_set xs2 \<union> {unat a ..< unat s'}"
      by (rule insert_extent_root[OF x2, of "s' - a" a]) (use r as sl ee a l n2 c2 room s2 bl in auto)
    have ff: "frame lv t t3" by (rule frame_trans[OF f f3])
    show thesis
    proof (cases "s' + ucast n < a + l")
      case more: True
      then have nl: "unat s' + unat n < unat a + unat l" by (simp add: word_less_nat_alt eb last)
      have r: "unat (a + l - (s' + ucast n)) = unat a + unat l - (unat s' + unat n)" using nl eb last by (subst unat_minus) simp_all
      have e: "unat (s' + ucast n) + unat (a + l - (s' + ucast n)) = unat a + unat l" unfolding r eb using nl by simp
      obtain t4 ib4 xs4 where i4: "insert_extent lv (s' + ucast n) (a + l - (s' + ucast n)) t3 = Some (0, t4)"
        and x4: "extents_in lv t4 ib4 xs4" and f4: "frame lv t3 t4" and c4: "capacity ib4 = capacity ib3"
        and n4: "length xs4 = Suc (length xs3)" and s4: "free_set xs4 = free_set xs3 \<union> {unat s' + unat n ..< unat a + unat l}"
        by (rule insert_extent_root[OF x3, of "a + l - (s' + ucast n)" "s' + ucast n"])
          (use r e eb nl as ee a l n2 n3 c2 c3 room s2 s3 bl in auto)
      have "alloc_space lv start n t = Some (int (unat n), s', t4)"
        using fe ce rm i i4 more False n by (simp add: alloc_space_def Let_def sint_small)
      moreover have "{unat s' ..< unat s' + unat n} \<subseteq> free_set xs" using sub bl as nl by auto
      moreover have "free_set xs4 = free_set xs - {unat s' ..< unat s' + unat n}" unfolding s4 s3 s2 using sub bl as nl by auto
      ultimately show thesis
        using that[of "unat n" s' t4 ib4 xs4] n nl ee a l x4 c4 c3 c2 n2 n3 n4 frame_trans[OF ff f4] by simp
    next
      case less: False
      then have nl: "unat a + unat l \<le> unat s' + unat n" by (simp add: word_less_nat_alt eb last)
      have w: "unat (a + l - s') = unat a + unat l - unat s'" using sl last by (subst unat_minus) simp_all
      then have "sint (u32_of_u64 (a + l - s')) = int (unat a + unat l - unat s')"
        using nl n sl by (subst u32_sint) simp_all
      then have "alloc_space lv start n t = Some (int (unat a + unat l - unat s'), s', t3)"
        using fe ce rm i less False by (simp add: alloc_space_def Let_def)
      moreover have "{unat s' ..< unat a + unat l} \<subseteq> free_set xs" using sub bl as by auto
      moreover have "free_set xs3 = free_set xs - {unat s' ..< unat a + unat l}"
        unfolding s3 s2 bl by (rule carve_end) (use sub bl as sl in auto)
      ultimately show thesis
        using that[of "unat a + unat l - unat s'" s' t3 ib3 xs3] sl nl ee a l x3 c3 c2 n2 n3 ff by simp
    qed
  qed
qed

lemma manager_alloc:
  assumes m: "manager_ok lv sm ib xs" and n: "0 < unat n" "unat n < 2 ^ 31" and room: "length xs < capacity ib" and ne: "xs \<noteq> []"
  obtains k real sm' ib' xs' where "sm_alloc_space lv n sm = Some (int k, real, sm')" and "0 < k" and "k \<le> unat n"
    and "{unat real ..< unat real + k} \<subseteq> free_set xs" and "manager_ok lv sm' ib' xs'" and "capacity ib' = capacity ib"
    and "free_set xs' = free_set xs - {unat real ..< unat real + k}" and "frame lv (sm_obj sm) (sm_obj sm')"
    and "length xs' \<le> Suc (length xs)" and "sm_total_free sm' = sm_total_free sm - word_of_nat k"
proof -
  have x: "extents_in lv (sm_obj sm) ib xs" and ff: "unat (sm_first_free sm) \<le> 2 ^ 62"
    and total: "unat (sm_total_free sm) = card (free_set xs)" using m by (simp_all add: manager_ok_def)
  obtain k real t' ib' xs' where a: "alloc_space lv (sm_first_free sm) n (sm_obj sm) = Some (int k, real, t')"
    and k: "0 < k" "k \<le> unat n" and sub: "{unat real ..< unat real + k} \<subseteq> free_set xs" and rk: "unat real + k \<le> 2 ^ 62"
    and x': "extents_in lv t' ib' xs'" and c: "capacity ib' = capacity ib"
    and fs: "free_set xs' = free_set xs - {unat real ..< unat real + k}" and f: "frame lv (sm_obj sm) t'"
    and len: "length xs' \<le> Suc (length xs)"
    by (rule alloc_space_extents[OF x ne n ff room])
  let ?k = "word_of_nat k :: u64"
  have uk: "unat ?k = k" using k n by (simp add: unsigned_of_nat take_bit_eq_mod)
  have kc: "k \<le> card (free_set xs)" using card_mono[OF finite_free_set sub] by simp
  have tk: "?k \<le> sm_total_free sm" using kc total uk by (simp add: word_le_nat_alt)
  have "sm_total_free sm \<noteq> 0" using kc k total by auto
  let ?sm = "sm\<lparr>sm_obj := t', sm_first_free := real + ?k, sm_total_free := sm_total_free sm - ?k\<rparr>"
  have "sm_alloc_space lv n sm = Some (int k, real, ?sm)"
    using a k tk \<open>sm_total_free sm \<noteq> 0\<close> by (simp add: sm_alloc_space_def Let_def)
  moreover have "manager_ok lv ?sm ib' xs'"
  proof -
    have "unat (real + ?k) \<le> 2 ^ 62" using rk uk by (subst unat_add_no_wrap) simp_all
    moreover have "unat (sm_total_free sm - ?k) = card (free_set xs) - k" using kc total uk by (subst unat_minus) simp_all
    moreover have "card (free_set xs') = card (free_set xs) - k" unfolding fs using card_Diff_subset[OF _ sub] by simp
    ultimately show ?thesis using x' by (simp add: manager_ok_def)
  qed
  ultimately show thesis using that[of k real ?sm ib' xs'] k sub c fs f len by simp
qed

lemma manager_alloc_empty: "manager_ok lv sm ib [] \<Longrightarrow> sm_alloc_space lv n sm = Some (- INDEX_ERR_NO_FREE_BLOCKS, 0, sm)"
  by (simp add: manager_ok_def sm_alloc_space_def unat_eq_0)

lemma manager_free:
  assumes m: "manager_ok lv sm ib xs" and n: "0 < unat n" and s: "unat s + unat n \<le> 2 ^ 62" and room: "length xs < capacity ib"
    and new: "free_set xs \<inter> {unat s ..< unat s + unat n} = {}"
  obtains sm' ib' xs' where "sm_free_space lv s n sm = Some (0, sm')" and "manager_ok lv sm' ib' xs'" and "capacity ib' = capacity ib"
    and "free_set xs' = free_set xs \<union> {unat s ..< unat s + unat n}" and "frame lv (sm_obj sm) (sm_obj sm')"
    and "length xs' = Suc (length xs)" and "sm_total_free sm' = sm_total_free sm + ucast n"
proof -
  have x: "extents_in lv (sm_obj sm) ib xs" and ff: "unat (sm_first_free sm) \<le> 2 ^ 62"
    and total: "unat (sm_total_free sm) = card (free_set xs)" using m by (simp_all add: manager_ok_def)
  have n32: "unat n < 2 ^ 32" using unsigned_less[of n] by simp
  obtain t' ib' xs' where i: "insert_extent lv s (ucast n) (sm_obj sm) = Some (0, t')" and x': "extents_in lv t' ib' xs'"
    and f: "frame lv (sm_obj sm) t'" and c: "capacity ib' = capacity ib"
    and fs: "free_set xs' = free_set xs \<union> {unat s ..< unat s + unat n}" and len: "length xs' = Suc (length xs)"
    using insert_extent_root[OF x, of "ucast n" s] n n32 s room new unfolding unat_widen by metis
  let ?sm = "sm\<lparr>sm_obj := t', sm_total_free := sm_total_free sm + ucast n\<rparr>"
  have "sm_free_space lv s n sm = Some (0, ?sm)" using i by (simp add: sm_free_space_def free_space_def Let_def)
  moreover have "manager_ok lv ?sm ib' xs'"
  proof -
    have "unat (sm_total_free sm + ucast n) = card (free_set xs) + unat n"
      using free_set_bound[OF x] total n32 by (subst unat_add_no_wrap) simp_all
    moreover have "card (free_set xs') = card (free_set xs) + unat n" unfolding fs using new by (subst card_Un_disjoint) simp_all
    ultimately show ?thesis using x' ff by (simp add: manager_ok_def)
  qed
  ultimately show thesis using that[of ?sm ib' xs'] c fs f len by simp
qed

lemma manager_free_twice:
  assumes m: "manager_ok lv sm ib xs" and s: "unat s + unat n \<le> 2 ^ 62"
    and dup: "free_set xs \<inter> {unat s ..< unat s + unat n} \<noteq> {}"
  obtains sm' where "sm_free_space lv s n sm = Some (- INDEX_ERR_KEY_EXIST, sm')" and "manager_ok lv sm' ib xs"
    and "frame lv (sm_obj sm) (sm_obj sm')"
proof -
  have x: "extents_in lv (sm_obj sm) ib xs" using m by (simp add: manager_ok_def)
  have s': "unat s + unat n \<le> 2 ^ 63" using s by simp
  obtain t' where i: "insert_extent lv s (ucast n) (sm_obj sm) = Some (- INDEX_ERR_KEY_EXIST, t')" and e: "extends lv (sm_obj sm) t'"
    and x': "extents_in lv t' ib xs"
    using insert_extent_overlap[OF x, of s "ucast n"] s' dup unfolding unat_widen by metis
  have "sm_free_space lv s n sm = Some (- INDEX_ERR_KEY_EXIST, sm\<lparr>sm_obj := t'\<rparr>)"
    using i by (simp add: sm_free_space_def free_space_def Let_def)
  then show thesis using that m x' extendsD(8)[OF e] by (simp add: manager_ok_def)
qed

end

end
