(* ===== verification/Ofs_Spaces.thy ===== *)
theory Ofs_Spaces imports Ofs_Space_Spec
begin

unbundle bit_operations_syntax

text \<open>
  The space manager of a container as its objects see it: \<^verbatim>\<open>ofs_alloc_space\<close> and
  \<^verbatim>\<open>ofs_free_space\<close> as operations on sets of blocks. The free blocks are those of the
  space manager; the reserve is the blocks of the base manager and the base block, which serve the
  indexes of the managers. The two managers keep their indexes in one store of caches, so what one
  changes leaves the root of the other alone.
\<close>

section \<open>Two indexes in one store\<close>






section \<open>The state of a container\<close>














section \<open>The space manager at work\<close>







section \<open>Filling the reserve\<close>





section \<open>Allocating and freeing blocks\<close>





section \<open>Histories\<close>




section \<open>Properties\<close>





section \<open>Managers to evaluate on\<close>















end
