(* ===== verification/Ofs_Object_Spec.thy ===== *)
theory Ofs_Object_Spec imports Ofs_Api Ofs_Index_Root Ofs_Levels
begin

unbundle bit_operations_syntax

text \<open>
  What the object and the container manager promise: a new table object has an empty index whose
  root is in its inode, every open of an object or a container that is open is undone by the close,
  and a super block that is laid out passes the check of an open and stays on the device.
\<close>

section \<open>A new object\<close>

lemma init_ib_small:
  assumes "INDEX_BLOCK_SIZE + ENTRY_END_SIZE \<le> n"
  shows "wf_ib (init_ib INDEX_BLOCK_SMALL n)" and "keys_of (init_ib INDEX_BLOCK_SMALL n) = []"
    and "\<not> is_large (init_ib INDEX_BLOCK_SMALL n)" and "ib_alloc_size (init_ib INDEX_BLOCK_SMALL n) = n"
proof -
  let ?e = "\<lparr>ie_len = ENTRY_END_SIZE, ie_prev_len = ENTRY_BEGIN_SIZE, ie_flags = INDEX_ENTRY_END, ie_key = [], ie_value = [], ie_vbn = 0\<rparr>"
  have i: "init_ib INDEX_BLOCK_SMALL n = \<lparr>ib_alloc_size = n, ib_real_size = INDEX_BLOCK_SIZE + ENTRY_END_SIZE,
    ib_first_entry_off = INDEX_BLOCK_SIZE, ib_node_type = INDEX_BLOCK_SMALL, ib_entries = [begin_ie, ?e]\<rparr>"
    by (simp add: init_ib_def flag_def Let_def)
  have s: "\<not> is_large (init_ib INDEX_BLOCK_SMALL n)" by (simp add: i flag_def)
  have en: "ib_entries (init_ib INDEX_BLOCK_SMALL n) = begin_ie # [] @ [?e]" by (simp add: i)
  note w = wf_ibI[OF en]
  show "wf_ib (init_ib INDEX_BLOCK_SMALL n)" "keys_of (init_ib INDEX_BLOCK_SMALL n) = []"
    using assms s by (auto intro!: w simp: end_ie_def) (simp_all add: i)
  show "\<not> is_large (init_ib INDEX_BLOCK_SMALL n)" by (rule s)
  show "ib_alloc_size (init_ib INDEX_BLOCK_SMALL n) = n" by (simp add: i)
qed

text \<open>The fields of an object that are not its environment.\<close>

lemma core_of_update:
  "core_of lv (t\<lparr>t_inode_cache := x\<rparr>) = core_of lv t"
  "core_of lv (t\<lparr>t_inode_no := v\<rparr>) = core_of lv t"
  "core_of lv (t\<lparr>t_name := nm\<rparr>) = core_of lv t"
  "core_of lv (t\<lparr>t_root := x\<rparr>) = core_of lv t"
  "core_of lv (t\<lparr>t_attr_flags := fl\<rparr>) = core_of lv t"
  "core_of lv (t\<lparr>t_max_depth := x\<rparr>) = core_of lv t"
  "core_of lv (t\<lparr>t_depth := x\<rparr>) = core_of lv t"
  "core_of lv (t\<lparr>t_cache_stack := g\<rparr>) = core_of lv t"
  "core_of lv (t\<lparr>t_position_stack := g\<rparr>) = core_of lv t"
  "core_of lv (t\<lparr>t_cache := x\<rparr>) = core_of lv t"
  "core_of lv (t\<lparr>t_position := x\<rparr>) = core_of lv t"
  "core_of lv (t\<lparr>t_ie := x\<rparr>) = core_of lv t"
  by (simp_all add: core_of_def)

lemma core_set_update:
  "(core_set lv c t)\<lparr>t_inode_cache := x\<rparr> = core_set lv c (t\<lparr>t_inode_cache := x\<rparr>)"
  "(core_set lv c t)\<lparr>t_inode_no := v\<rparr> = core_set lv c (t\<lparr>t_inode_no := v\<rparr>)"
  "(core_set lv c t)\<lparr>t_name := nm\<rparr> = core_set lv c (t\<lparr>t_name := nm\<rparr>)"
  "(core_set lv c t)\<lparr>t_root := x\<rparr> = core_set lv c (t\<lparr>t_root := x\<rparr>)"
  "(core_set lv c t)\<lparr>t_attr_flags := fl\<rparr> = core_set lv c (t\<lparr>t_attr_flags := fl\<rparr>)"
  "(core_set lv c t)\<lparr>t_max_depth := x\<rparr> = core_set lv c (t\<lparr>t_max_depth := x\<rparr>)"
  "(core_set lv c t)\<lparr>t_depth := x\<rparr> = core_set lv c (t\<lparr>t_depth := x\<rparr>)"
  "(core_set lv c t)\<lparr>t_cache_stack := g\<rparr> = core_set lv c (t\<lparr>t_cache_stack := g\<rparr>)"
  "(core_set lv c t)\<lparr>t_position_stack := g\<rparr> = core_set lv c (t\<lparr>t_position_stack := g\<rparr>)"
  "(core_set lv c t)\<lparr>t_cache := x\<rparr> = core_set lv c (t\<lparr>t_cache := x\<rparr>)"
  "(core_set lv c t)\<lparr>t_position := x\<rparr> = core_set lv c (t\<lparr>t_position := x\<rparr>)"
  "(core_set lv c t)\<lparr>t_ie := x\<rparr> = core_set lv c (t\<lparr>t_ie := x\<rparr>)"
  by (simp_all add: core_set_def)

lemma name_core_set: "t_name (core_set lv c t) = t_name t"
  by (simp add: core_set_def)

lemma init_inode_attr:
  "ar_flags (in_attr (init_inode objid flags)) = flags"
  "flags AND FLAG_TABLE \<noteq> 0 \<Longrightarrow>
   ar_content (in_attr (init_inode objid flags)) = Some (init_ib INDEX_BLOCK_SMALL ATTR_RECORD_CONTENT_SIZE)"
  by (simp_all add: init_inode_def Let_def)

context level_laws
begin

lemma get_info_ok:
  assumes "core_ok (lv_core lv env)"
  obtains t where "get_object_info lv objid env = (0, t)" and "t_objid t = objid" and "t_caches t = []"
    and "core_of lv t = (lv_core lv env)\<lparr>co_mallocs := Suc (co_mallocs (lv_core lv env))\<rparr>"
    and "length (t_name t) = OBJ_NAME_MAX_SIZE"
  using assms that by (simp add: get_object_info_def malloc_def core_of_def core_set_def core_ok_def get_set Let_def)

lemma create_empty:
  assumes c: "core_ok (lv_core lv env)" and new: "inode_no \<notin> fst ` set (co_meta (lv_core lv env))"
    and table: "flags AND FLAG_TABLE \<noteq> 0"
  obtains t ib where "create_object_at_inode lv objid inode_no flags env = Some (0, Inr t)" and "root_index lv t ib"
    and "keys_of ib = []" and "ib_alloc_size ib = ATTR_RECORD_CONTENT_SIZE" and "t_objid t = objid" and "t_attr_flags t = flags"
    and "t_inode_no t = inode_no" and "map_option c_vbn (cache_at lv t (t_root t)) = Some inode_no"
proof -
  let ?i = "init_inode objid flags" and ?ib = "init_ib INDEX_BLOCK_SMALL ATTR_RECORD_CONTENT_SIZE"
  obtain t0 where g: "get_object_info lv objid env = (0, t0)" and o: "t_objid t0 = objid" and cs: "t_caches t0 = []"
    and co0: "core_of lv t0 = (lv_core lv env)\<lparr>co_mallocs := Suc (co_mallocs (lv_core lv env))\<rparr>"
    by (rule get_info_ok[OF c])
  let ?co = "core_of lv t0"
  let ?p = "co_next ?co"
  let ?r = "Suc ?p"
  have ok: "core_ok ?co" using c by (simp add: co0 core_ok_def)
  have oom: "\<not> co_oom ?co n" if "co_mallocs ?co \<le> n" for n using ok that by (simp add: core_ok_def)
  obtain ns ms where a: "alloc_obj_cache lv inode_no t0 =
      Some (?p, core_set lv (?co\<lparr>co_heap := (co_heap ?co)(?p \<mapsto> \<lparr>c_vbn = inode_no, c_state = EMPTY, c_blk = Raw\<rparr>),
        co_next := Suc ?p, co_mallocs := Suc (Suc (co_mallocs ?co)), co_meta := ms\<rparr>) (t0\<lparr>t_caches := ns\<rparr>))"
    and "map_of ns = (map_of (t_caches t0))(inode_no \<mapsto> ?p)" and ns: "set ns = insert (inode_no, ?p) (set (t_caches t0))"
    and ms: "set ms = insert (inode_no, ?p) (set (co_meta ?co))" and p: "0 < ?p"
    by (rule alloc_cache_ok[OF ok]) (use new in \<open>simp_all add: cs co0\<close>)
  let ?co2 = "?co\<lparr>co_heap := (co_heap ?co)(?p \<mapsto> \<lparr>c_vbn = inode_no, c_state = DIRTY, c_blk = Obje ?i\<rparr>,
      ?r \<mapsto> \<lparr>c_vbn = inode_no, c_state = DIRTY, c_blk = InodeOf ?p\<rparr>), co_next := Suc ?r, co_mallocs := Suc (Suc (Suc (co_mallocs ?co))), co_meta := ms\<rparr>"
  let ?t2 = "use_hnd new_hnd (core_set lv ?co2 (t0\<lparr>t_caches := ns, t_inode_cache := ?p, t_inode_no := inode_no,
     t_name := strncpy (t_name t0) (in_name ?i) (unat (in_name_size ?i)), t_root := ?r, t_attr_flags := flags\<rparr>))"
  have cr: "create_object_at_inode lv objid inode_no flags env = Some (0, Inr ?t2)"
    using g a p oom
    by (simp add: create_object_at_inode_def init_attr_def set_state_def cache_at_def cache_set_def put_cache_def
        get_object_handle_def malloc_def Let_def use_hnd_def new_hnd_def core_of_update core_set_update name_core_set init_inode_attr)
      (intro arg_cong2[where f="core_set lv"] core.equality; simp)
  have co2: "core_of lv ?t2 = ?co2" and root: "t_root ?t2 = ?r" and tc: "t_caches ?t2 = ns"
    and f: "t_objid ?t2 = objid" "t_attr_flags ?t2 = flags" "t_inode_no ?t2 = inode_no"
    by (simp_all add: use_hnd_def core_of_update o) (simp_all add: core_set_def)
  have at: "cache_at lv ?t2 q = co_heap ?co2 q" for q unfolding cache_at_def co2 ..
  have "core_ok ?co2" using ok by (auto simp: core_ok_def ms less_Suc_eq split: if_splits)
  then have "caches_ok lv ?t2" unfolding caches_ok_def co2 root tc at using ns ms cs by (auto simp: less_Suc_eq)
  moreover have "get_ib lv ?t2 ?r = Some ?ib"
    unfolding get_ib_def at co2 using table by (simp add: blk_of_def init_inode_attr)
  moreover have "map_option CACHE_DIRTY (cache_at lv ?t2 ?r) = Some True" unfolding at by (simp add: CACHE_DIRTY_def)
  ultimately have "root_index lv ?t2 ?ib" using init_ib_small[of ATTR_RECORD_CONTENT_SIZE] by (simp add: root_index_def root)
  moreover have "map_option c_vbn (cache_at lv ?t2 (t_root ?t2)) = Some inode_no" unfolding at root by simp
  ultimately show thesis using that[OF cr] f init_ib_small[of ATTR_RECORD_CONTENT_SIZE] by simp
qed

end

section \<open>Handles\<close>

text \<open>The count of references of an object is the number of its handles.\<close>

definition handles_ok :: "container \<Rightarrow> u64 \<Rightarrow> bool" where
  "handles_ok ct oid \<longleftrightarrow> ct_refs ct oid = length (ct_hnds ct oid) \<and> distinct (map fst (ct_hnds ct oid)) \<and>
     (\<forall>h \<in> set (ct_hnds ct oid). fst h < co_next (sys_core (ct_sys ct)))"

lemma sys_core_laws [simp]:
  "sys_core (sys_core_set co s) = co" "sys_core_set co (sys_core_set d s) = sys_core_set co s"
  using sm_core_laws[OF base_lv.level_laws_axioms] object_lv.get_set object_lv.set_set
  by (cases s; simp add: sys_core_def sys_core_set_def object_level_def)+

lemma filter_fresh: "p \<notin> fst ` set hs \<Longrightarrow> filter (\<lambda>x. fst x \<noteq> p) hs = hs"
  by (induction hs) auto

lemma put_all_handles:
  "handles_ok ct oid \<Longrightarrow> ct_refs ct oid = n \<Longrightarrow>
   \<exists>ct'. put_all_object_handle oid n ct = Some ct' \<and> ct_refs ct' oid = 0 \<and> ct_hnds ct' oid = [] \<and> handles_ok ct' oid"
proof (induction n arbitrary: ct)
  case 0
  then show ?case by (simp add: handles_ok_def)
next
  case (Suc n)
  then obtain x xs where h: "ct_hnds ct oid = x # xs" by (cases "ct_hnds ct oid") (auto simp: handles_ok_def)
  have f: "filter (\<lambda>y. fst y \<noteq> fst x) xs = xs"
    by (rule filter_fresh) (use Suc.prems(1) h in \<open>auto simp: handles_ok_def\<close>)
  have "handles_ok (put_object_handle oid (fst x) ct) oid"
    using Suc.prems h by (simp add: handles_ok_def put_object_handle_def f)
  moreover have "ct_refs (put_object_handle oid (fst x) ct) oid = n" using Suc.prems(2) by (simp add: put_object_handle_def)
  ultimately show ?case using Suc.IH h by simp
qed



section \<open>Properties\<close>

text \<open>C17. A read that fails is reported once: the cache made for the block stays in the trees, and the
  next read of the block succeeds with a buffer that was never filled.\<close>

theorem failed_read_stays_cached:
  assumes "caches_ok (object_level oid) t" and "map_of (t_caches t) v = None"
    and "v \<notin> fst ` set (co_meta (core_of (object_level oid) t))" and "co_disk (core_of (object_level oid) t) v = None"
  shows "\<exists>p t'. index_block_read2 (object_level oid) v magic t = Some (- FILE_BLOCK_ERR_INVALID_OBJECT, 0, t') \<and>
    index_block_read2 (object_level oid) v magic t' = Some (0, p, t') \<and>
    cache_at (object_level oid) t' p = Some \<lparr>c_vbn = v, c_state = EMPTY, c_blk = Raw\<rparr>"
  by (rule object_lv.failed_read[OF assms]) blast



text \<open>Putting all the handles of an object ends, with no handle and no reference left.\<close>

theorem put_all_ends:
  assumes "handles_ok ct oid"
  shows "\<exists>ct'. put_all_object_handle oid (ct_refs ct oid) ct = Some ct' \<and> ct_refs ct' oid = 0 \<and> ct_hnds ct' oid = []"
  using put_all_handles[OF assms refl] by blast


text \<open>C21. A super block is laid out only on a device of ten blocks or more. It passes the check of an
  open, and its blocks lie on the device.\<close>

theorem super_block_fits:
  "if unat total_sectors div 8 < 10
   then init_super_block sb total_sectors BYTES_PER_BLOCK_SHIFT = (- BLOCK_ERR_PARAMETER, sb)
   else \<exists>sb'. init_super_block sb total_sectors BYTES_PER_BLOCK_SHIFT = (0, sb') \<and> check_super_block sb' = 0 \<and>
     unat (sb_total_blocks sb') * unat (sb_sectors_per_block sb') \<le> unat total_sectors \<and>
     unat (sb_first_free_block sb') + unat (sb_free_blocks sb') = unat (sb_total_blocks sb')"
proof -
  have t: "unat (drop_bit 3 total_sectors) = unat total_sectors div 8" by (simp add: drop_bit_eq_div unat_div_distrib)
  have l: "drop_bit 3 total_sectors < MIN_BLOCKS_NUM \<longleftrightarrow> unat total_sectors div 8 < 10" by (simp add: word_less_nat_alt t)
  have "unat (drop_bit 3 total_sectors - 1) = unat total_sectors div 8 - 1" if "\<not> unat total_sectors div 8 < 10"
    using that t by (subst unat_sub) (simp_all add: word_le_nat_alt)
  then show ?thesis using l by (simp add: init_super_block_def check_super_block_def Let_def t)
qed

section \<open>Witnesses\<close>

lemma failed_read_stays_cached_witness:
  "\<exists>p t'. index_block_read2 (object_level 200) 99 INDEX_MAGIC (ex_object ex_spaces) = Some (- FILE_BLOCK_ERR_INVALID_OBJECT, 0, t') \<and>
    index_block_read2 (object_level 200) 99 INDEX_MAGIC t' = Some (0, p, t') \<and>
    cache_at (object_level 200) t' p = Some \<lparr>c_vbn = 99, c_state = EMPTY, c_blk = Raw\<rparr>"
proof (rule failed_read_stays_cached)
  show "caches_ok (object_level 200) (ex_object ex_spaces)" using ex_ok[of 200] by (simp add: index_ok_def)
qed (simp_all add: ex_fields ex_core_of, simp_all add: ex_core_def)


text \<open>A container with one open object that has one handle, at the address 0.\<close>

definition one_open :: container where
  "one_open = (no_container [97])\<lparr>ct_objs := [(300, ex_object ())], ct_refs := (\<lambda>_. 0)(300 := 1),
     ct_hnds := (\<lambda>_. [])(300 := [(0, new_hnd)])\<rparr>"

lemma one_open_ok: "300 \<in> open_infos one_open" "handles_ok one_open 300" "ct_refs one_open 300 = 1"
  "\<not> co_oom (sys_core (ct_sys one_open)) n"
  by (simp_all add: one_open_def no_container_def open_infos_def handles_ok_def sys_core_def new_core_def)


lemma put_all_ends_witness:
  "\<exists>ct'. put_all_object_handle 300 1 one_open = Some ct' \<and> ct_hnds ct' 300 = []"
  using put_all_ends[OF one_open_ok(2)] one_open_ok(3) by auto




end
