(* ===== verification/Spec2Isabelle.thy ===== *)
theory Spec2Isabelle
  imports Ofs_Collate Os_Ring_Buffer Os_Dlist Os_Utils Ofs_Block_Rw Avl_Spec Ofs_Api Ofs_Spaces Ofs_Object_Spec
begin

text \<open>
  A verification library of the object file system: the object store of
  \<^verbatim>\<open>src/object_system/\<close> and the data structures of \<^verbatim>\<open>src/public/\<close> it is
  built on.

  The program. A container is a file that holds blocks. Its super block is written in several
  versions, ping-pong fashion, by \<^verbatim>\<open>ofs_block_rw.c\<close>; every other block carries a sequence
  number that is repeated at its end. An object has an inode; a table object has an index, a B-tree
  of blocks whose root is inside the inode (\<^verbatim>\<open>ofs_btree.c\<close>). Blocks are reached through caches
  that are registered in two AVL trees (\<^verbatim>\<open>ofs_metadata_cache.c\<close>, \<^verbatim>\<open>avl.c\<close>), one of the object
  and one of the container. Free blocks are extents in the index of a system object
  (\<^verbatim>\<open>ofs_space_manager.c\<close>); the blocks of that index come from a second manager, the base manager,
  and the blocks of the index of the base manager from a single reserved block. Objects and
  containers are opened and closed with counts of their users (\<^verbatim>\<open>ofs_object_manager.c\<close>,
  \<^verbatim>\<open>ofs_container_manager.c\<close>).

  Conventions. A pointer into a store is an address; a function returns its C status and the new
  state, and \<open>None\<close> where the C code has undefined behaviour (it reads or writes outside an
  object, or uses a null pointer) or does not return. Loops that may not end are
  \<^theory_text>\<open>partial_function (option)\<close>, so a theorem with the result \<open>Some\<close> says that they end. Error
  codes are negative integers, as in the code. Assertions are left out, since the Linux builds
  define \<^verbatim>\<open>ASSERT\<close> as nothing.

  The theories, in the order of the dependencies.

  \<^item> \<open>Ofs_Prelude\<close>: widths of integers, error codes of \<^verbatim>\<open>ofs_globals.h\<close> and \<^verbatim>\<open>ofs_block.h\<close>, the
    little-endian image of an integer, lemmas on lists.
  \<^item> \<open>Ofs_Layout\<close>: the records of \<^verbatim>\<open>ofs_layout.h\<close>: index entries and blocks, inodes.
  \<^item> \<open>Ofs_Collate\<close>: the comparison rules and key codecs of \<^verbatim>\<open>ofs_collate.c\<close>; each rule equals an
    order on what the keys stand for (numbers, intervals, lists of characters).
  \<^item> \<open>Os_Ring_Buffer\<close>, \<open>Os_Dlist\<close>, \<open>Os_Utils\<close>, \<open>Os_File_If\<close>: \<^verbatim>\<open>os_ring_buffer.h\<close>, \<^verbatim>\<open>os_dlist.h\<close>,
    \<^verbatim>\<open>os_utils.c\<close>, \<^verbatim>\<open>os_file_if.c\<close>. The ring buffer refines a bounded queue, the linked list refines a
    list. What a queue, a disk, a key order and an ordered index promise are locales, which the
    models of the code interpret.
  \<^item> \<open>Ofs_Block_Rw\<close>: \<^verbatim>\<open>ofs_block_rw.c\<close> on bytes over a file: the fixup, and the ping-pong versions as
    a series of versions that a torn write does not end.
  \<^item> \<open>Avl\<close> models \<^verbatim>\<open>avl.c\<close> on pointers. \<open>Avl_Rep\<close> relates the pointers to a tree with balance tags,
    \<open>Avl_Insert\<close>, \<open>Avl_Walk\<close>, \<open>Avl_Remove\<close> and \<open>Avl_Swap\<close> prove the operations, \<open>Avl_Spec\<close> holds the
    properties. The theories above see such a tree as its sequence of nodes.
  \<^item> \<open>Ofs_Metadata_Cache\<close>: the caches, the shared state \<open>core\<close> (store of caches, disk, registered
    caches) and the record \<open>levels\<close>. Allocating a block for an index calls the space manager, which
    works on an index itself: the operations take the level as an argument, so the same definitions
    serve the base index, the space index and the objects (\<open>base_level\<close>, \<open>space_level\<close>,
    \<open>object_level\<close> of \<open>Ofs_Space_Manager\<close>).
  \<^item> \<open>Ofs_Index_Node\<close> models the functions of \<^verbatim>\<open>ofs_btree.c\<close> on one block, \<open>Ofs_Btree\<close> the moves of
    a handle and the marking of a path as dirty, \<open>Ofs_Btree_Ops\<close> search, insertion, removal, count
    and walk.
  \<^item> \<open>Ofs_Index_Spec\<close>: well-formed blocks and the block functions on the sequence of entries.
    \<open>Ofs_Index_View\<close>: the laws of a level and the view of the blocks, in the cache or on the disk.
    \<open>Ofs_Index_Tree\<close>: the view as a tree, handles as paths. \<open>Ofs_Index_Walk\<close>: search and walk at any
    depth. \<open>Ofs_Index_Root\<close>: insertion and removal in an index that fits into its root.
  \<^item> \<open>Ofs_Cache_Spec\<close>: flushing, and what a failed read leaves behind.
  \<^item> \<open>Ofs_Space_Manager\<close> models \<^verbatim>\<open>ofs_space_manager.c\<close>. \<open>Ofs_Extents\<close> and \<open>Ofs_Space_Spec\<close> show that
    the index of a manager implements a set of free blocks, \<open>Ofs_Spaces\<close> that the two managers and
    the reserved block share the blocks of a container without losing or doubling any.
  \<^item> \<open>Ofs_Levels\<close>: the three levels interpret the laws, and the properties of search and walk.
  \<^item> \<open>Ofs_Object\<close>, \<open>Ofs_Container\<close>, \<open>Ofs_Api\<close> model \<^verbatim>\<open>ofs_object_manager.c\<close> and
    \<^verbatim>\<open>ofs_container_manager.c\<close>; \<open>Ofs_Object_Spec\<close> holds their properties.

  Bounds. A handle has stacks for 16 levels (\<^verbatim>\<open>TREE_MAX_DEPTH\<close>), so the index of a property is at
  most that deep. The space properties take extents below block \<open>2 ^ 62\<close> of less than \<open>2 ^ 32\<close>
  blocks, because the code cuts lengths to 32 bits and does not check sums for wrap-around, and
  managers whose extents fit into the root of their index with room for the changes of one call
  (\<open>has_room\<close>). No fuel is used.

  Not modelled. The tools, the command line and the log parse text and print; the platform headers
  name services of the system; \<^verbatim>\<open>src/file_system/\<close>, \<^verbatim>\<open>ofs_object_map.c\<close> and \<^verbatim>\<open>ofs_object_rw.c\<close> are
  empty; the unit tests are test code. Locks are left out: a call is modelled under its lock.
  The blocks of indexes and inodes are records in the cache and on the disk; their bytes are modelled
  only as the buffers of \<open>Ofs_Block_Rw\<close>.
\<close>

end
